(* ===== verification/Epx_Prelude.thy ===== *)
theory Epx_Prelude
  imports Main "HOL-Library.Word"
begin

unbundle bit_operations_syntax

text \<open>
  Shared vocabulary of the development: the widths of the C++ integers, byte strings, the result
  type of code that reads raw buffers, the checked buffer reads, and the lemmas on words, lists and
  options that the component theories use. Nothing here models a particular source file.
\<close>

section \<open>Integer widths, bytes and strings\<close>

type_synonym u8 = "8 word"
type_synonym u16 = "16 word"
type_synonym u32 = "32 word"
type_synonym u64 = "64 word"

text \<open>A \<open>std::vector<uint8_t>\<close> or \<open>std::array<uint8_t, N>\<close> is a list of bytes; an array's length is
  part of the well-formedness predicate of the record that holds it.\<close>

type_synonym bytes = "u8 list"

named_theorems wire_simps \<open>equations that evaluate encoders, decoders and checked reads\<close>
named_theorems wf_intros \<open>introduction rules for the well-formedness predicates\<close>
named_theorems step_defs \<open>definitions of the state-changing operations\<close>

text \<open>
  A \<open>std::string\<close> holds \<open>char\<close>s, which are bytes; HOL's \<open>char\<close> has 256 values too, so a string is a
  HOL \<open>string\<close> and the two conversions below are the casts the code performs when it copies a string
  into a byte vector and back.
\<close>

definition u8_of_char :: "char \<Rightarrow> u8" where
  "u8_of_char c = word_of_nat (of_char c)"

definition char_of_u8 :: "u8 \<Rightarrow> char" where
  "char_of_u8 w = char_of (unat w)"

definition bytes_of_string :: "string \<Rightarrow> bytes" where
  "bytes_of_string s = map u8_of_char s"

definition string_of_bytes :: "bytes \<Rightarrow> string" where
  "string_of_bytes b = map char_of_u8 b"

lemma char_of_u8_of_char [simp]: "char_of_u8 (u8_of_char c) = c"
  by (simp add: u8_of_char_def char_of_u8_def unat_of_nat)

lemma u8_of_char_of_u8 [simp]: "u8_of_char (char_of_u8 w) = w"
proof -
  have "unat w < 256" using unsigned_less [of w] by simp
  then show ?thesis by (simp add: u8_of_char_def char_of_u8_def)
qed

lemma string_of_bytes_of_string [simp]: "string_of_bytes (bytes_of_string s) = s"
  by (simp add: string_of_bytes_def bytes_of_string_def comp_def)

lemma bytes_of_string_of_bytes [simp]: "bytes_of_string (string_of_bytes b) = b"
  by (simp add: string_of_bytes_def bytes_of_string_def comp_def)

lemma length_bytes_of_string [simp]: "length (bytes_of_string s) = length s"
  by (simp add: bytes_of_string_def)

lemma length_string_of_bytes [simp]: "length (string_of_bytes b) = length b"
  by (simp add: string_of_bytes_def)

lemma bytes_of_string_eq_iff [simp]: "bytes_of_string s = bytes_of_string t \<longleftrightarrow> s = t"
  by (metis string_of_bytes_of_string)

section \<open>Reading raw buffers\<close>

text \<open>
  Code that decodes a buffer has three outcomes: it accepts with a value, it returns \<open>false\<close>
  (\<open>Fail\<close>), or it reads outside the buffer, which C++ leaves undefined (\<open>Oob\<close>). Every indexed read
  and every \<open>memcpy\<close>/\<open>assign\<close> from the buffer goes through a checked read below, so memory safety of
  a decoder is the statement that it never yields \<open>Oob\<close>.
\<close>

datatype 'a cres = Ok 'a | Fail | Oob

fun rbind :: "'a cres \<Rightarrow> ('a \<Rightarrow> 'b cres) \<Rightarrow> 'b cres" where
  "rbind (Ok x) f = f x"
| "rbind Fail f = Fail"
| "rbind Oob f = Oob"

definition rd_u8 :: "bytes \<Rightarrow> nat \<Rightarrow> u8 cres" where
  "rd_u8 p off = (if off < length p then Ok (p ! off) else Oob)"

definition rd_block :: "bytes \<Rightarrow> nat \<Rightarrow> nat \<Rightarrow> bytes cres" where
  "rd_block p off n = (if off + n \<le> length p then Ok (take n (drop off p)) else Oob)"

lemma rbind_eq_Ok_iff: "rbind m f = Ok y \<longleftrightarrow> (\<exists>x. m = Ok x \<and> f x = Ok y)"
  by (cases m) auto

lemma rbind_eq_Oob_iff: "rbind m f = Oob \<longleftrightarrow> m = Oob \<or> (\<exists>x. m = Ok x \<and> f x = Oob)"
  by (cases m) auto

lemma rd_u8_Ok: "off < length p \<Longrightarrow> rd_u8 p off = Ok (p ! off)"
  by (simp add: rd_u8_def)

lemma rd_block_Ok: "off + n \<le> length p \<Longrightarrow> rd_block p off n = Ok (take n (drop off p))"
  by (simp add: rd_block_def)

lemma rd_block_length: "rd_block p off n = Ok b \<Longrightarrow> length b = n"
  by (auto simp: rd_block_def split: if_splits)

lemma rd_u8_Oob_iff [simp]: "rd_u8 p off = Oob \<longleftrightarrow> length p \<le> off"
  by (auto simp: rd_u8_def)

lemma rd_block_Oob_iff [simp]: "rd_block p off n = Oob \<longleftrightarrow> length p < off + n"
  by (auto simp: rd_block_def)

lemma rd_u8_not_Fail [simp]: "rd_u8 p off \<noteq> Fail"
  by (simp add: rd_u8_def)

lemma rd_block_not_Fail [simp]: "rd_block p off n \<noteq> Fail"
  by (simp add: rd_block_def)

text \<open>
  Reads at an offset of a concatenation: skip the parts in front, then take the part itself. With
  these rules the simplifier evaluates a decoder on the output of an encoder.
\<close>

lemma rd_u8_skip [wire_simps]: "length xs \<le> off \<Longrightarrow> rd_u8 (xs @ ys) off = rd_u8 ys (off - length xs)"
  by (auto simp: rd_u8_def nth_append)

lemma rd_u8_Cons [wire_simps]: "rd_u8 (y # ys) off = (if off = 0 then Ok y else rd_u8 ys (off - 1))"
  by (auto simp: rd_u8_def)

lemma rd_block_skip [wire_simps]:
  "length xs \<le> off \<Longrightarrow> rd_block (xs @ ys) off n = rd_block ys (off - length xs) n"
  by (auto simp: rd_block_def)

lemma rd_block_Cons [wire_simps]: "0 < off \<Longrightarrow> rd_block (y # ys) off n = rd_block ys (off - 1) n"
  by (auto simp: rd_block_def drop_Cons')

lemma rd_block_head [wire_simps]: "length xs = n \<Longrightarrow> rd_block (xs @ ys) 0 n = Ok xs"
  by (simp add: rd_block_def)

lemma rd_block_all [wire_simps]: "length xs = n \<Longrightarrow> rd_block xs 0 n = Ok xs"
  by (simp add: rd_block_def)

section \<open>Words as byte sequences\<close>

lemma push_or_byte:
  "push_bit 8 (drop_bit (k + 8) v) OR ucast (ucast (drop_bit k v) :: u8) = drop_bit k (v :: 'a::len word)"
proof (rule bit_word_eqI)
  fix n assume "n < LENGTH('a)"
  then show "bit (push_bit 8 (drop_bit (k + 8) v) OR ucast (ucast (drop_bit k v) :: u8)) n
      = bit (drop_bit k v) n"
    by (cases "n < 8") (simp_all add: bit_simps ac_simps)
qed

lemma drop_bit_length_zero: "LENGTH('a) \<le> n \<Longrightarrow> drop_bit n (v :: 'a::len word) = 0"
  by (rule bit_word_eqI) (auto simp: bit_simps)

lemma unat_word_of_nat_small: "n < 2 ^ LENGTH('a) \<Longrightarrow> unat (word_of_nat n :: 'a::len word) = n"
  by (simp add: unat_of_nat)

lemma u8_one_le_iff: "(1 :: u8) \<le> v \<longleftrightarrow> v \<noteq> 0"
  by unat_arith

lemma u8_not_two_le_one [simp]: "\<not> (2 :: u8) \<le> 1"
  by (simp add: word_le_nat_alt)

lemma unat_len_u8 [wire_simps]: "length s < 256 \<Longrightarrow> unat (word_of_nat (length s) :: u8) = length s"
  by (simp add: unat_word_of_nat_small)

lemma unat_len_u32 [wire_simps]: "length s < 2 ^ 32 \<Longrightarrow> unat (word_of_nat (length s) :: u32) = length s"
  by (simp add: unat_word_of_nat_small)

lemma u8_bit_high: "8 \<le> n \<Longrightarrow> bit (b :: u8) n \<longleftrightarrow> False"
  using bit_imp_le_length [of b n] by auto

lemma length_8E:
  assumes "length xs = 8"
  obtains a b c d e f g h where "xs = [a, b, c, d, e, f, g, h]"
  using assms by (auto simp: eval_nat_numeral length_Suc_conv)

lemma take_append_length: "length xs = n \<Longrightarrow> take n (xs @ ys) = xs"
  by simp

lemma drop_append_length: "length xs = n \<Longrightarrow> drop n (xs @ ys) = ys"
  by simp

lemma foldl_list_update_upt:
  "k + n \<le> length xs \<Longrightarrow>
   foldl (\<lambda>ys i. ys[k + i := f i]) xs [0 ..< n] = take k xs @ map f [0 ..< n] @ drop (k + n) xs"
proof (induction n)
  case (Suc n)
  then have "drop (k + n) xs = xs ! (k + n) # drop (k + Suc n) xs"
    using Cons_nth_drop_Suc [of "k + n" xs] by simp
  with Suc show ?case by (simp add: list_update_append min_def)
qed simp

lemma append_eq_same_length:
  "length xs = length us \<Longrightarrow> xs @ ys = us @ vs \<longleftrightarrow> xs = us \<and> ys = vs"
  by simp

end
