(* ===== verification/Epx_Wire.thy ===== *)
theory Epx_Wire
  imports Epx_Prelude
begin

text \<open>
  The wire format: \<^verbatim>\<open>src/protocol.hpp\<close> and \<^verbatim>\<open>src/protocol.cpp\<close>. Big-endian integers, the
  length-prefixed strings, the five payload encoders and decoders, the signature transcripts of both
  protocol versions and version negotiation. A \<open>size_t\<close> offset is a \<open>nat\<close>: buffers are shorter than
  \<open>2 ^ 63\<close> bytes, so no offset computation of the decoders wraps.
\<close>

section \<open>Constants and version negotiation\<close>

definition kProtocolVersionMin :: u8 where "kProtocolVersionMin = 1"
definition kProtocolVersionMax :: u8 where "kProtocolVersionMax = 2"
definition kProtocolVersion :: u8 where "kProtocolVersion = 1"
definition kMaxFrameBytes :: u32 where "kMaxFrameBytes = 16 * 1024 * 1024"
definition kErrRateLimited :: u16 where "kErrRateLimited = 1"
definition kErrTooManyStreams :: u16 where "kErrTooManyStreams = 2"
definition kErrProtocol :: u16 where "kErrProtocol = 3"

text \<open>The process-wide ceiling of \<^verbatim>\<open>protocol.cpp\<close> (\<open>g_max_negotiable\<close>) with its two accessors.\<close>

record wire_globals =
  g_max_negotiable :: u8

definition wire_globals_init :: wire_globals where
  "wire_globals_init = \<lparr>g_max_negotiable = kProtocolVersionMax\<rparr>"

definition max_negotiable_version :: "wire_globals \<Rightarrow> u8" where
  "max_negotiable_version g = g_max_negotiable g"

definition set_max_negotiable_version_for_testing :: "wire_globals \<Rightarrow> u8 \<Rightarrow> wire_globals" where
  "set_max_negotiable_version_for_testing g v = g\<lparr>g_max_negotiable := v\<rparr>"

definition negotiate_version :: "u8 \<Rightarrow> u8 \<Rightarrow> u8" where
  "negotiate_version ours theirs =
     (let v = (if ours < theirs then ours else theirs)
      in if kProtocolVersionMin \<le> v then v else 0)"

section \<open>Frame types\<close>

text \<open>
  \<open>FrameType\<close> is an \<open>enum class\<close> over \<open>uint8_t\<close>: casting any byte to it is defined, and a byte without
  an enumerator keeps its value (\<open>UnknownFrame\<close>).
\<close>

datatype FrameType = Hello | HelloAck | Request | Response | Error | Ping | Pong | Bye
  | StreamChunk | Rekey | RekeyAck | UnknownFrame u8

fun u8_of_frame_type :: "FrameType \<Rightarrow> u8" where
  "u8_of_frame_type Hello = 0"
| "u8_of_frame_type HelloAck = 1"
| "u8_of_frame_type Request = 2"
| "u8_of_frame_type Response = 3"
| "u8_of_frame_type Error = 4"
| "u8_of_frame_type Ping = 5"
| "u8_of_frame_type Pong = 6"
| "u8_of_frame_type Bye = 7"
| "u8_of_frame_type StreamChunk = 8"
| "u8_of_frame_type Rekey = 9"
| "u8_of_frame_type RekeyAck = 10"
| "u8_of_frame_type (UnknownFrame b) = b"

definition frame_type_of_u8 :: "u8 \<Rightarrow> FrameType" where
  "frame_type_of_u8 b =
     (if b = 0 then Hello else if b = 1 then HelloAck else if b = 2 then Request
      else if b = 3 then Response else if b = 4 then Error else if b = 5 then Ping
      else if b = 6 then Pong else if b = 7 then Bye else if b = 8 then StreamChunk
      else if b = 9 then Rekey else if b = 10 then RekeyAck else UnknownFrame b)"

text \<open>The enumerators and the bytes without one; \<open>UnknownFrame 3\<close> is not a value of the C++ type.\<close>

definition frame_type_wf :: "FrameType \<Rightarrow> bool" where
  "frame_type_wf t = (case t of UnknownFrame b \<Rightarrow> 10 < b | _ \<Rightarrow> True)"

lemma u8_of_frame_type_of_u8 [simp]: "u8_of_frame_type (frame_type_of_u8 b) = b"
  by (simp add: frame_type_of_u8_def)

lemma frame_type_of_u8_of_frame_type [simp]:
  "frame_type_wf t \<Longrightarrow> frame_type_of_u8 (u8_of_frame_type t) = t"
  by (cases t) (auto simp: frame_type_of_u8_def frame_type_wf_def)

lemma u8_no_enumerator:
  "(b :: u8) \<noteq> 0 \<Longrightarrow> b \<noteq> 1 \<Longrightarrow> b \<noteq> 2 \<Longrightarrow> b \<noteq> 3 \<Longrightarrow> b \<noteq> 4 \<Longrightarrow> b \<noteq> 5 \<Longrightarrow> b \<noteq> 6 \<Longrightarrow> b \<noteq> 7 \<Longrightarrow> b \<noteq> 8
   \<Longrightarrow> b \<noteq> 9 \<Longrightarrow> b \<noteq> 10 \<Longrightarrow> 10 < b"
  by unat_arith

lemma frame_type_wf_of_u8 [simp]: "frame_type_wf (frame_type_of_u8 b)"
  by (simp add: frame_type_wf_def frame_type_of_u8_def u8_no_enumerator)

lemma u8_of_frame_type_inj:
  "frame_type_wf s \<Longrightarrow> frame_type_wf t \<Longrightarrow> u8_of_frame_type s = u8_of_frame_type t \<longleftrightarrow> s = t"
  by (metis frame_type_of_u8_of_frame_type)

section \<open>Big-endian integers and short strings\<close>

definition put_u32 :: "bytes \<Rightarrow> u32 \<Rightarrow> bytes" where
  "put_u32 out v = out @ [ucast (drop_bit 24 v), ucast (drop_bit 16 v), ucast (drop_bit 8 v), ucast v]"

definition put_u64 :: "bytes \<Rightarrow> u64 \<Rightarrow> bytes" where
  "put_u64 out v = foldl (\<lambda>acc i. acc @ [ucast (drop_bit (i * 8) v)]) out [7, 6, 5, 4, 3, 2, 1, 0]"

definition get_u32 :: "bytes \<Rightarrow> nat \<Rightarrow> u32 cres" where
  "get_u32 p off =
     rbind (rd_u8 p off) (\<lambda>b0. rbind (rd_u8 p (off + 1)) (\<lambda>b1.
     rbind (rd_u8 p (off + 2)) (\<lambda>b2. rbind (rd_u8 p (off + 3)) (\<lambda>b3.
       Ok (push_bit 24 (ucast b0) OR push_bit 16 (ucast b1) OR push_bit 8 (ucast b2) OR ucast b3)))))"

fun get_u64_loop :: "bytes \<Rightarrow> nat \<Rightarrow> nat list \<Rightarrow> u64 \<Rightarrow> u64 cres" where
  "get_u64_loop p off [] v = Ok v"
| "get_u64_loop p off (i # is) v =
     rbind (rd_u8 p (off + i)) (\<lambda>b. get_u64_loop p off is (push_bit 8 v OR ucast b))"

definition get_u64 :: "bytes \<Rightarrow> nat \<Rightarrow> u64 cres" where
  "get_u64 p off = get_u64_loop p off [0, 1, 2, 3, 4, 5, 6, 7] 0"

definition put_bytes :: "bytes \<Rightarrow> bytes \<Rightarrow> bytes" where
  "put_bytes out p = out @ p"

definition put_str8 :: "bytes \<Rightarrow> string \<Rightarrow> bytes" where
  "put_str8 out s = out @ [ucast ((word_of_nat (length s) :: u64) AND 0xFF)] @ bytes_of_string s"

definition get_str8 :: "bytes \<Rightarrow> nat \<Rightarrow> nat \<Rightarrow> (string \<times> nat) cres" where
  "get_str8 p avail off =
     (if off + 1 > avail then Fail
      else rbind (rd_u8 p off) (\<lambda>len.
        let off = off + 1 in
        if off + unat len > avail then Fail
        else rbind (rd_block p off (unat len)) (\<lambda>s. Ok (string_of_bytes s, off + unat len))))"

lemma put_u64_eq:
  "put_u64 out v = out @ [ucast (drop_bit 56 v), ucast (drop_bit 48 v), ucast (drop_bit 40 v),
     ucast (drop_bit 32 v), ucast (drop_bit 24 v), ucast (drop_bit 16 v), ucast (drop_bit 8 v), ucast v]"
  by (simp add: put_u64_def)

lemma length_put_u64 [simp]: "length (put_u64 out v) = length out + 8"
  by (simp add: put_u64_eq)

lemma length_put_u32 [simp]: "length (put_u32 out v) = length out + 4"
  by (simp add: put_u32_def)

lemma put_u64_append [wire_simps]: "NO_MATCH [] out \<Longrightarrow> put_u64 out v = out @ put_u64 [] v"
  by (simp add: put_u64_eq)

lemma put_u32_append [wire_simps]: "NO_MATCH [] out \<Longrightarrow> put_u32 out v = out @ put_u32 [] v"
  by (simp add: put_u32_def)

lemma put_u64_Cons: "put_u64 [b] v = b # put_u64 [] v"
  by (simp add: put_u64_eq)

lemma str8_len_byte: "ucast ((word_of_nat n :: u64) AND 0xFF) = (word_of_nat n :: u8)"
proof -
  have "(0xFF :: u64) = mask 8" by (simp add: mask_eq_exp_minus_1)
  then have "ucast ((word_of_nat n :: u64) AND 0xFF) = (ucast (word_of_nat n :: u64) :: u8)"
    by (simp only: flip: take_bit_eq_mask) (rule bit_word_eqI, auto simp: bit_simps)
  also have "\<dots> = word_of_nat n"
    by (rule bit_word_eqI) (auto simp: bit_simps)
  finally show ?thesis .
qed

lemma put_str8_eq [wire_simps]: "put_str8 out s = out @ word_of_nat (length s) # bytes_of_string s"
  by (simp add: put_str8_def str8_len_byte)

lemma get_u32_bits:
  "push_bit 24 (ucast (ucast (drop_bit 24 v) :: u8)) OR push_bit 16 (ucast (ucast (drop_bit 16 v) :: u8))
      OR push_bit 8 (ucast (ucast (drop_bit 8 v) :: u8)) OR ucast (ucast v :: u8) = (v :: u32)"
proof (rule bit_word_eqI)
  fix n assume "n < LENGTH(32)"
  then consider "n < 8" | "8 \<le> n" "n < 16" | "16 \<le> n" "n < 24" | "24 \<le> n" "n < 32" by fastforce
  then show "bit (push_bit 24 (ucast (ucast (drop_bit 24 v) :: u8)) OR push_bit 16 (ucast (ucast (drop_bit 16 v) :: u8))
      OR push_bit 8 (ucast (ucast (drop_bit 8 v) :: u8)) OR ucast (ucast v :: u8) :: u32) n = bit v n"
    by cases (auto simp: bit_simps)
qed

lemma get_u32_at:
  "off + 4 \<le> length p \<Longrightarrow> take 4 (drop off p) = put_u32 [] v \<Longrightarrow> get_u32 p off = Ok v"
proof -
  assume len: "off + 4 \<le> length p" and eq: "take 4 (drop off p) = put_u32 [] v"
  have nth: "p ! (off + i) = put_u32 [] v ! i" if "i < 4" for i
    using len that by (simp flip: eq)
  have "push_bit 24 (ucast (ucast (drop_bit 24 v) :: u8)) OR push_bit 16 (ucast (ucast (drop_bit 16 v) :: u8))
      OR push_bit 8 (ucast (ucast (drop_bit 8 v) :: u8)) OR ucast (ucast v :: u8) = v"
    by (rule get_u32_bits)
  then show ?thesis
    using len nth [of 0] nth [of 1] nth [of 2] nth [of 3]
    by (simp add: get_u32_def rd_u8_def put_u32_def numeral_2_eq_2 numeral_3_eq_3)
qed

lemma get_u64_value:
  "off + 8 \<le> length p \<Longrightarrow> get_u64 p off = Ok (foldl (\<lambda>v i. push_bit 8 v OR ucast (p ! (off + i))) 0 [0, 1, 2, 3, 4, 5, 6, 7])"
  by (simp add: get_u64_def rd_u8_def)

lemma foldl_put_u64:
  "foldl (\<lambda>v i. push_bit 8 v OR ucast (put_u64 [] v0 ! i)) 0 [0, 1, 2, 3, 4, 5, 6, 7] = v0"
  using push_or_byte [of 56 v0] push_or_byte [of 48 v0] push_or_byte [of 40 v0] push_or_byte [of 32 v0]
    push_or_byte [of 24 v0] push_or_byte [of 16 v0] push_or_byte [of 8 v0] push_or_byte [of 0 v0]
    drop_bit_length_zero [of 64 v0]
  by (simp add: put_u64_eq)

lemma get_u64_at:
  assumes len: "off + 8 \<le> length p" and eq: "take 8 (drop off p) = put_u64 [] v"
  shows "get_u64 p off = Ok v"
proof -
  have nth: "p ! (off + i) = put_u64 [] v ! i" if "i < 8" for i
    using len that by (simp flip: eq)
  have "foldl (\<lambda>v i. push_bit 8 v OR ucast (p ! (off + i))) (0 :: u64) [0, 1, 2, 3, 4, 5, 6, 7]
      = foldl (\<lambda>v' i. push_bit 8 v' OR ucast (put_u64 [] v ! i)) 0 [0, 1, 2, 3, 4, 5, 6, 7]"
    using nth [of 0] nth [of 1] nth [of 2] by (intro foldl_cong) (auto simp: nth numeral_2_eq_2)
  then show ?thesis
    using get_u64_value [OF len] by (simp only: foldl_put_u64)
qed

lemma get_u32_not_Fail [simp]: "get_u32 p off \<noteq> Fail"
  by (auto simp: get_u32_def rd_u8_def)

lemma get_u32_Oob_iff [simp]: "get_u32 p off = Oob \<longleftrightarrow> length p < off + 4"
  by (auto simp: get_u32_def rbind_eq_Oob_iff rd_u8_def)

lemma get_u64_Oob: "get_u64 p off = Oob \<Longrightarrow> length p < off + 8"
  using get_u64_value [of off p] by (cases "off + 8 \<le> length p") auto

lemma get_u32_skip [wire_simps]:
  "length xs \<le> off \<Longrightarrow> get_u32 (xs @ ys) off = get_u32 ys (off - length xs)"
  by (simp add: get_u32_def rd_u8_skip Suc_diff_le)

lemma get_u32_Cons [wire_simps]: "0 < off \<Longrightarrow> get_u32 (y # ys) off = get_u32 ys (off - 1)"
  by (simp add: get_u32_def rd_u8_Cons)

lemma get_u32_head [wire_simps]: "get_u32 (put_u32 [] v @ ys) 0 = Ok v"
  by (rule get_u32_at) auto

lemma get_u64_head [wire_simps]: "get_u64 (put_u64 [] v @ ys) 0 = Ok v"
  by (rule get_u64_at) auto

text \<open>The integer encodings are onto: every four or eight bytes are the encoding of what they decode to.\<close>

lemma put_u32_get_u32:
  assumes "get_u32 p 0 = Ok v" and "length p = 4"
  shows "put_u32 [] v = p"
proof -
  obtain a b c d where p: "p = [a, b, c, d]"
    using assms(2) by (auto simp: eval_nat_numeral length_Suc_conv)
  show ?thesis
    using assms(1) unfolding p
    by (auto simp: get_u32_def rd_u8_def put_u32_def bit_eq_iff [where 'a = "8 word"] bit_simps u8_bit_high)
qed

lemma put_u64_get_u64:
  assumes "get_u64 p off = Ok v" and "off + 8 \<le> length p"
  shows "put_u64 [] v = take 8 (drop off p)"
proof -
  have "length (take 8 (drop off p)) = 8" using assms(2) by simp
  then obtain a b c d e f g h where q: "take 8 (drop off p) = [a, b, c, d, e, f, g, h]"
    by (rule length_8E)
  have nth: "p ! (off + i) = [a, b, c, d, e, f, g, h] ! i" if "i < 8" for i
    using assms(2) that by (simp flip: q)
  have "v = foldl (\<lambda>v i. push_bit 8 v OR ucast (p ! (off + i))) 0 [0, 1, 2, 3, 4, 5, 6, 7]"
    using assms get_u64_value by simp
  also have "\<dots> = foldl (\<lambda>v i. push_bit 8 v OR ucast ([a, b, c, d, e, f, g, h] ! i)) 0 [0, 1, 2, 3, 4, 5, 6, 7]"
    using nth [of 0] nth [of 1] nth [of 2] by (intro foldl_cong) (auto simp: nth numeral_2_eq_2)
  finally show ?thesis
    unfolding q by (auto simp: put_u64_eq bit_eq_iff [where 'a = "8 word"] bit_simps u8_bit_high)
qed

lemma get_str8_Ok_bounds:
  "get_str8 p (length p) off = Ok (s, off') \<Longrightarrow> off' = off + 1 + length s \<and> off' \<le> length p \<and> length s < 256"
  using unsigned_less [of "p ! off"]
  by (auto simp: get_str8_def rbind_eq_Ok_iff rd_u8_def rd_block_def Let_def split: if_splits)

lemma get_str8_not_Oob [simp]: "get_str8 p (length p) off \<noteq> Oob"
  by (auto simp: get_str8_def rd_u8_def rd_block_def Let_def)

section \<open>Handshake payloads\<close>

record HelloPayload =
  hello_version :: u8
  hello_identity_pubkey :: bytes
  hello_ephemeral_pubkey :: bytes
  hello_client_nonce :: bytes
  hello_service_name :: string
  hello_signature :: bytes
  hello_max_version :: u8
  hello_signature_v2 :: bytes
  hello_has_v2_extension :: bool

definition HelloPayload_init :: HelloPayload where
  "HelloPayload_init = \<lparr>hello_version = kProtocolVersion, hello_identity_pubkey = replicate 32 0,
     hello_ephemeral_pubkey = replicate 32 0, hello_client_nonce = replicate 16 0,
     hello_service_name = [], hello_signature = replicate 64 0, hello_max_version = 1,
     hello_signature_v2 = replicate 64 0, hello_has_v2_extension = False\<rparr>"

definition hello_wf :: "HelloPayload \<Rightarrow> bool" where
  "hello_wf h \<longleftrightarrow> length (hello_identity_pubkey h) = 32 \<and> length (hello_ephemeral_pubkey h) = 32
     \<and> length (hello_client_nonce h) = 16 \<and> length (hello_signature h) = 64
     \<and> length (hello_signature_v2 h) = 64"

record HelloAckPayload =
  ack_version :: u8
  ack_identity_pubkey :: bytes
  ack_ephemeral_pubkey :: bytes
  ack_server_nonce :: bytes
  ack_client_nonce :: bytes
  ack_status :: u8
  ack_signature :: bytes
  ack_max_version :: u8
  ack_signature_v2 :: bytes
  ack_has_v2_extension :: bool

definition HelloAckPayload_init :: HelloAckPayload where
  "HelloAckPayload_init = \<lparr>ack_version = kProtocolVersion, ack_identity_pubkey = replicate 32 0,
     ack_ephemeral_pubkey = replicate 32 0, ack_server_nonce = replicate 16 0,
     ack_client_nonce = replicate 16 0, ack_status = 0, ack_signature = replicate 64 0,
     ack_max_version = 1, ack_signature_v2 = replicate 64 0, ack_has_v2_extension = False\<rparr>"

definition ack_wf :: "HelloAckPayload \<Rightarrow> bool" where
  "ack_wf h \<longleftrightarrow> length (ack_identity_pubkey h) = 32 \<and> length (ack_ephemeral_pubkey h) = 32
     \<and> length (ack_server_nonce h) = 16 \<and> length (ack_client_nonce h) = 16
     \<and> length (ack_signature h) = 64 \<and> length (ack_signature_v2 h) = 64"

definition encode_hello :: "HelloPayload \<Rightarrow> bytes" where
  "encode_hello h =
     (let out = [hello_version h];
          out = put_bytes out (hello_identity_pubkey h);
          out = put_bytes out (hello_ephemeral_pubkey h);
          out = put_bytes out (hello_client_nonce h);
          out = put_str8 out (hello_service_name h);
          out = put_bytes out (hello_signature h)
      in if 2 \<le> hello_max_version h
         then put_bytes (out @ [hello_max_version h]) (hello_signature_v2 h) else out)"

definition decode_hello :: "bytes \<Rightarrow> HelloPayload cres" where
  "decode_hello inb =
     (if length inb < 1 + 32 + 32 + 16 + 1 then Fail
      else rbind (rd_u8 inb 0) (\<lambda>version.
           rbind (rd_block inb 1 32) (\<lambda>identity_pubkey.
           rbind (rd_block inb 33 32) (\<lambda>ephemeral_pubkey.
           rbind (rd_block inb 65 16) (\<lambda>client_nonce.
           rbind (get_str8 inb (length inb) 81) (\<lambda>(service_name, off).
           if off + 64 > length inb then Fail
           else rbind (rd_block inb off 64) (\<lambda>signature.
           let off = off + 64;
               h = HelloPayload_init\<lparr>hello_version := version, hello_identity_pubkey := identity_pubkey,
                     hello_ephemeral_pubkey := ephemeral_pubkey, hello_client_nonce := client_nonce,
                     hello_service_name := service_name, hello_signature := signature,
                     hello_max_version := 1, hello_has_v2_extension := False\<rparr>
           in if length inb \<ge> off + 1 + 64
              then rbind (rd_u8 inb off) (\<lambda>max_version.
                   rbind (rd_block inb (off + 1) 64) (\<lambda>signature_v2.
                     Ok (h\<lparr>hello_max_version := max_version, hello_signature_v2 := signature_v2,
                           hello_has_v2_extension := True\<rparr>)))
              else Ok h)))))))"

definition encode_hello_ack :: "HelloAckPayload \<Rightarrow> bytes" where
  "encode_hello_ack h =
     (let out = [ack_version h];
          out = put_bytes out (ack_identity_pubkey h);
          out = put_bytes out (ack_ephemeral_pubkey h);
          out = put_bytes out (ack_server_nonce h);
          out = put_bytes out (ack_client_nonce h);
          out = out @ [ack_status h];
          out = put_bytes out (ack_signature h)
      in if 2 \<le> ack_max_version h
         then put_bytes (out @ [ack_max_version h]) (ack_signature_v2 h) else out)"

definition decode_hello_ack :: "bytes \<Rightarrow> HelloAckPayload cres" where
  "decode_hello_ack inb =
     (if length inb < 1 + 32 + 32 + 16 + 16 + 1 + 64 then Fail
      else rbind (rd_u8 inb 0) (\<lambda>version.
           rbind (rd_block inb 1 32) (\<lambda>identity_pubkey.
           rbind (rd_block inb 33 32) (\<lambda>ephemeral_pubkey.
           rbind (rd_block inb 65 16) (\<lambda>server_nonce.
           rbind (rd_block inb 81 16) (\<lambda>client_nonce.
           rbind (rd_u8 inb 97) (\<lambda>status.
           rbind (rd_block inb 98 64) (\<lambda>signature.
           let off = 162;
               h = HelloAckPayload_init\<lparr>ack_version := version, ack_identity_pubkey := identity_pubkey,
                     ack_ephemeral_pubkey := ephemeral_pubkey, ack_server_nonce := server_nonce,
                     ack_client_nonce := client_nonce, ack_status := status, ack_signature := signature,
                     ack_max_version := 1, ack_has_v2_extension := False\<rparr>
           in if length inb \<ge> off + 1 + 64
              then rbind (rd_u8 inb off) (\<lambda>max_version.
                   rbind (rd_block inb (off + 1) 64) (\<lambda>signature_v2.
                     Ok (h\<lparr>ack_max_version := max_version, ack_signature_v2 := signature_v2,
                           ack_has_v2_extension := True\<rparr>)))
              else Ok h))))))))"

section \<open>Signature transcripts\<close>

definition hello_signed_bytes :: "bytes \<Rightarrow> bytes \<Rightarrow> string \<Rightarrow> bytes" where
  "hello_signed_bytes ephemeral_pubkey client_nonce service_name =
     ephemeral_pubkey @ client_nonce @ bytes_of_string service_name"

definition hello_ack_signed_bytes :: "bytes \<Rightarrow> bytes \<Rightarrow> bytes \<Rightarrow> bytes" where
  "hello_ack_signed_bytes ephemeral_pubkey server_nonce client_nonce =
     ephemeral_pubkey @ server_nonce @ client_nonce"

definition hello_signed_bytes_v2 :: "u8 \<Rightarrow> bytes \<Rightarrow> bytes \<Rightarrow> bytes \<Rightarrow> string \<Rightarrow> bytes" where
  "hello_signed_bytes_v2 max_version client_identity ephemeral_pubkey client_nonce service_name =
     bytes_of_string ''EPX-v2-hello'' @ [max_version] @ client_identity @ ephemeral_pubkey
     @ client_nonce @ bytes_of_string service_name"

definition hello_ack_signed_bytes_v2 ::
  "u8 \<Rightarrow> u8 \<Rightarrow> u8 \<Rightarrow> bytes \<Rightarrow> bytes \<Rightarrow> bytes \<Rightarrow> bytes \<Rightarrow> bytes \<Rightarrow> bytes" where
  "hello_ack_signed_bytes_v2 server_max_version negotiated_version status server_identity
     client_identity ephemeral_pubkey server_nonce client_nonce =
     bytes_of_string ''EPX-v2-ack'' @ [server_max_version] @ [negotiated_version] @ [status]
     @ server_identity @ client_identity @ ephemeral_pubkey @ server_nonce @ client_nonce"

section \<open>Application payloads\<close>

record ErrorPayload =
  err_reason :: u16
  err_message :: string

record RequestPayload =
  req_request_id :: u64
  req_oneway :: bool
  req_endpoint :: string
  req_data :: bytes

record ResponsePayload =
  resp_request_id :: u64
  resp_status :: u8
  resp_data :: bytes

record StreamChunkPayload =
  chunk_request_id :: u64
  chunk_seq :: u32
  chunk_is_last :: bool
  chunk_endpoint :: string
  chunk_data :: bytes

definition encode_error :: "ErrorPayload \<Rightarrow> bytes" where
  "encode_error e = [ucast (drop_bit 8 (err_reason e)), ucast (err_reason e AND 0xFF)]
     @ bytes_of_string (err_message e)"

definition decode_error :: "bytes \<Rightarrow> ErrorPayload cres" where
  "decode_error inb =
     (if length inb < 2 then Fail
      else rbind (rd_u8 inb 0) (\<lambda>b0. rbind (rd_u8 inb 1) (\<lambda>b1.
        rbind (rd_block inb 2 (length inb - 2)) (\<lambda>msg.
          Ok \<lparr>err_reason = push_bit 8 (ucast b0) OR ucast b1, err_message = string_of_bytes msg\<rparr>))))"

definition encode_request :: "RequestPayload \<Rightarrow> bytes" where
  "encode_request r =
     (let out = put_u64 [] (req_request_id r);
          out = out @ [if req_oneway r then 1 else 0];
          out = put_str8 out (req_endpoint r);
          out = put_u32 out (word_of_nat (length (req_data r)))
      in out @ req_data r)"

definition decode_request :: "bytes \<Rightarrow> RequestPayload cres" where
  "decode_request inb =
     (if length inb < 8 + 1 + 1 then Fail
      else rbind (get_u64 inb 0) (\<lambda>request_id.
           rbind (rd_u8 inb 8) (\<lambda>oneway.
           rbind (get_str8 inb (length inb) 9) (\<lambda>(endpoint, off).
           if off + 4 > length inb then Fail
           else rbind (get_u32 inb off) (\<lambda>dlen.
           let off = off + 4 in
           if off + unat dlen > length inb then Fail
           else rbind (rd_block inb off (unat dlen)) (\<lambda>data.
             Ok \<lparr>req_request_id = request_id, req_oneway = (oneway \<noteq> 0),
                 req_endpoint = endpoint, req_data = data\<rparr>))))))"

definition encode_response :: "ResponsePayload \<Rightarrow> bytes" where
  "encode_response r =
     (let out = put_u64 [] (resp_request_id r);
          out = out @ [resp_status r];
          out = put_u32 out (word_of_nat (length (resp_data r)))
      in out @ resp_data r)"

definition decode_response :: "bytes \<Rightarrow> ResponsePayload cres" where
  "decode_response inb =
     (if length inb < 8 + 1 + 4 then Fail
      else rbind (get_u64 inb 0) (\<lambda>request_id.
           rbind (rd_u8 inb 8) (\<lambda>status.
           rbind (get_u32 inb 9) (\<lambda>dlen.
           let off = 13 in
           if off + unat dlen > length inb then Fail
           else rbind (rd_block inb off (unat dlen)) (\<lambda>data.
             Ok \<lparr>resp_request_id = request_id, resp_status = status, resp_data = data\<rparr>)))))"

definition encode_stream_chunk :: "StreamChunkPayload \<Rightarrow> bytes" where
  "encode_stream_chunk c =
     (let out = put_u64 [] (chunk_request_id c);
          out = put_u32 out (chunk_seq c);
          out = out @ [if chunk_is_last c then 1 else 0];
          out = put_str8 out (chunk_endpoint c);
          out = put_u32 out (word_of_nat (length (chunk_data c)))
      in out @ chunk_data c)"

definition decode_stream_chunk :: "bytes \<Rightarrow> StreamChunkPayload cres" where
  "decode_stream_chunk inb =
     (if length inb < 8 + 4 + 1 + 1 then Fail
      else rbind (get_u64 inb 0) (\<lambda>request_id.
           rbind (get_u32 inb 8) (\<lambda>seq.
           rbind (rd_u8 inb 12) (\<lambda>is_last.
           rbind (get_str8 inb (length inb) 13) (\<lambda>(endpoint, off).
           if off + 4 > length inb then Fail
           else rbind (get_u32 inb off) (\<lambda>dlen.
           let off = off + 4 in
           if off + unat dlen > length inb then Fail
           else rbind (rd_block inb off (unat dlen)) (\<lambda>data.
             Ok \<lparr>chunk_request_id = request_id, chunk_seq = seq, chunk_is_last = (is_last \<noteq> 0),
                 chunk_endpoint = endpoint, chunk_data = data\<rparr>)))))))"

lemmas decoder_defs = decode_hello_def decode_hello_ack_def decode_error_def decode_request_def
  decode_response_def decode_stream_chunk_def

section \<open>Memory safety of the decoders\<close>

text \<open>C22: no decoder ever reads outside the buffer it is given, whatever bytes a peer sends: for every
  input each decoder either accepts it or returns \<open>false\<close>.\<close>

theorem decoders_memory_safe:
  "decode_hello b \<noteq> Oob \<and> decode_hello_ack b \<noteq> Oob \<and> decode_error b \<noteq> Oob
   \<and> decode_request b \<noteq> Oob \<and> decode_response b \<noteq> Oob \<and> decode_stream_chunk b \<noteq> Oob"
  by (intro conjI notI)
    (auto simp: decoder_defs Let_def rbind_eq_Oob_iff
      dest: get_u64_Oob get_str8_Ok_bounds split: if_splits)

lemma decode_hello_wf: "decode_hello b = Ok h \<Longrightarrow> hello_wf h"
  by (auto simp: decode_hello_def hello_wf_def HelloPayload_init_def Let_def rbind_eq_Ok_iff
      dest!: rd_block_length split: if_splits)

lemma decode_hello_ack_wf: "decode_hello_ack b = Ok h \<Longrightarrow> ack_wf h"
  by (auto simp: decode_hello_ack_def ack_wf_def HelloAckPayload_init_def Let_def rbind_eq_Ok_iff
      dest!: rd_block_length split: if_splits)

section \<open>Round trips\<close>

lemma request_roundtrip:
  "length (req_endpoint r) < 256 \<Longrightarrow> length (req_data r) < 2 ^ 32 \<Longrightarrow> decode_request (encode_request r) = Ok r"
  by (simp add: decode_request_def encode_request_def get_str8_def wire_simps)

lemma response_roundtrip:
  "length (resp_data p) < 2 ^ 32 \<Longrightarrow> decode_response (encode_response p) = Ok p"
  by (simp add: decode_response_def encode_response_def wire_simps)

lemma stream_chunk_roundtrip:
  "length (chunk_endpoint c) < 256 \<Longrightarrow> length (chunk_data c) < 2 ^ 32 \<Longrightarrow>
   decode_stream_chunk (encode_stream_chunk c) = Ok c"
  by (simp add: decode_stream_chunk_def encode_stream_chunk_def get_str8_def wire_simps)

lemma u16_halves:
  "push_bit 8 (ucast (ucast (drop_bit 8 v) :: u8)) OR ucast (ucast (v AND 0xFF) :: u8) = (v :: u16)"
proof (rule bit_word_eqI)
  fix n assume n: "n < LENGTH(16)"
  have "(0xFF :: u16) = mask 8" by (simp add: mask_eq_exp_minus_1)
  then have e: "v AND 0xFF = take_bit 8 v" by (simp add: take_bit_eq_mask)
  show "bit (push_bit 8 (ucast (ucast (drop_bit 8 v) :: u8)) OR ucast (ucast (v AND 0xFF) :: u8) :: u16) n
      = bit v n"
    unfolding e using n by (cases "n < 8") (auto simp: bit_simps)
qed

lemma error_roundtrip: "decode_error (encode_error e) = Ok e"
  by (simp add: decode_error_def encode_error_def wire_simps u16_halves)

text \<open>C23: decoding an encoded application payload gives the payload back, for requests, responses,
  stream chunks and error frames, when endpoint names fit the one-byte length prefix and data fits
  the four-byte one.\<close>

theorem app_payload_roundtrip:
  assumes "length (req_endpoint r) < 256" "length (req_data r) < 2 ^ 32"
    and "length (resp_data p) < 2 ^ 32"
    and "length (chunk_endpoint c) < 256" "length (chunk_data c) < 2 ^ 32"
  shows "decode_request (encode_request r) = Ok r \<and> decode_response (encode_response p) = Ok p
    \<and> decode_stream_chunk (encode_stream_chunk c) = Ok c \<and> decode_error (encode_error e) = Ok e"
  using assms by (simp add: request_roundtrip response_roundtrip stream_chunk_roundtrip error_roundtrip)

theorem app_payload_roundtrip_witness:
  "decode_request (encode_request \<lparr>req_request_id = 7, req_oneway = True, req_endpoint = ''search'', req_data = [1, 2]\<rparr>)
     = Ok \<lparr>req_request_id = 7, req_oneway = True, req_endpoint = ''search'', req_data = [1, 2]\<rparr>
   \<and> decode_response (encode_response \<lparr>resp_request_id = 7, resp_status = 3, resp_data = [9]\<rparr>)
     = Ok \<lparr>resp_request_id = 7, resp_status = 3, resp_data = [9]\<rparr>
   \<and> decode_stream_chunk (encode_stream_chunk \<lparr>chunk_request_id = 7, chunk_seq = 4, chunk_is_last = False,
        chunk_endpoint = [], chunk_data = [5, 6]\<rparr>)
     = Ok \<lparr>chunk_request_id = 7, chunk_seq = 4, chunk_is_last = False, chunk_endpoint = [], chunk_data = [5, 6]\<rparr>
   \<and> decode_error (encode_error \<lparr>err_reason = 1, err_message = ''rate''\<rparr>) = Ok \<lparr>err_reason = 1, err_message = ''rate''\<rparr>"
  by (rule app_payload_roundtrip) simp_all

lemma hello_roundtrip:
  "hello_wf h \<Longrightarrow> length (hello_service_name h) < 256 \<Longrightarrow>
   decode_hello (encode_hello h) = Ok (if 2 \<le> hello_max_version h
     then h\<lparr>hello_has_v2_extension := True\<rparr>
     else h\<lparr>hello_max_version := 1, hello_signature_v2 := replicate 64 0, hello_has_v2_extension := False\<rparr>)"
  by (simp add: decode_hello_def encode_hello_def get_str8_def put_bytes_def hello_wf_def
      HelloPayload_init_def wire_simps)

lemma hello_ack_roundtrip:
  "ack_wf a \<Longrightarrow>
   decode_hello_ack (encode_hello_ack a) = Ok (if 2 \<le> ack_max_version a
     then a\<lparr>ack_has_v2_extension := True\<rparr>
     else a\<lparr>ack_max_version := 1, ack_signature_v2 := replicate 64 0, ack_has_v2_extension := False\<rparr>)"
  by (simp add: decode_hello_ack_def encode_hello_ack_def put_bytes_def ack_wf_def
      HelloAckPayload_init_def wire_simps)

lemma encode_hello_extension:
  "2 \<le> hello_max_version h \<Longrightarrow> encode_hello h
     = encode_hello (h\<lparr>hello_max_version := 1\<rparr>) @ hello_max_version h # hello_signature_v2 h"
  by (simp add: encode_hello_def put_bytes_def put_str8_def Let_def)

text \<open>The lengths that a decoder accepts fit the prefixes they were read from.\<close>

lemma unat_u32_less: "unat (n :: u32) < 2 ^ 32"
  using unsigned_less [of n] by simp

lemma decode_request_lengths: "decode_request b = Ok r \<Longrightarrow> length (req_endpoint r) < 256 \<and> length (req_data r) < 2 ^ 32"
  using unat_u32_less
  by (auto simp: decode_request_def Let_def rbind_eq_Ok_iff dest!: rd_block_length get_str8_Ok_bounds split: if_splits)

lemma decode_response_lengths: "decode_response b = Ok p \<Longrightarrow> length (resp_data p) < 2 ^ 32"
  using unat_u32_less
  by (auto simp: decode_response_def Let_def rbind_eq_Ok_iff dest!: rd_block_length split: if_splits)

lemma decode_stream_chunk_lengths: "decode_stream_chunk b = Ok c \<Longrightarrow> length (chunk_endpoint c) < 256 \<and> length (chunk_data c) < 2 ^ 32"
  using unat_u32_less
  by (auto simp: decode_stream_chunk_def Let_def rbind_eq_Ok_iff dest!: rd_block_length get_str8_Ok_bounds split: if_splits)

lemma decode_hello_name: "decode_hello b = Ok h \<Longrightarrow> length (hello_service_name h) < 256"
  by (auto simp: decode_hello_def HelloPayload_init_def Let_def rbind_eq_Ok_iff dest!: get_str8_Ok_bounds split: if_splits)

text \<open>C24: what a decoder accepts is well-typed, whatever bytes it was given: keys, nonces and signatures have their exact sizes and all
  lengths fit their prefixes, so that every accepted application payload is one that can be encoded, and decoding that gives it back.\<close>

theorem decoded_payloads_typed:
  "(decode_hello b = Ok h \<longrightarrow> hello_wf h \<and> length (hello_service_name h) < 256)
   \<and> (decode_hello_ack b = Ok a \<longrightarrow> ack_wf a)
   \<and> (decode_request b = Ok r \<longrightarrow> length (req_endpoint r) < 256 \<and> decode_request (encode_request r) = Ok r)
   \<and> (decode_response b = Ok p \<longrightarrow> decode_response (encode_response p) = Ok p)
   \<and> (decode_stream_chunk b = Ok c \<longrightarrow> length (chunk_endpoint c) < 256 \<and> decode_stream_chunk (encode_stream_chunk c) = Ok c)
   \<and> (decode_error b = Ok e \<longrightarrow> decode_error (encode_error e) = Ok e)"
  using decode_hello_wf decode_hello_name decode_hello_ack_wf decode_request_lengths request_roundtrip decode_response_lengths response_roundtrip
    decode_stream_chunk_lengths stream_chunk_roundtrip error_roundtrip by blast

text \<open>A request whose data is followed by bytes that nobody reads.\<close>

theorem decoded_payloads_typed_witness:
  "decode_request ([0, 0, 0, 0, 0, 0, 0, 7, 2, 1, 97, 0, 0, 0, 1, 5] @ [9, 9]) = Ok \<lparr>req_request_id = 7, req_oneway = True, req_endpoint = ''a'', req_data = [5]\<rparr>
   \<and> decode_request (encode_request \<lparr>req_request_id = 7, req_oneway = True, req_endpoint = ''a'', req_data = [5]\<rparr>)
      = Ok \<lparr>req_request_id = 7, req_oneway = True, req_endpoint = ''a'', req_data = [5]\<rparr>"
proof -
  have "decode_request ([0, 0, 0, 0, 0, 0, 0, 7, 2, 1, 97, 0, 0, 0, 1, 5] @ [9, 9]) = Ok \<lparr>req_request_id = 7, req_oneway = True, req_endpoint = ''a'', req_data = [5]\<rparr>"
    by code_simp
  with decoded_payloads_typed show ?thesis by blast
qed

text \<open>the handshake payloads round-trip, and the version extension is trailing: a decoder that sees
  only the part of a v2 HELLO in front of the extension (the bytes of a v1 HELLO) reads the same v1
  fields and takes the sender for a v1 peer.\<close>

theorem hello_payload_compatible:
  assumes "hello_wf h" "length (hello_service_name h) < 256" "2 \<le> hello_max_version h"
  shows "decode_hello (encode_hello h) = Ok (h\<lparr>hello_has_v2_extension := True\<rparr>)
    \<and> decode_hello (take (length (encode_hello h) - 65) (encode_hello h))
      = Ok (h\<lparr>hello_max_version := 1, hello_signature_v2 := replicate 64 0, hello_has_v2_extension := False\<rparr>)"
proof -
  have "take (length (encode_hello h) - 65) (encode_hello h) = encode_hello (h\<lparr>hello_max_version := 1\<rparr>)"
    using assms by (simp add: encode_hello_extension hello_wf_def)
  moreover have "decode_hello (encode_hello (h\<lparr>hello_max_version := 1\<rparr>))
      = Ok (h\<lparr>hello_max_version := 1, hello_signature_v2 := replicate 64 0, hello_has_v2_extension := False\<rparr>)"
    using assms hello_roundtrip [of "h\<lparr>hello_max_version := 1\<rparr>"] by (simp add: hello_wf_def)
  ultimately show ?thesis
    using assms by (simp add: hello_roundtrip)
qed

definition hello_example :: HelloPayload where
  "hello_example = HelloPayload_init\<lparr>hello_service_name := ''com.acme.notes'', hello_max_version := 2,
     hello_signature_v2 := replicate 64 7\<rparr>"

theorem hello_payload_compatible_witness:
  "decode_hello (encode_hello hello_example) = Ok (hello_example\<lparr>hello_has_v2_extension := True\<rparr>)
   \<and> decode_hello (take (length (encode_hello hello_example) - 65) (encode_hello hello_example))
     = Ok (hello_example\<lparr>hello_max_version := 1, hello_signature_v2 := replicate 64 0, hello_has_v2_extension := False\<rparr>)"
  by (rule hello_payload_compatible) (simp_all add: hello_example_def HelloPayload_init_def hello_wf_def)

text \<open>An endpoint name of 256 bytes or more never survives the wire: \<open>put_str8\<close> writes the length
  modulo 256 in front of the whole name, so what the host decodes, if anything, is another request.\<close>

theorem long_endpoint_not_roundtrip:
  assumes "256 \<le> length (req_endpoint r)"
  shows "decode_request (encode_request r) \<noteq> Ok r"
proof
  assume "decode_request (encode_request r) = Ok r"
  then obtain off where "get_str8 (encode_request r) (length (encode_request r)) 9 = Ok (req_endpoint r, off)"
    by (auto simp: decode_request_def rbind_eq_Ok_iff Let_def split: if_splits)
  then show False using assms by (auto dest: get_str8_Ok_bounds)
qed

theorem long_endpoint_not_roundtrip_witness:
  "decode_request (encode_request \<lparr>req_request_id = 1, req_oneway = False,
     req_endpoint = replicate 256 CHR ''a'', req_data = []\<rparr>)
   \<noteq> Ok \<lparr>req_request_id = 1, req_oneway = False, req_endpoint = replicate 256 CHR ''a'', req_data = []\<rparr>"
  by (rule long_endpoint_not_roundtrip) simp

section \<open>What the signature transcripts bind\<close>

lemma hello_signed_bytes_inj:
  "length e = 32 \<Longrightarrow> length e' = 32 \<Longrightarrow> length n = 16 \<Longrightarrow> length n' = 16 \<Longrightarrow>
   hello_signed_bytes e n s = hello_signed_bytes e' n' s' \<longleftrightarrow> e = e' \<and> n = n' \<and> s = s'"
  by (simp add: hello_signed_bytes_def)

lemma hello_signed_bytes_v2_inj:
  "length i = 32 \<Longrightarrow> length i' = 32 \<Longrightarrow> length e = 32 \<Longrightarrow> length e' = 32 \<Longrightarrow> length n = 16 \<Longrightarrow> length n' = 16 \<Longrightarrow>
   hello_signed_bytes_v2 m i e n s = hello_signed_bytes_v2 m' i' e' n' s'
     \<longleftrightarrow> m = m' \<and> i = i' \<and> e = e' \<and> n = n' \<and> s = s'"
  by (auto simp: hello_signed_bytes_v2_def)

lemma hello_ack_signed_bytes_v2_inj:
  "length i = 32 \<Longrightarrow> length i' = 32 \<Longrightarrow> length c = 32 \<Longrightarrow> length c' = 32 \<Longrightarrow> length e = 32 \<Longrightarrow> length e' = 32 \<Longrightarrow>
   length n = 16 \<Longrightarrow> length n' = 16 \<Longrightarrow>
   hello_ack_signed_bytes_v2 m v st i c e n k = hello_ack_signed_bytes_v2 m' v' st' i' c' e' n' k'
     \<longleftrightarrow> m = m' \<and> v = v' \<and> st = st' \<and> i = i' \<and> c = c' \<and> e = e' \<and> n = n' \<and> k = k'"
  by (auto simp: hello_ack_signed_bytes_v2_def)

lemma v2_transcripts_disjoint:
  "hello_signed_bytes_v2 m i e n s \<noteq> hello_ack_signed_bytes_v2 m' v st i' c e' n' k"
  by (simp add: hello_signed_bytes_v2_def hello_ack_signed_bytes_v2_def bytes_of_string_def u8_of_char_def)

text \<open>The v2 transcripts determine everything they are built from (version offers, negotiated
  version, status, both identities, ephemeral key, nonces, service name), and a HELLO transcript is
  never an ACK transcript: a signature on one commits to exactly one meaning.\<close>

theorem v2_transcripts_bind:
  assumes "length i = 32" "length i' = 32" "length c = 32" "length c' = 32" "length e = 32" "length e' = 32"
    and "length n = 16" "length n' = 16"
  shows "(hello_signed_bytes_v2 m i e n s = hello_signed_bytes_v2 m' i' e' n' s'
      \<longleftrightarrow> m = m' \<and> i = i' \<and> e = e' \<and> n = n' \<and> s = s')
    \<and> (hello_ack_signed_bytes_v2 m v st i c e n k = hello_ack_signed_bytes_v2 m' v' st' i' c' e' n' k'
      \<longleftrightarrow> m = m' \<and> v = v' \<and> st = st' \<and> i = i' \<and> c = c' \<and> e = e' \<and> n = n' \<and> k = k')
    \<and> hello_signed_bytes_v2 m i e n s \<noteq> hello_ack_signed_bytes_v2 m' v' st' i' c' e' n' k'"
  using assms hello_signed_bytes_v2_inj hello_ack_signed_bytes_v2_inj v2_transcripts_disjoint by simp

theorem v2_transcripts_bind_witness:
  "\<not> (hello_ack_signed_bytes_v2 2 2 0 (replicate 32 1) (replicate 32 2) (replicate 32 3) (replicate 16 4) (replicate 16 5)
      = hello_ack_signed_bytes_v2 2 1 0 (replicate 32 1) (replicate 32 2) (replicate 32 3) (replicate 16 4) (replicate 16 5))"
  using v2_transcripts_bind [of "replicate 32 1" "replicate 32 1" "replicate 32 2" "replicate 32 2"
      "replicate 32 3" "replicate 32 3" "replicate 16 4" "replicate 16 4"] by simp

section \<open>Version negotiation\<close>

lemma negotiate_version_min:
  "negotiate_version a b = (if a = 0 \<or> b = 0 then 0 else min a b)"
  by (auto simp: negotiate_version_def kProtocolVersionMin_def Let_def min_def u8_one_le_iff word_gt_0)

lemma negotiate_version_commute: "negotiate_version a b = negotiate_version b a"
  by (simp add: negotiate_version_min min.commute)

end
