(* ===== verification/Epx_Transport.thy ===== *)
theory Epx_Transport
  imports Epx_Prelude "HOL-Library.Sublist" "HOL-Library.Signed_Division"
begin

text \<open>
  The byte-stream transport: \<^verbatim>\<open>src/transport.hpp\<close> (the abstract class \<open>Transport\<close>) and its
  implementation \<^verbatim>\<open>src/transport_posix.cpp\<close> (Unix domain sockets); the one by named pipes is in \<open>Epx_Win\<close>. The operating system is not part of the repository: what each system call returns is
  a parameter, a script of results that the model consumes call by call. A script entry says how many
  bytes the kernel moves (at most the requested number) or that the call fails; an exhausted script
  stands for a kernel that moves as much as it can. Theorems hold for every script.
\<close>

section \<open>The contract of a transport\<close>

text \<open>
  What \<open>Transport::send_all\<close> and \<open>recv_all\<close> promise their callers: a send either hands over all the
  bytes or a strict prefix of them, a receive returns exactly the next bytes of the stream or fails
  having consumed fewer than asked, and neither direction disturbs the other.
\<close>

text \<open>Sending several blocks one after the other, stopping at the first failure: the shape of
  \<open>framing::write_frame\<close>.\<close>

fun send_seq :: "('t \<Rightarrow> bytes \<Rightarrow> bool \<times> 't) \<Rightarrow> 't \<Rightarrow> bytes list \<Rightarrow> bool \<times> 't" where
  "send_seq snd_all t [] = (True, t)"
| "send_seq snd_all t (b # bs) =
     (case snd_all t b of (ok, t') \<Rightarrow> if ok then send_seq snd_all t' bs else (False, t'))"

locale byte_stream =
  fixes send_all :: "'t \<Rightarrow> bytes \<Rightarrow> bool \<times> 't"
    and recv_all :: "'t \<Rightarrow> nat \<Rightarrow> bool \<times> bytes \<times> 't"
    and sent :: "'t \<Rightarrow> bytes"
    and incoming :: "'t \<Rightarrow> bytes"
  assumes send_true: "send_all t d = (True, t') \<Longrightarrow> sent t' = sent t @ d"
    and send_false: "send_all t d = (False, t') \<Longrightarrow> \<exists>p. strict_prefix p d \<and> sent t' = sent t @ p"
    and send_incoming: "send_all t d = (ok, t') \<Longrightarrow> incoming t' = incoming t"
    and recv_true: "recv_all t n = (True, b, t') \<Longrightarrow> length b = n \<and> incoming t = b @ incoming t'"
    and recv_false: "recv_all t n = (False, b, t') \<Longrightarrow> \<exists>p. length p < n \<and> incoming t = p @ incoming t'"
    and recv_sent: "recv_all t n = (ok, b, t') \<Longrightarrow> sent t' = sent t"
begin

lemma send_seq_true: "send_seq send_all t bs = (True, t') \<Longrightarrow> sent t' = sent t @ concat bs"
proof (induction bs arbitrary: t)
  case (Cons b bs)
  then obtain t1 where "send_all t b = (True, t1)" "send_seq send_all t1 bs = (True, t')"
    by (auto split: prod.splits if_splits)
  with Cons.IH send_true show ?case by fastforce
qed simp

lemma send_seq_false:
  "send_seq send_all t bs = (False, t') \<Longrightarrow> \<exists>p. strict_prefix p (concat bs) \<and> sent t' = sent t @ p"
proof (induction bs arbitrary: t)
  case (Cons b bs)
  obtain ok t1 where b: "send_all t b = (ok, t1)" by fastforce
  show ?case
  proof (cases ok)
    case True
    with Cons b obtain p where "strict_prefix p (concat bs)" "sent t' = sent t1 @ p" by auto
    with b True show ?thesis
      by (intro exI [of _ "b @ p"]) (auto simp: send_true strict_prefix_def)
  next
    case False
    with Cons b obtain p where "strict_prefix p b" "sent t' = sent t @ p"
      by (auto dest: send_false)
    then show ?thesis
      by (intro exI [of _ p]) (auto simp: strict_prefix_def prefix_def)
  qed
qed simp

lemma send_seq_incoming: "send_seq send_all t bs = (ok, t') \<Longrightarrow> incoming t' = incoming t"
  by (induction bs arbitrary: t)
    (auto dest: send_incoming split: prod.splits if_splits)

end

section \<open>Transfer loops\<close>

text \<open>
  Both implementations move a block by repeated calls that each move a part of it, and give up when a
  call moves nothing. Whatever the calls do, such loops keep the contract above. The two bodies are the
  equations below; \<open>write1\<close> and \<open>read1\<close> stand for one call and the number of bytes it moved.
\<close>

locale transfer_loops =
  fixes write1 :: "'t \<Rightarrow> bytes \<Rightarrow> int \<times> 't"
    and read1 :: "'t \<Rightarrow> nat \<Rightarrow> int \<times> bytes \<times> 't"
    and send_loop :: "'t \<Rightarrow> bytes \<Rightarrow> nat \<Rightarrow> bool \<times> 't"
    and recv_loop :: "'t \<Rightarrow> nat \<Rightarrow> nat \<Rightarrow> bytes \<Rightarrow> bool \<times> bytes \<times> 't"
    and sent :: "'t \<Rightarrow> bytes"
    and incoming :: "'t \<Rightarrow> bytes"
  assumes write1: "write1 t d = (n, t') \<Longrightarrow> n \<le> int (length d) \<and> incoming t' = incoming t \<and> sent t' = sent t @ take (nat n) d"
    and read1: "read1 t len = (n, b, t') \<Longrightarrow> n \<le> int len \<and> length b = nat n \<and> incoming t = b @ incoming t' \<and> sent t' = sent t"
    and send_body: "send_loop t data off = (if off < length data
      then let (n, t') = write1 t (drop off data) in if n \<le> 0 then (False, t') else send_loop t' data (off + nat n)
      else (True, t))"
    and recv_body: "recv_loop t len got data = (if got < len
      then let (n, b, t') = read1 t (len - got) in if n \<le> 0 then (False, data, t') else recv_loop t' len (got + nat n) (data @ b)
      else (True, data, t))"
begin

lemma send_loop_spec:
  assumes "send_loop t data off = (ok, t')" "off \<le> length data"
  shows "incoming t' = incoming t \<and> (\<exists>p. prefix p (drop off data) \<and> sent t' = sent t @ p \<and> (ok \<longleftrightarrow> p = drop off data))"
  using assms
proof (induction "length data - off" arbitrary: t off rule: less_induct)
  case less
  show ?case
  proof (cases "off < length data")
    case True
    obtain n t1 where s: "write1 t (drop off data) = (n, t1)" by fastforce
    note spec = write1 [OF s]
    show ?thesis
    proof (cases "n \<le> 0")
      case True
      with s spec less.prems \<open>off < length data\<close> show ?thesis
        by (intro conjI exI [of _ "[]"]) (auto simp: send_body [of t])
    next
      case False
      with less.prems True s have rec: "send_loop t1 data (off + nat n) = (ok, t')" by (simp add: send_body [of t])
      have le: "off + nat n \<le> length data" using spec False True by auto
      have "length data - (off + nat n) < length data - off" using False True by simp
      from less.hyps [OF this rec le] obtain p where
        p: "incoming t' = incoming t1" "prefix p (drop (off + nat n) data)" "sent t' = sent t1 @ p"
          "ok = (p = drop (off + nat n) data)" by blast
      define x where "x = take (nat n) (drop off data)"
      define y where "y = drop (off + nat n) data"
      have xy: "drop off data = x @ y" unfolding x_def y_def by (metis add.commute append_take_drop_id drop_drop)
      have out: "sent t1 = sent t @ x" "incoming t1 = incoming t" using spec by (auto simp: x_def)
      from p(1-4) show ?thesis
        unfolding xy y_def [symmetric] by (intro conjI exI [of _ "x @ p"]) (auto simp: out)
    qed
  qed (use less.prems in \<open>auto simp: send_body [of t]\<close>)
qed

lemma recv_loop_spec:
  assumes "recv_loop t len got data = (ok, b, t')" "got \<le> len"
  shows "sent t' = sent t \<and> (\<exists>p. incoming t = p @ incoming t' \<and> (ok \<longleftrightarrow> length p = len - got)
    \<and> length p \<le> len - got \<and> (ok \<longrightarrow> b = data @ p))"
  using assms
proof (induction "len - got" arbitrary: t got data rule: less_induct)
  case less
  show ?case
  proof (cases "got < len")
    case True
    obtain n c t1 where r: "read1 t (len - got) = (n, c, t1)" by (metis prod_cases3)
    note spec = read1 [OF r]
    show ?thesis
    proof (cases "n \<le> 0")
      case True
      with r spec less.prems \<open>got < len\<close> show ?thesis
        by (intro conjI exI [of _ "[]"]) (auto simp: recv_body [of t])
    next
      case False
      with less.prems True r have rec: "recv_loop t1 len (got + nat n) (data @ c) = (ok, b, t')" by (simp add: recv_body [of t])
      have le: "got + nat n \<le> len" using spec False True by auto
      have "len - (got + nat n) < len - got" using False True by simp
      from less.hyps [OF this rec le] obtain p where
        p: "sent t' = sent t1" "incoming t1 = p @ incoming t'" "ok = (length p = len - (got + nat n))"
          "length p \<le> len - (got + nat n)" "ok \<longrightarrow> b = data @ c @ p" by auto
      with spec le show ?thesis by (intro conjI exI [of _ "c @ p"]) auto
    qed
  qed (use less.prems in \<open>auto simp: recv_body [of t]\<close>)
qed

end

sublocale transfer_loops \<subseteq> byte_stream "\<lambda>t d. send_loop t d 0" "\<lambda>t n. recv_loop t n 0 []" sent incoming
proof unfold_locales
  fix t t' :: 't and d b :: bytes and n :: nat and ok :: bool
  show "send_loop t d 0 = (True, t') \<Longrightarrow> sent t' = sent t @ d"
    using send_loop_spec [of t d 0 True t'] by auto
  show "send_loop t d 0 = (False, t') \<Longrightarrow> \<exists>p. strict_prefix p d \<and> sent t' = sent t @ p"
    using send_loop_spec [of t d 0 False t'] by (auto simp: strict_prefix_def)
  show "send_loop t d 0 = (ok, t') \<Longrightarrow> incoming t' = incoming t"
    using send_loop_spec [of t d 0 ok t'] by auto
  show "recv_loop t n 0 [] = (True, b, t') \<Longrightarrow> length b = n \<and> incoming t = b @ incoming t'"
    using recv_loop_spec [of t n 0 "[]" True b t'] by auto
  show "recv_loop t n 0 [] = (False, b, t') \<Longrightarrow> \<exists>p. length p < n \<and> incoming t = p @ incoming t'"
    using recv_loop_spec [of t n 0 "[]" False b t'] by auto
  show "recv_loop t n 0 [] = (ok, b, t') \<Longrightarrow> sent t' = sent t"
    using recv_loop_spec [of t n 0 "[]" ok b t'] by auto
qed

section \<open>Unix domain sockets\<close>

record PosixTransport =
  pt_fd :: int
  pt_peer_uid :: int
  k_in :: bytes
  k_out :: bytes
  send_script :: "int list"
  recv_script :: "int list"
  rcvtimeo :: "int \<times> int"
  sndtimeo :: "int \<times> int"

definition posix_transport :: "int \<Rightarrow> int \<Rightarrow> PosixTransport" where
  "posix_transport fd uid = \<lparr>pt_fd = fd, pt_peer_uid = uid, k_in = [], k_out = [], send_script = [],
     recv_script = [], rcvtimeo = (0, 0), sndtimeo = (0, 0)\<rparr>"

text \<open>The two system calls, as their documentation describes them: a closed descriptor is an error,
  \<open>send\<close> accepts at most what it is given, \<open>recv\<close> returns at most what was asked and what is there, and
  0 at the end of the stream.\<close>

definition sys_send :: "PosixTransport \<Rightarrow> bytes \<Rightarrow> int \<times> PosixTransport" where
  "sys_send t d =
     (if pt_fd t < 0 then (-1, t)
      else let n = (case send_script t of [] \<Rightarrow> int (length d) | r # _ \<Rightarrow> min r (int (length d)))
           in (n, t\<lparr>send_script := tl (send_script t), k_out := k_out t @ take (nat n) d\<rparr>))"

definition sys_recv :: "PosixTransport \<Rightarrow> nat \<Rightarrow> int \<times> bytes \<times> PosixTransport" where
  "sys_recv t len =
     (if pt_fd t < 0 then (-1, [], t)
      else let most = int (min len (length (k_in t)));
               n = (case recv_script t of [] \<Rightarrow> most | r # _ \<Rightarrow> min r most)
           in (n, take (nat n) (k_in t),
               t\<lparr>recv_script := tl (recv_script t), k_in := drop (nat n) (k_in t)\<rparr>))"

function send_loop :: "PosixTransport \<Rightarrow> bytes \<Rightarrow> nat \<Rightarrow> bool \<times> PosixTransport" where
  "send_loop t data sent =
     (if sent < length data
      then let (n, t') = sys_send t (drop sent data)
           in if n \<le> 0 then (False, t') else send_loop t' data (sent + nat n)
      else (True, t))"
  by pat_completeness auto
termination
  by (relation "measure (\<lambda>(t, data, sent). length data - sent)") auto

definition send_all :: "PosixTransport \<Rightarrow> bytes \<Rightarrow> bool \<times> PosixTransport" where
  "send_all t data = send_loop t data 0"

function recv_loop :: "PosixTransport \<Rightarrow> nat \<Rightarrow> nat \<Rightarrow> bytes \<Rightarrow> bool \<times> bytes \<times> PosixTransport" where
  "recv_loop t len got data =
     (if got < len
      then let (n, b, t') = sys_recv t (len - got)
           in if n \<le> 0 then (False, data, t') else recv_loop t' len (got + nat n) (data @ b)
      else (True, data, t))"
  by pat_completeness auto
termination
  by (relation "measure (\<lambda>(t, len, got, data). len - got)") auto

definition recv_all :: "PosixTransport \<Rightarrow> nat \<Rightarrow> bool \<times> bytes \<times> PosixTransport" where
  "recv_all t len = recv_loop t len 0 []"

declare send_loop.simps [simp del] recv_loop.simps [simp del]

text \<open>\<open>setsockopt\<close>'s result is a parameter. C++ integer division truncates towards zero.\<close>

definition set_recv_timeout :: "PosixTransport \<Rightarrow> int \<Rightarrow> int \<Rightarrow> bool \<times> PosixTransport" where
  "set_recv_timeout t ms setsockopt_rc =
     (if pt_fd t < 0 then (False, t)
      else if setsockopt_rc = 0 then (True, t\<lparr>rcvtimeo := (ms sdiv 1000, (ms smod 1000) * 1000)\<rparr>)
      else (False, t))"

definition set_send_timeout :: "PosixTransport \<Rightarrow> int \<Rightarrow> int \<Rightarrow> bool \<times> PosixTransport" where
  "set_send_timeout t ms setsockopt_rc =
     (if pt_fd t < 0 then (False, t)
      else if setsockopt_rc = 0 then (True, t\<lparr>sndtimeo := (ms sdiv 1000, (ms smod 1000) * 1000)\<rparr>)
      else (False, t))"

definition transport_close :: "PosixTransport \<Rightarrow> PosixTransport" where
  "transport_close t = (if 0 \<le> pt_fd t then t\<lparr>pt_fd := -1\<rparr> else t)"

definition peer_uid :: "PosixTransport \<Rightarrow> int" where
  "peer_uid t = pt_peer_uid t"

lemma sys_send_spec:
  "sys_send t d = (n, t') \<Longrightarrow> n \<le> int (length d) \<and> k_in t' = k_in t \<and> k_out t' = k_out t @ take (nat n) d"
  by (auto simp: sys_send_def Let_def split: if_splits list.splits)

lemma sys_recv_spec:
  "sys_recv t len = (n, b, t') \<Longrightarrow>
   n \<le> int len \<and> length b = nat n \<and> k_in t = b @ k_in t' \<and> k_out t' = k_out t"
  by (auto simp: sys_recv_def Let_def split: if_splits list.splits)

interpretation posix_loops: transfer_loops sys_send sys_recv send_loop recv_loop k_out k_in
  by unfold_locales (auto dest: sys_send_spec sys_recv_spec simp: send_loop.simps recv_loop.simps)

interpretation posix: byte_stream send_all recv_all k_out k_in
  using posix_loops.byte_stream_axioms unfolding send_all_def [abs_def] recv_all_def [abs_def] .

section \<open>Healthy sockets\<close>

text \<open>An open socket whose kernel reports no error and no short transfer.\<close>

definition healthy :: "PosixTransport \<Rightarrow> bool" where
  "healthy t \<longleftrightarrow> 0 \<le> pt_fd t \<and> send_script t = [] \<and> recv_script t = []"

lemma send_all_healthy: "healthy t \<Longrightarrow> send_all t d = (True, t\<lparr>k_out := k_out t @ d\<rparr>)"
  unfolding send_all_def
  by (subst send_loop.simps, subst send_loop.simps) (auto simp: healthy_def sys_send_def)

lemma recv_all_healthy:
  assumes "healthy t" and "k_in t = b @ rest" and "length b = n"
  shows "recv_all t n = (True, b, t\<lparr>k_in := rest\<rparr>)"
  using assms unfolding recv_all_def
  by (subst recv_loop.simps, subst recv_loop.simps) (auto simp: healthy_def sys_recv_def)

lemma healthy_update [simp]:
  "healthy (t\<lparr>k_out := x\<rparr>) = healthy t" "healthy (t\<lparr>k_in := x\<rparr>) = healthy t"
  by (simp_all add: healthy_def)

text \<open>However the kernel splits or fails the underlying calls, \<open>send_all\<close> reports success exactly
  when every byte was handed over in order, and after a failure what was handed over is a strict
  prefix; \<open>recv_all\<close> succeeds exactly when it returns the next bytes of the stream, all of them.\<close>

theorem transport_all_or_prefix:
  "(\<exists>p. prefix p d \<and> k_out (snd (send_all t d)) = k_out t @ p \<and> (fst (send_all t d) \<longleftrightarrow> p = d))
   \<and> (\<exists>p. k_in t = p @ k_in (snd (snd (recv_all t n))) \<and> length p \<le> n
      \<and> (fst (recv_all t n) \<longleftrightarrow> length p = n \<and> p = fst (snd (recv_all t n))))"
proof
  obtain ok t' where s: "send_all t d = (ok, t')" by fastforce
  then show "\<exists>p. prefix p d \<and> k_out (snd (send_all t d)) = k_out t @ p \<and> (fst (send_all t d) \<longleftrightarrow> p = d)"
    using posix.send_true [of t d t'] posix.send_false [of t d t'] by (cases ok) (auto simp: strict_prefix_def)
  obtain ok b t'' where r: "recv_all t n = (ok, b, t'')" by (metis prod_cases3)
  then show "\<exists>p. k_in t = p @ k_in (snd (snd (recv_all t n))) \<and> length p \<le> n
      \<and> (fst (recv_all t n) \<longleftrightarrow> length p = n \<and> p = fst (snd (recv_all t n)))"
    using posix.recv_true [of t n b t''] posix.recv_false [of t n b t''] by (cases ok) (auto dest: less_imp_le)
qed

end
