(* ===== verification/Epx_Framing.thy ===== *)
theory Epx_Framing
  imports Epx_Wire Epx_Transport
begin

text \<open>
  Raw frame I/O over a transport: \<^verbatim>\<open>src/framing.hpp\<close> and \<^verbatim>\<open>src/framing.cpp\<close>. \<open>read_frame\<close> reports
  \<open>std::nullopt\<close> as \<open>Fail\<close>; its reads from the receive buffer are checked, so \<open>Oob\<close> would be a read
  outside it.
\<close>

record RawFrame =
  rf_type :: FrameType
  rf_counter :: u64
  rf_epoch :: u8
  rf_body :: bytes

definition write_frame :: "PosixTransport \<Rightarrow> RawFrame \<Rightarrow> bool \<Rightarrow> bool \<times> PosixTransport" where
  "write_frame t f with_epoch =
     (let header = [u8_of_frame_type (rf_type f)];
          header = put_u64 header (rf_counter f);
          header = (if with_epoch then header @ [rf_epoch f] else header);
          total_len = (word_of_nat (length header + length (rf_body f)) :: u32);
          len_prefix = put_u32 [] total_len
      in send_seq send_all t ([len_prefix, header] @ (if rf_body f \<noteq> [] then [rf_body f] else [])))"

definition read_frame :: "PosixTransport \<Rightarrow> bool \<Rightarrow> RawFrame cres \<times> PosixTransport" where
  "read_frame t with_epoch =
     (case recv_all t 4 of (ok, len_buf, t1) \<Rightarrow>
      if \<not> ok then (Fail, t1)
      else case get_u32 len_buf 0 of
        Fail \<Rightarrow> (Fail, t1)
      | Oob \<Rightarrow> (Oob, t1)
      | Ok total_len \<Rightarrow>
          let header_len = (if with_epoch then 10 else 9)
          in if total_len < word_of_nat header_len \<or> total_len > kMaxFrameBytes then (Fail, t1)
             else case recv_all t1 (unat total_len) of (ok, rest, t2) \<Rightarrow>
               if \<not> ok then (Fail, t2)
               else (rbind (rd_u8 rest 0) (\<lambda>ty. rbind (get_u64 rest 1) (\<lambda>counter.
                     rbind (if with_epoch then rd_u8 rest 9 else Ok 0) (\<lambda>epoch.
                     rbind (rd_block rest header_len (length rest - header_len)) (\<lambda>body.
                       Ok \<lparr>rf_type = frame_type_of_u8 ty, rf_counter = counter, rf_epoch = epoch,
                           rf_body = body\<rparr>)))), t2))"

text \<open>The bytes of one frame on the stream, and the frames whose length the receiver accepts.\<close>

definition frame_bytes :: "bool \<Rightarrow> RawFrame \<Rightarrow> bytes" where
  "frame_bytes with_epoch f =
     put_u32 [] (word_of_nat ((if with_epoch then 10 else 9) + length (rf_body f)))
     @ u8_of_frame_type (rf_type f) # put_u64 [] (rf_counter f)
     @ (if with_epoch then [rf_epoch f] else []) @ rf_body f"

definition frame_wf :: "bool \<Rightarrow> RawFrame \<Rightarrow> bool" where
  "frame_wf with_epoch f \<longleftrightarrow> frame_type_wf (rf_type f) \<and> (with_epoch \<or> rf_epoch f = 0)
     \<and> (if with_epoch then 10 else 9) + length (rf_body f) \<le> 16 * 1024 * 1024"

lemma unat_kMaxFrameBytes: "unat kMaxFrameBytes = 16777216"
  by (simp add: kMaxFrameBytes_def)

lemma total_len_checks:
  assumes "h + n < 2 ^ 32" "h = 9 \<or> h = 10"
  shows "(word_of_nat (h + n) :: u32) < word_of_nat h \<longleftrightarrow> False"
    and "(word_of_nat (h + n) :: u32) > kMaxFrameBytes \<longleftrightarrow> h + n > 16777216"
    and "unat (word_of_nat (h + n) :: u32) = h + n"
proof -
  have u: "unat (word_of_nat (h + n) :: u32) = h + n"
    by (rule unat_word_of_nat_small) (use assms(1) in simp)
  have v: "unat (word_of_nat h :: u32) = h"
    by (rule unat_word_of_nat_small) (use assms(2) in auto)
  show "(word_of_nat (h + n) :: u32) < word_of_nat h \<longleftrightarrow> False"
    by (simp only: word_less_nat_alt u v) simp
  show "(word_of_nat (h + n) :: u32) > kMaxFrameBytes \<longleftrightarrow> h + n > 16777216"
    by (simp only: word_less_nat_alt u unat_kMaxFrameBytes)
  show "unat (word_of_nat (h + n) :: u32) = h + n" by (rule u)
qed

section \<open>Writing\<close>

lemma write_frame_blocks:
  "write_frame t f we = send_seq send_all t
     ([put_u32 [] (word_of_nat ((if we then 10 else 9) + length (rf_body f))),
       u8_of_frame_type (rf_type f) # put_u64 [] (rf_counter f) @ (if we then [rf_epoch f] else [])]
      @ (if rf_body f \<noteq> [] then [rf_body f] else []))"
  unfolding write_frame_def Let_def put_u64_Cons by (cases we) simp_all

lemma write_frame_true: "write_frame t f we = (True, t') \<Longrightarrow> k_out t' = k_out t @ frame_bytes we f"
  unfolding write_frame_blocks by (drule posix.send_seq_true) (simp add: frame_bytes_def)

lemma write_frame_false:
  "write_frame t f we = (False, t') \<Longrightarrow> \<exists>p. strict_prefix p (frame_bytes we f) \<and> k_out t' = k_out t @ p"
  unfolding write_frame_blocks by (drule posix.send_seq_false) (auto simp: frame_bytes_def split: if_splits)

lemma write_frame_incoming: "write_frame t f we = (ok, t') \<Longrightarrow> k_in t' = k_in t"
  unfolding write_frame_blocks by (rule posix.send_seq_incoming)

lemma write_frame_healthy:
  "healthy t \<Longrightarrow> write_frame t f we = (True, t\<lparr>k_out := k_out t @ frame_bytes we f\<rparr>)"
  by (simp add: write_frame_blocks send_all_healthy frame_bytes_def)

section \<open>Reading\<close>

lemma read_frame_healthy:
  assumes "healthy t" and "k_in t = frame_bytes we f @ rest" and "frame_wf we f"
  shows "read_frame t we = (Ok f, t\<lparr>k_in := rest\<rparr>)"
proof -
  define h where "h = (if we then 10 else 9 :: nat)"
  define pl where "pl = u8_of_frame_type (rf_type f) # put_u64 [] (rf_counter f)
    @ (if we then [rf_epoch f] else []) @ rf_body f"
  define n where "n = (word_of_nat (h + length (rf_body f)) :: u32)"
  have hsmall: "h + length (rf_body f) < 2 ^ 32" "h = 9 \<or> h = 10"
    using assms(3) by (auto simp: frame_wf_def h_def)
  have pl_len: "length pl = unat n"
    unfolding n_def total_len_checks(3) [OF hsmall] by (simp add: pl_def h_def)
  have kin: "k_in t = put_u32 [] n @ pl @ rest"
    using assms(2) by (simp add: frame_bytes_def pl_def n_def h_def)
  have r1: "recv_all t 4 = (True, put_u32 [] n, t\<lparr>k_in := pl @ rest\<rparr>)"
    using recv_all_healthy [OF assms(1) kin] by simp
  have r2: "recv_all (t\<lparr>k_in := pl @ rest\<rparr>) (unat n) = (True, pl, t\<lparr>k_in := rest\<rparr>)"
    using recv_all_healthy [of "t\<lparr>k_in := pl @ rest\<rparr>" pl rest "unat n"] assms(1) pl_len by simp
  have g: "get_u32 (put_u32 [] n) 0 = Ok n" using get_u32_head [of n "[]"] by simp
  have c: "\<not> n < word_of_nat h" "\<not> n > kMaxFrameBytes"
    unfolding n_def total_len_checks(1,2) [OF hsmall] using assms(3) by (auto simp: frame_wf_def h_def)
  have b1: "rd_u8 pl 0 = Ok (u8_of_frame_type (rf_type f))" by (simp add: pl_def wire_simps)
  have b2: "get_u64 pl (Suc 0) = Ok (rf_counter f)"
    by (rule get_u64_at) (auto simp: pl_def)
  have b3: "(if we then rd_u8 pl 9 else Ok 0) = Ok (rf_epoch f)"
    using assms(3) by (auto simp: pl_def frame_wf_def wire_simps)
  have b4: "rd_block pl h (length pl - h) = Ok (rf_body f)"
    by (simp add: pl_def h_def wire_simps)
  show ?thesis
    using assms(3) c
    by (simp add: read_frame_def r1 r2 g b1 b2 b3 b4 h_def [symmetric] Let_def frame_wf_def)
qed

text \<open>Whatever the kernel does, a frame that is accepted is the frame the stream starts with, and the
  bytes it occupies are exactly the ones consumed.\<close>

lemma read_frame_sound:
  assumes "read_frame t we = (Ok f, t')"
  shows "k_in t = frame_bytes we f @ k_in t' \<and> frame_wf we f \<and> k_out t' = k_out t"
proof -
  define h where "h = (if we then 10 else 9 :: nat)"
  obtain len_buf t1 total_len rest where
    r1: "recv_all t 4 = (True, len_buf, t1)" and g: "get_u32 len_buf 0 = Ok total_len"
    and c: "\<not> total_len < word_of_nat h" "\<not> total_len > kMaxFrameBytes"
    and r2: "recv_all t1 (unat total_len) = (True, rest, t')"
    and f: "rd_u8 rest 0 = Ok (u8_of_frame_type (rf_type f))" "get_u64 rest 1 = Ok (rf_counter f)"
      "(if we then rd_u8 rest 9 else Ok 0) = Ok (rf_epoch f)"
      "rd_block rest h (length rest - h) = Ok (rf_body f)"
    and ty: "frame_type_wf (rf_type f)"
    using assms
    by (auto simp: read_frame_def Let_def rbind_eq_Ok_iff h_def frame_type_wf_of_u8
        split: prod.splits if_splits cres.splits)
  from posix.recv_true [OF r1] have l1: "length len_buf = 4" "k_in t = len_buf @ k_in t1" by auto
  from posix.recv_true [OF r2] have l2: "length rest = unat total_len" "k_in t1 = rest @ k_in t'" by auto
  have hv: "unat (word_of_nat h :: u32) = h" by (rule unat_word_of_nat_small) (simp add: h_def)
  have hl: "h \<le> length rest" "length rest \<le> 16777216"
    using c by (simp_all add: word_less_nat_alt hv unat_kMaxFrameBytes l2 not_less)
  have p1: "put_u32 [] total_len = len_buf" using g l1 by (intro put_u32_get_u32) auto
  have p2: "put_u64 [] (rf_counter f) = take 8 (drop 1 rest)"
    using f(2) hl by (intro put_u64_get_u64) (auto simp: h_def split: if_splits)
  have body: "rf_body f = drop h rest" using f(4) hl by (simp add: rd_block_def)
  have hd: "rest \<noteq> []" "hd rest = u8_of_frame_type (rf_type f)"
    using f(1) hl by (auto simp: rd_u8_def h_def hd_conv_nth split: if_splits)
  have ep: "we \<Longrightarrow> drop 9 rest = rf_epoch f # drop 10 rest" "\<not> we \<Longrightarrow> rf_epoch f = 0"
    using f(3) hl by (auto simp: rd_u8_def h_def Cons_nth_drop_Suc [symmetric] split: if_splits)
  have rest: "rest = u8_of_frame_type (rf_type f) # put_u64 [] (rf_counter f)
      @ (if we then [rf_epoch f] else []) @ rf_body f"
  proof -
    have "rest = hd rest # take 8 (drop 1 rest) @ drop 9 rest"
      using hd(1) by (cases rest) (auto simp: append_take_drop_id [of 8, symmetric] simp del: append_take_drop_id)
    then show ?thesis using ep(1) by (cases we) (simp_all add: hd(2) p2 body h_def)
  qed
  have tl: "total_len = word_of_nat (h + length (rf_body f))"
    using l2(1) hl(1) by (simp add: body)
  have "frame_bytes we f = put_u32 [] total_len @ rest"
    unfolding frame_bytes_def tl h_def using rest by simp
  then have "k_in t = frame_bytes we f @ k_in t'"
    unfolding p1 l1(2) l2(2) by simp
  moreover have "frame_wf we f"
    unfolding frame_wf_def using ty ep(2) hl by (auto simp: body h_def)
  moreover have "k_out t' = k_out t"
    using posix.recv_sent [OF r1] posix.recv_sent [OF r2] by simp
  ultimately show ?thesis by blast
qed

lemma read_frame_not_Oob: "fst (read_frame t we) \<noteq> Oob"
proof
  define h where "h = (if we then 10 else 9 :: nat)"
  assume "fst (read_frame t we) = Oob"
  then obtain len_buf t1 where r1: "recv_all t 4 = (True, len_buf, t1)"
    and rest: "get_u32 len_buf 0 = Oob \<or> (\<exists>n rest t2. get_u32 len_buf 0 = Ok n \<and> \<not> n < word_of_nat h
      \<and> recv_all t1 (unat n) = (True, rest, t2) \<and> length rest < h)"
    by (fastforce simp: read_frame_def Let_def rbind_eq_Oob_iff h_def dest: get_u64_Oob
        split: prod.splits if_splits cres.splits)
  have hv: "unat (word_of_nat h :: u32) = h" by (rule unat_word_of_nat_small) (simp add: h_def)
  from rest posix.recv_true [OF r1] show False
    by (auto simp: word_less_nat_alt hv dest: posix.recv_true)
qed

lemma read_frame_k_out: "read_frame t we = (r, t') \<Longrightarrow> k_out t' = k_out t"
  by (auto simp: read_frame_def Let_def dest!: posix.recv_sent split: prod.splits if_splits cres.splits)

section \<open>Properties\<close>

text \<open>A frame written to a healthy connection is read back unchanged at the other end, whatever
  follows it in the stream, and the reader stops exactly at the frame's last byte.\<close>

theorem frame_roundtrip:
  assumes "healthy t" "healthy u" "frame_wf we f"
    and "k_in u = drop (length (k_out t)) (k_out (snd (write_frame t f we))) @ rest"
  shows "fst (write_frame t f we) \<and> read_frame u we = (Ok f, u\<lparr>k_in := rest\<rparr>)"
  using assms by (simp add: write_frame_healthy read_frame_healthy)

theorem frame_roundtrip_witness:
  "read_frame ((posix_transport 4 1000)\<lparr>k_in := k_out (snd (write_frame (posix_transport 3 1000)
       \<lparr>rf_type = Request, rf_counter = 5, rf_epoch = 1, rf_body = [10, 20]\<rparr> True))\<rparr>) True
   = (Ok \<lparr>rf_type = Request, rf_counter = 5, rf_epoch = 1, rf_body = [10, 20]\<rparr>, posix_transport 4 1000)"
  using frame_roundtrip [of "posix_transport 3 1000"
      "(posix_transport 4 1000)\<lparr>k_in := k_out (snd (write_frame (posix_transport 3 1000)
         \<lparr>rf_type = Request, rf_counter = 5, rf_epoch = 1, rf_body = [10, 20]\<rparr> True))\<rparr>"
      True "\<lparr>rf_type = Request, rf_counter = 5, rf_epoch = 1, rf_body = [10, 20]\<rparr>" "[]"]
  by (simp add: posix_transport_def healthy_def frame_wf_def frame_type_wf_def)

text \<open>C25: for every byte stream and every kernel behaviour, \<open>read_frame\<close> never reads outside its buffer;
  a frame it accepts is the one the stream starts with, it is at most 16 MiB long, and reading it
  consumes exactly its bytes.\<close>

theorem read_frame_exact:
  "fst (read_frame t we) \<noteq> Oob
   \<and> (read_frame t we = (Ok f, t') \<longrightarrow> k_in t = frame_bytes we f @ k_in t' \<and> frame_wf we f)"
  using read_frame_not_Oob read_frame_sound by blast

theorem read_frame_exact_witness:
  "k_in ((posix_transport 4 0)\<lparr>k_in := [0, 0, 0, 9, 5, 0, 0, 0, 0, 0, 0, 0, 0, 77]\<rparr>)
     = frame_bytes False \<lparr>rf_type = Ping, rf_counter = 0, rf_epoch = 0, rf_body = []\<rparr> @ [77]"
proof -
  have "read_frame ((posix_transport 4 0)\<lparr>k_in := [0, 0, 0, 9, 5, 0, 0, 0, 0, 0, 0, 0, 0, 77]\<rparr>) False
      = (Ok \<lparr>rf_type = Ping, rf_counter = 0, rf_epoch = 0, rf_body = []\<rparr>,
         (posix_transport 4 0)\<lparr>k_in := [77]\<rparr>)"
    using read_frame_healthy [of "(posix_transport 4 0)\<lparr>k_in := [0, 0, 0, 9, 5, 0, 0, 0, 0, 0, 0, 0, 0, 77]\<rparr>"
        False "\<lparr>rf_type = Ping, rf_counter = 0, rf_epoch = 0, rf_body = []\<rparr>" "[77]"]
    by (simp add: posix_transport_def healthy_def frame_bytes_def put_u32_def put_u64_eq frame_wf_def
        frame_type_wf_def)
  with read_frame_exact show ?thesis by fastforce
qed

lemma read_frame_oversize:
  assumes "healthy u" "k_in u = frame_bytes we f @ rest"
    and "16777216 < (if we then 10 else 9) + length (rf_body f)" "(if we then 10 else 9) + length (rf_body f) < 2 ^ 32"
  shows "fst (read_frame u we) = Fail"
proof -
  define h where "h = (if we then 10 else 9 :: nat)"
  define n where "n = (word_of_nat (h + length (rf_body f)) :: u32)"
  have kin: "k_in u = put_u32 [] n @ drop 4 (k_in u)"
    using assms(2) by (simp add: frame_bytes_def n_def h_def)
  have "recv_all u 4 = (True, put_u32 [] n, u\<lparr>k_in := drop 4 (k_in u)\<rparr>)"
    using recv_all_healthy [OF assms(1) kin] by simp
  moreover have "get_u32 (put_u32 [] n) 0 = Ok n" using get_u32_head [of n "[]"] by simp
  moreover have "n > kMaxFrameBytes"
    unfolding n_def using total_len_checks(2) [of h "length (rf_body f)"] assms(3,4) by (auto simp: h_def)
  ultimately show ?thesis by (simp add: read_frame_def Let_def)
qed

text \<open>The 16 MiB cap is enforced by the reader only. A longer frame is written to the connection
  and reported as sent, and the peer's \<open>read_frame\<close> refuses it (which ends the connection there).\<close>

theorem oversize_frame_sent_then_refused:
  assumes "healthy t" "healthy u" "k_in u = frame_bytes we f @ rest"
    and "16777216 < (if we then 10 else 9) + length (rf_body f)" "(if we then 10 else 9) + length (rf_body f) < 2 ^ 32"
  shows "write_frame t f we = (True, t\<lparr>k_out := k_out t @ frame_bytes we f\<rparr>) \<and> fst (read_frame u we) = Fail"
  using assms by (simp add: write_frame_healthy read_frame_oversize)

theorem oversize_frame_sent_then_refused_witness:
  "fst (read_frame ((posix_transport 4 0)\<lparr>k_in := frame_bytes True
     \<lparr>rf_type = Request, rf_counter = 0, rf_epoch = 0, rf_body = replicate 16777216 0\<rparr>\<rparr>) True) = Fail"
  using oversize_frame_sent_then_refused [of "posix_transport 3 0" "(posix_transport 4 0)\<lparr>k_in := frame_bytes True
     \<lparr>rf_type = Request, rf_counter = 0, rf_epoch = 0, rf_body = replicate 16777216 0\<rparr>\<rparr>" True
     "\<lparr>rf_type = Request, rf_counter = 0, rf_epoch = 0, rf_body = replicate 16777216 0\<rparr>" "[]"]
  by (simp add: posix_transport_def healthy_def)

end
