(* ===== verification/Epx_Types.thy ===== *)
theory Epx_Types
  imports Epx_Prelude
begin

text \<open>
  The public data types of \<^verbatim>\<open>include/epx/epx.hpp\<close> and the exceptions the library throws. An
  operation that may throw returns an \<open>'a ex\<close>; the message of an exception is kept where the code
  builds one from its arguments.
\<close>

type_synonym PublicKey = bytes
type_synonym SecretKey = bytes

definition kPublicKeyBytes :: nat where "kPublicKeyBytes = 32"
definition kSecretKeyBytes :: nat where "kSecretKeyBytes = 64"

record Identity =
  id_public_key :: PublicKey
  id_secret_key :: SecretKey

datatype TrustPolicy = TrustOnFirstUse | RequireKnownPeer | AllowAll

record PeerInfo =
  pi_public_key :: PublicKey
  pi_service_name :: string
  pi_peer_uid :: int
  pi_key_was_pinned_now :: bool

record AppResponse =
  resp_ok :: bool
  resp_payload :: bytes
  resp_error :: string

datatype ErrCode = Timeout | ConnectFailed | HandshakeRejected | NotFound | Transport | Protocol
  | AccessDenied | RateLimited

datatype exn = EpxError ErrCode string | RuntimeError string | InvalidArgument string
  | OutOfRange string | BadFunctionCall

datatype 'a ex = Ret 'a | Throw exn

fun ex_bind :: "'a ex \<Rightarrow> ('a \<Rightarrow> 'b ex) \<Rightarrow> 'b ex" where
  "ex_bind (Ret x) f = f x"
| "ex_bind (Throw e) f = Throw e"

lemma ex_bind_eq_Ret_iff: "ex_bind m f = Ret y \<longleftrightarrow> (\<exists>x. m = Ret x \<and> f x = Ret y)"
  by (cases m) auto

lemma ex_bind_eq_Throw_iff: "ex_bind m f = Throw e \<longleftrightarrow> m = Throw e \<or> (\<exists>x. m = Ret x \<and> f x = Throw e)"
  by (cases m) auto

datatype AccessTier = Open | PinnedPeers | Certificate | PromptUser

record AccessPolicy =
  ap_tier :: AccessTier
  ap_prompt_reason :: string

definition AccessPolicy_init :: AccessPolicy where
  "AccessPolicy_init = \<lparr>ap_tier = Open, ap_prompt_reason = []\<rparr>"

datatype PromptDecision = Deny | AllowOnce | AlwaysAllow

datatype EndpointKind = KReceive | KSend | KStreamReceive | KStreamSend | KTopic

record DescribedEndpoint =
  de_name :: string
  de_kind :: EndpointKind

record ServiceDescription =
  sd_service_name :: string
  sd_description :: string
  sd_pid :: int
  sd_identity_pubkey :: PublicKey
  sd_endpoints :: "DescribedEndpoint list"

record ConnectionLimits =
  handshakes_per_uid_per_sec :: u32
  handshake_burst :: u32
  max_requests_per_sec :: u32
  request_burst :: u32
  disconnect_after_delayed :: u32
  max_subscriptions :: u32
  stream_write_timeout_ms :: int

definition ConnectionLimits_init :: ConnectionLimits where
  "ConnectionLimits_init = \<lparr>handshakes_per_uid_per_sec = 0, handshake_burst = 20,
     max_requests_per_sec = 0, request_burst = 32, disconnect_after_delayed = 100,
     max_subscriptions = 32, stream_write_timeout_ms = 0\<rparr>"

record RotationPolicy =
  rot_interval :: int
  rot_max_bytes :: u64

end
