(* ===== verification/Epx_Crypto.thy ===== *)
theory Epx_Crypto
  imports Epx_Types Epx_Wire
begin

text \<open>
  The wrapper around libsodium: \<^verbatim>\<open>src/crypto.hpp\<close>, \<^verbatim>\<open>src/crypto.cpp\<close> and \<^verbatim>\<open>src/init.cpp\<close>. libsodium
  itself is not part of the repository. It is a parameter of the model, a record of the functions the
  wrapper calls; a function that can return a non-zero code yields \<open>None\<close> there, and key generation
  takes the random bytes it draws as an argument. What the library documents of them is stated by the
  predicates \<open>sodium_sizes\<close>, \<open>sign_correct\<close>, \<open>kx_agrees\<close> and \<open>aead_correct\<close>, the named hypotheses of
  the theorems that rely on it.
\<close>

section \<open>libsodium\<close>

record sodium =
  sodium_init_rc :: int
  crypto_sign_keypair :: "bytes \<Rightarrow> (bytes \<times> bytes) option"
  crypto_kx_keypair :: "bytes \<Rightarrow> (bytes \<times> bytes) option"
  crypto_sign_detached :: "bytes \<Rightarrow> bytes \<Rightarrow> bytes"
  crypto_sign_verify_detached :: "bytes \<Rightarrow> bytes \<Rightarrow> bytes \<Rightarrow> bool"
  crypto_kx_client_session_keys :: "bytes \<Rightarrow> bytes \<Rightarrow> bytes \<Rightarrow> (bytes \<times> bytes) option"
  crypto_kx_server_session_keys :: "bytes \<Rightarrow> bytes \<Rightarrow> bytes \<Rightarrow> (bytes \<times> bytes) option"
  crypto_aead_encrypt :: "bytes \<Rightarrow> bytes \<Rightarrow> bytes \<Rightarrow> bytes \<Rightarrow> bytes"
  crypto_aead_decrypt :: "bytes \<Rightarrow> bytes \<Rightarrow> bytes \<Rightarrow> bytes \<Rightarrow> bytes option"

text \<open>Output sizes: 32-byte public keys, 64-byte signing keys and signatures, 32-byte session keys, a
  16-byte tag on every ciphertext.\<close>

definition sodium_sizes :: "sodium \<Rightarrow> bool" where
  "sodium_sizes S \<longleftrightarrow>
     (\<forall>r pk sk. crypto_sign_keypair S r = Some (pk, sk) \<longrightarrow> length pk = 32 \<and> length sk = 64)
   \<and> (\<forall>r pk sk. crypto_kx_keypair S r = Some (pk, sk) \<longrightarrow> length pk = 32 \<and> length sk = 32)
   \<and> (\<forall>sk m. length (crypto_sign_detached S sk m) = 64)
   \<and> (\<forall>pk sk peer rx tx. crypto_kx_client_session_keys S pk sk peer = Some (rx, tx) \<longrightarrow> length rx = 32 \<and> length tx = 32)
   \<and> (\<forall>pk sk peer rx tx. crypto_kx_server_session_keys S pk sk peer = Some (rx, tx) \<longrightarrow> length rx = 32 \<and> length tx = 32)
   \<and> (\<forall>k n ad p. length (crypto_aead_encrypt S k n ad p) = length p + 16)"

text \<open>A signature made with a generated secret key verifies under its public key.\<close>

definition sign_correct :: "sodium \<Rightarrow> bool" where
  "sign_correct S \<longleftrightarrow> (\<forall>r pk sk m. crypto_sign_keypair S r = Some (pk, sk) \<longrightarrow>
     crypto_sign_verify_detached S pk m (crypto_sign_detached S sk m))"

text \<open>The two sides of a key exchange between generated key pairs succeed and derive the same two
  keys with the directions exchanged.\<close>

definition kx_agrees :: "sodium \<Rightarrow> bool" where
  "kx_agrees S \<longleftrightarrow> (\<forall>r r' pk sk pk' sk'.
     crypto_kx_keypair S r = Some (pk, sk) \<longrightarrow> crypto_kx_keypair S r' = Some (pk', sk') \<longrightarrow>
     (\<exists>a b. crypto_kx_client_session_keys S pk sk pk' = Some (a, b)
        \<and> crypto_kx_server_session_keys S pk' sk' pk = Some (b, a)))"

text \<open>Decryption inverts encryption under the same key, nonce and associated data.\<close>

definition aead_correct :: "sodium \<Rightarrow> bool" where
  "aead_correct S \<longleftrightarrow> (\<forall>k n ad p. length k = 32 \<longrightarrow> length n = 24 \<longrightarrow>
     crypto_aead_decrypt S k n ad (crypto_aead_encrypt S k n ad p) = Some p)"

section \<open>Keys\<close>

definition crypto_init :: "sodium \<Rightarrow> unit ex" where
  "crypto_init S = (if sodium_init_rc S < 0 then Throw (RuntimeError ''libsodium failed to initialize'') else Ret ())"

text \<open>\<open>std::call_once\<close>: the flag is set when the callable returns; if it throws, the flag stays clear
  and the exception reaches the caller.\<close>

definition ensure_sodium_init :: "sodium \<Rightarrow> bool \<Rightarrow> bool \<times> unit ex" where
  "ensure_sodium_init S flag =
     (if flag then (True, Ret ())
      else case crypto_init S of Ret u \<Rightarrow> (True, Ret u) | Throw e \<Rightarrow> (False, Throw e))"

definition generate_identity :: "sodium \<Rightarrow> bytes \<Rightarrow> Identity ex" where
  "generate_identity S rnd = (case crypto_sign_keypair S rnd of
       None \<Rightarrow> Throw (RuntimeError ''crypto_sign_keypair failed'')
     | Some (pk, sk) \<Rightarrow> Ret \<lparr>id_public_key = pk, id_secret_key = sk\<rparr>)"

record EphemeralKeyPair =
  eph_public_key :: bytes
  eph_secret_key :: bytes

definition generate_ephemeral :: "sodium \<Rightarrow> bytes \<Rightarrow> EphemeralKeyPair ex" where
  "generate_ephemeral S rnd = (case crypto_kx_keypair S rnd of
       None \<Rightarrow> Throw (RuntimeError ''crypto_kx_keypair failed'')
     | Some (pk, sk) \<Rightarrow> Ret \<lparr>eph_public_key = pk, eph_secret_key = sk\<rparr>)"

definition sign :: "sodium \<Rightarrow> SecretKey \<Rightarrow> bytes \<Rightarrow> bytes" where
  "sign S sk message = crypto_sign_detached S sk message"

definition verify :: "sodium \<Rightarrow> PublicKey \<Rightarrow> bytes \<Rightarrow> bytes \<Rightarrow> bool" where
  "verify S pk message sig = crypto_sign_verify_detached S pk message sig"

record SessionKeys =
  sk_rx :: bytes
  sk_tx :: bytes

definition client_session_keys :: "sodium \<Rightarrow> EphemeralKeyPair \<Rightarrow> bytes \<Rightarrow> SessionKeys ex" where
  "client_session_keys S self_ephemeral peer_ephemeral_pk =
     (case crypto_kx_client_session_keys S (eph_public_key self_ephemeral) (eph_secret_key self_ephemeral)
             peer_ephemeral_pk of
        None \<Rightarrow> Throw (RuntimeError ''crypto_kx_client_session_keys failed (suspicious peer key)'')
      | Some (rx, tx) \<Rightarrow> Ret \<lparr>sk_rx = rx, sk_tx = tx\<rparr>)"

definition server_session_keys :: "sodium \<Rightarrow> EphemeralKeyPair \<Rightarrow> bytes \<Rightarrow> SessionKeys ex" where
  "server_session_keys S self_ephemeral peer_ephemeral_pk =
     (case crypto_kx_server_session_keys S (eph_public_key self_ephemeral) (eph_secret_key self_ephemeral)
             peer_ephemeral_pk of
        None \<Rightarrow> Throw (RuntimeError ''crypto_kx_server_session_keys failed (suspicious peer key)'')
      | Some (rx, tx) \<Rightarrow> Ret \<lparr>sk_rx = rx, sk_tx = tx\<rparr>)"

section \<open>Sealing frames\<close>

definition kABytes :: nat where "kABytes = 16"

definition make_nonce :: "u64 \<Rightarrow> bytes" where
  "make_nonce counter =
     foldl (\<lambda>nonce i. nonce[i := ucast (drop_bit (56 - i * 8) counter)]) (replicate 24 0) [0 ..< 8]"

text \<open>\<open>fill_ad\<close> writes the first nine bytes of the caller's buffer \<open>ad\<close>.\<close>

definition fill_ad :: "bytes \<Rightarrow> u8 \<Rightarrow> u64 \<Rightarrow> bytes" where
  "fill_ad ad frame_type counter =
     foldl (\<lambda>ad i. ad[1 + i := ucast (drop_bit (56 - i * 8) counter)]) (ad[0 := frame_type]) [0 ..< 8]"

definition seal_impl :: "sodium \<Rightarrow> bytes \<Rightarrow> u64 \<Rightarrow> bytes \<Rightarrow> bytes \<Rightarrow> bytes" where
  "seal_impl S key counter ad plaintext = crypto_aead_encrypt S key (make_nonce counter) ad plaintext"

definition open_impl :: "sodium \<Rightarrow> bytes \<Rightarrow> u64 \<Rightarrow> bytes \<Rightarrow> bytes \<Rightarrow> bytes option" where
  "open_impl S key counter ad ciphertext =
     (if length ciphertext < kABytes then None
      else crypto_aead_decrypt S key (make_nonce counter) ad ciphertext)"

definition seal :: "sodium \<Rightarrow> bytes \<Rightarrow> u64 \<Rightarrow> u8 \<Rightarrow> bytes \<Rightarrow> bytes" where
  "seal S key counter frame_type plaintext =
     seal_impl S key counter (fill_ad (replicate 9 0) frame_type counter) plaintext"

definition open_v1 :: "sodium \<Rightarrow> bytes \<Rightarrow> u64 \<Rightarrow> u8 \<Rightarrow> bytes \<Rightarrow> bytes option" where
  "open_v1 S key counter frame_type ciphertext =
     open_impl S key counter (fill_ad (replicate 9 0) frame_type counter) ciphertext"

definition seal_v2 :: "sodium \<Rightarrow> bytes \<Rightarrow> u64 \<Rightarrow> u8 \<Rightarrow> u8 \<Rightarrow> bytes \<Rightarrow> bytes" where
  "seal_v2 S key counter epoch frame_type plaintext =
     seal_impl S key counter ((fill_ad (replicate 10 0) frame_type counter)[9 := epoch]) plaintext"

definition open_v2 :: "sodium \<Rightarrow> bytes \<Rightarrow> u64 \<Rightarrow> u8 \<Rightarrow> u8 \<Rightarrow> bytes \<Rightarrow> bytes option" where
  "open_v2 S key counter epoch frame_type ciphertext =
     open_impl S key counter ((fill_ad (replicate 10 0) frame_type counter)[9 := epoch]) ciphertext"

text \<open>The associated data of a frame, by protocol version (the epoch is bound at v2 only).\<close>

definition frame_ad :: "bool \<Rightarrow> u8 \<Rightarrow> u64 \<Rightarrow> u8 \<Rightarrow> bytes" where
  "frame_ad v2 frame_type counter epoch =
     frame_type # put_u64 [] counter @ (if v2 then [epoch] else [])"

lemma upt_8: "[0 ..< 8] = [0, 1, 2, 3, 4, 5, 6, 7 :: nat]"
  by (simp add: upt_rec)

lemma counter_bytes: "map (\<lambda>i. ucast (drop_bit (56 - i * 8) counter)) [0 ..< 8] = put_u64 [] counter"
  by (simp add: put_u64_eq upt_8)

lemma make_nonce_eq: "make_nonce counter = put_u64 [] counter @ replicate 16 0"
  using foldl_list_update_upt [of 0 8 "replicate 24 (0 :: u8)" "\<lambda>i. ucast (drop_bit (56 - i * 8) counter)"]
  by (simp add: make_nonce_def counter_bytes)

lemma fill_ad_eq:
  "9 \<le> length ad \<Longrightarrow> fill_ad ad ty counter = ty # put_u64 [] counter @ drop 9 ad"
  using foldl_list_update_upt [of 1 8 "ad[0 := ty]" "\<lambda>i. ucast (drop_bit (56 - i * 8) counter)"]
  by (cases ad) (simp_all add: fill_ad_def counter_bytes)

lemma fill_ad_v1: "fill_ad (replicate 9 0) ty counter = frame_ad False ty counter e"
  by (simp add: fill_ad_eq frame_ad_def)

lemma fill_ad_v2: "(fill_ad (replicate 10 0) ty counter)[9 := e] = frame_ad True ty counter e"
  using list_update_length [of "ty # put_u64 [] counter" "0 :: u8" "[]" e]
  by (simp add: fill_ad_eq frame_ad_def)

lemma length_make_nonce [simp]: "length (make_nonce counter) = 24"
  by (simp add: make_nonce_eq)

lemma put_u64_inj: "put_u64 [] a = put_u64 [] b \<longleftrightarrow> a = b"
  by (metis cres.inject get_u64_head)

lemma make_nonce_inj: "make_nonce a = make_nonce b \<longleftrightarrow> a = b"
  by (simp add: make_nonce_eq put_u64_inj)

lemma frame_ad_inj:
  "frame_ad v ty c e = frame_ad v' ty' c' e' \<longleftrightarrow> v = v' \<and> ty = ty' \<and> c = c' \<and> (v \<longrightarrow> e = e')"
proof -
  have "frame_ad v ty c e = frame_ad v' ty' c' e' \<Longrightarrow> v = v'"
    by (drule arg_cong [of _ _ length]) (simp add: frame_ad_def split: if_splits)
  then show ?thesis by (auto simp: frame_ad_def put_u64_inj)
qed

section \<open>The sealed channel\<close>

text \<open>What a user of the frame encryption relies on: under a condition on the library and a usable key,
  opening inverts sealing when version, counter, epoch and frame type match, and sealing adds exactly
  the tag.\<close>

locale sealed_channel =
  fixes usable :: "'s \<Rightarrow> bytes \<Rightarrow> bool"
    and seal_frame :: "'s \<Rightarrow> bool \<Rightarrow> bytes \<Rightarrow> u64 \<Rightarrow> u8 \<Rightarrow> u8 \<Rightarrow> bytes \<Rightarrow> bytes"
    and open_frame :: "'s \<Rightarrow> bool \<Rightarrow> bytes \<Rightarrow> u64 \<Rightarrow> u8 \<Rightarrow> u8 \<Rightarrow> bytes \<Rightarrow> bytes option"
  assumes open_seal: "usable s k \<Longrightarrow> open_frame s v k c e ty (seal_frame s v k c e ty p) = Some p"
    and seal_length: "usable s k \<Longrightarrow> length (seal_frame s v k c e ty p) = length p + 16"
begin

lemma seal_inj:
  "usable s k \<Longrightarrow> seal_frame s v k c e ty p = seal_frame s v k c e ty q \<longleftrightarrow> p = q"
  by (metis open_seal option.inject)

lemma seal_nonempty: "usable s k \<Longrightarrow> seal_frame s v k c e ty p \<noteq> []"
  using seal_length [of s k v c e ty p] by auto

end

text \<open>The choice both sides make between the v1 and the v2 functions.\<close>

definition seal_as :: "sodium \<Rightarrow> bool \<Rightarrow> bytes \<Rightarrow> u64 \<Rightarrow> u8 \<Rightarrow> u8 \<Rightarrow> bytes \<Rightarrow> bytes" where
  "seal_as S v2 key counter epoch ty plaintext =
     (if v2 then seal_v2 S key counter epoch ty plaintext else seal S key counter ty plaintext)"

definition open_as :: "sodium \<Rightarrow> bool \<Rightarrow> bytes \<Rightarrow> u64 \<Rightarrow> u8 \<Rightarrow> u8 \<Rightarrow> bytes \<Rightarrow> bytes option" where
  "open_as S v2 key counter epoch ty ciphertext =
     (if v2 then open_v2 S key counter epoch ty ciphertext else open_v1 S key counter ty ciphertext)"

definition usable_key :: "sodium \<Rightarrow> bytes \<Rightarrow> bool" where
  "usable_key S k \<longleftrightarrow> sodium_sizes S \<and> aead_correct S \<and> length k = 32"

lemma seal_as_eq:
  "seal_as S v k c e ty p = crypto_aead_encrypt S k (make_nonce c) (frame_ad v ty c e) p"
  by (simp add: seal_as_def seal_def seal_v2_def seal_impl_def fill_ad_v2 fill_ad_v1 [of _ _ e])

lemma open_as_eq:
  "open_as S v k c e ty ct = (if length ct < 16 then None
     else crypto_aead_decrypt S k (make_nonce c) (frame_ad v ty c e) ct)"
  by (simp add: open_as_def open_v1_def open_v2_def open_impl_def kABytes_def fill_ad_v2 fill_ad_v1 [of _ _ e])

lemma aead_length: "sodium_sizes S \<Longrightarrow> length (crypto_aead_encrypt S k n ad p) = length p + 16"
  by (simp add: sodium_sizes_def)

interpretation epx: sealed_channel usable_key seal_as open_as
  by unfold_locales
    (auto simp: usable_key_def seal_as_eq open_as_eq aead_length aead_correct_def)

lemma open_seal_v1: "usable_key S k \<Longrightarrow> open_v1 S k c ty (seal S k c ty p) = Some p"
  using epx.open_seal [of S k False c 0 ty p] by (simp add: seal_as_def open_as_def)

lemma open_seal_v2: "usable_key S k \<Longrightarrow> open_v2 S k c e ty (seal_v2 S k c e ty p) = Some p"
  using epx.open_seal [of S k True c e ty p] by (simp add: seal_as_def open_as_def)

section \<open>A concrete instance\<close>

text \<open>A stand-in for libsodium that satisfies the documented behaviour (and nothing more: it hides
  nothing). It shows that the hypotheses are consistent and is what the witnesses compute with. Like
  libsodium it refuses a key exchange with the all-zero public key.\<close>

definition pad :: "nat \<Rightarrow> bytes \<Rightarrow> bytes" where
  "pad n b = take n (b @ replicate n 0)"

definition toy_tag :: "bytes \<Rightarrow> bytes \<Rightarrow> bytes \<Rightarrow> bytes" where
  "toy_tag k n ad = map2 (XOR) (pad 16 k) (pad 16 ad)"

definition toy_shared :: "bytes \<Rightarrow> bytes \<Rightarrow> bytes" where
  "toy_shared a b = map2 (XOR) (pad 32 a) (pad 32 b)"

definition toy_kx :: "bytes \<Rightarrow> bytes \<Rightarrow> bytes \<Rightarrow> (bytes \<times> bytes) option" where
  "toy_kx pk sk peer = (if peer = replicate 32 0 then None
     else Some (toy_shared pk peer, map NOT (toy_shared pk peer)))"

definition toy_sodium :: sodium where
  "toy_sodium = \<lparr>sodium_init_rc = 0,
     crypto_sign_keypair = (\<lambda>r. Some (pad 32 r, pad 32 r @ pad 32 r)),
     crypto_kx_keypair = (\<lambda>r. Some (1 # pad 31 r, pad 32 r)),
     crypto_sign_detached = (\<lambda>sk m. pad 32 sk @ pad 32 (rev m)),
     crypto_sign_verify_detached = (\<lambda>pk m s. s = pad 32 pk @ pad 32 (rev m)),
     crypto_kx_client_session_keys = toy_kx,
     crypto_kx_server_session_keys = (\<lambda>pk sk peer. map_option prod.swap (toy_kx pk sk peer)),
     crypto_aead_encrypt = (\<lambda>k n ad p. p @ toy_tag k n ad),
     crypto_aead_decrypt = (\<lambda>k n ad c. if 16 \<le> length c \<and> drop (length c - 16) c = toy_tag k n ad
                                      then Some (take (length c - 16) c) else None)\<rparr>"

lemma length_pad [simp]: "length (pad n b) = n"
  by (simp add: pad_def)

lemma length_toy_tag [simp]: "length (toy_tag k n ad) = 16"
  by (simp add: toy_tag_def)

lemma pad_exact: "length b = n \<Longrightarrow> pad n b = b"
  by (simp add: pad_def)

lemma pad_front: "n \<le> length b \<Longrightarrow> pad n (b @ c) = pad n b"
  by (simp add: pad_def)

lemma length_toy_shared [simp]: "length (toy_shared a b) = 32"
  by (simp add: toy_shared_def)

lemma toy_sizes: "sodium_sizes toy_sodium"
  by (auto simp: sodium_sizes_def toy_sodium_def toy_kx_def split: if_splits)

lemma toy_sign_correct: "sign_correct toy_sodium"
  by (auto simp: sign_correct_def toy_sodium_def pad_front)

lemma toy_shared_commute: "toy_shared a b = toy_shared b a"
  by (rule nth_equalityI) (auto simp: toy_shared_def xor.commute)

lemma toy_pk_nonzero: "1 # pad 31 r \<noteq> replicate 32 (0 :: u8)"
  using replicate_Suc [of 31 "0 :: u8"] by simp

lemma toy_kx_agrees: "kx_agrees toy_sodium"
proof -
  have "toy_kx (1 # pad 31 r) sk (1 # pad 31 r') = Some (a, b) \<longleftrightarrow>
      a = toy_shared (1 # pad 31 r) (1 # pad 31 r') \<and> b = map NOT a" for r r' sk a b
    using toy_pk_nonzero [of r'] by (auto simp: toy_kx_def)
  with toy_shared_commute show ?thesis by (auto simp: kx_agrees_def toy_sodium_def)
qed

lemma toy_aead_correct: "aead_correct toy_sodium"
  by (auto simp: aead_correct_def toy_sodium_def)

lemmas toy_laws = toy_sizes toy_sign_correct toy_kx_agrees toy_aead_correct

section \<open>Properties\<close>

text \<open>C27: a frame sealed with a session key opens to the same plaintext under the same version,
  counter, epoch and frame type. The nonce determines the counter, and the associated data determine
  version, frame type and counter (and at v2 the epoch): two frames of one key with different counters
  never share a nonce, and no v1 frame has the associated data of a v2 frame.\<close>

theorem seal_open_bound:
  assumes "sodium_sizes S" "aead_correct S" "length k = 32"
  shows "open_v1 S k c ty (seal S k c ty p) = Some p
    \<and> open_v2 S k c e ty (seal_v2 S k c e ty p) = Some p
    \<and> (make_nonce c = make_nonce c' \<longleftrightarrow> c = c')
    \<and> (fill_ad (replicate 9 0) ty c = fill_ad (replicate 9 0) ty' c' \<longleftrightarrow> ty = ty' \<and> c = c')
    \<and> ((fill_ad (replicate 10 0) ty c)[9 := e] = (fill_ad (replicate 10 0) ty' c')[9 := e']
        \<longleftrightarrow> ty = ty' \<and> c = c' \<and> e = e')
    \<and> fill_ad (replicate 9 0) ty c \<noteq> (fill_ad (replicate 10 0) ty' c')[9 := e']"
  using assms
  by (simp add: open_seal_v1 open_seal_v2 usable_key_def make_nonce_inj fill_ad_v1 [of _ _ 0] fill_ad_v2
      frame_ad_inj)

theorem seal_open_bound_witness:
  "open_v2 toy_sodium (replicate 32 9) 7 1 2 (seal_v2 toy_sodium (replicate 32 9) 7 1 2 [1, 2, 3]) = Some [1, 2, 3]"
  using seal_open_bound [OF toy_sizes toy_aead_correct, of "replicate 32 9"] by simp

end
