(* ===== verification/Epx_Handshake.thy ===== *)
theory Epx_Handshake
  imports Epx_Framing Epx_Crypto
begin

text \<open>
  The handshake: \<^verbatim>\<open>src/handshake.hpp\<close> and \<^verbatim>\<open>src/handshake.cpp\<close>. Both functions run over a transport and
  return \<open>std::optional<Result>\<close> (or let an exception of the key exchange escape), so they yield an
  \<open>HsResult option ex\<close> and the transport after the run. The random bytes they draw, the ephemeral key's
  and the nonce's, are arguments. The client's trust callback is a predicate; the server's callback
  updates the keystore, so it takes and returns the caller's state and may throw.
\<close>

record HsResult =
  hs_keys :: SessionKeys
  hs_peer_identity :: PublicKey
  hs_version :: u8

text \<open>The decoders and \<open>read_frame\<close> never read outside their buffers (shown in \<open>Epx_Wire\<close> and
  \<open>Epx_Framing\<close>), so their callers only tell an accepted value from a refusal.\<close>

fun accepted :: "'a cres \<Rightarrow> 'a option" where
  "accepted (Ok x) = Some x"
| "accepted Fail = None"
| "accepted Oob = None"

lemma accepted_eq_Some [simp]: "accepted r = Some x \<longleftrightarrow> r = Ok x"
  by (cases r) auto

section \<open>Client\<close>

definition client_hello :: "sodium \<Rightarrow> u8 \<Rightarrow> Identity \<Rightarrow> string \<Rightarrow> EphemeralKeyPair \<Rightarrow> bytes \<Rightarrow> HelloPayload" where
  "client_hello S my_max self target_service_name ephemeral nonce =
     (let hello = HelloPayload_init
            \<lparr>hello_identity_pubkey := id_public_key self,
             hello_ephemeral_pubkey := eph_public_key ephemeral,
             hello_client_nonce := nonce,
             hello_service_name := target_service_name\<rparr>;
          signed_bytes = hello_signed_bytes (hello_ephemeral_pubkey hello) (hello_client_nonce hello) (hello_service_name hello);
          hello = hello\<lparr>hello_signature := sign S (id_secret_key self) signed_bytes, hello_max_version := my_max\<rparr>
      in if 2 \<le> my_max
         then hello\<lparr>hello_signature_v2 := sign S (id_secret_key self)
                (hello_signed_bytes_v2 my_max (id_public_key self) (hello_ephemeral_pubkey hello)
                   (hello_client_nonce hello) (hello_service_name hello))\<rparr>
         else hello)"

text \<open>The checks on a decoded HELLO_ACK; the result is the negotiated version.\<close>

definition client_check_ack ::
  "sodium \<Rightarrow> u8 \<Rightarrow> Identity \<Rightarrow> HelloPayload \<Rightarrow> (PublicKey \<Rightarrow> bool) \<Rightarrow> HelloAckPayload \<Rightarrow> u8 option" where
  "client_check_ack S my_max self hello is_trusted ack =
     (if ack_status ack \<noteq> 0 then None
      else if ack_client_nonce ack \<noteq> hello_client_nonce hello then None
      else if \<not> is_trusted (ack_identity_pubkey ack) then None
      else if \<not> verify S (ack_identity_pubkey ack)
                (hello_ack_signed_bytes (ack_ephemeral_pubkey ack) (ack_server_nonce ack) (ack_client_nonce ack))
                (ack_signature ack) then None
      else let negotiated = negotiate_version my_max (ack_max_version ack)
           in if negotiated = 0 then None
              else if 2 \<le> negotiated then
                (if \<not> ack_has_v2_extension ack then None
                 else if \<not> verify S (ack_identity_pubkey ack)
                        (hello_ack_signed_bytes_v2 (ack_max_version ack) negotiated (ack_status ack)
                           (ack_identity_pubkey ack) (id_public_key self) (ack_ephemeral_pubkey ack)
                           (ack_server_nonce ack) (ack_client_nonce ack))
                        (ack_signature_v2 ack) then None
                 else Some negotiated)
              else Some negotiated)"

definition client_handshake ::
  "sodium \<Rightarrow> wire_globals \<Rightarrow> PosixTransport \<Rightarrow> Identity \<Rightarrow> string \<Rightarrow> (PublicKey \<Rightarrow> bool) \<Rightarrow> bytes \<Rightarrow> bytes
   \<Rightarrow> HsResult option ex \<times> PosixTransport" where
  "client_handshake S g t self target_service_name is_trusted eph_rnd nonce =
     (case generate_ephemeral S eph_rnd of
        Throw e \<Rightarrow> (Throw e, t)
      | Ret ephemeral \<Rightarrow>
          let my_max = max_negotiable_version g;
              hello = client_hello S my_max self target_service_name ephemeral nonce;
              hello_frame = \<lparr>rf_type = Hello, rf_counter = 0, rf_epoch = 0, rf_body = encode_hello hello\<rparr>
          in case write_frame t hello_frame False of (sent, t1) \<Rightarrow>
             if \<not> sent then (Ret None, t1)
             else case read_frame t1 False of (fr, t2) \<Rightarrow>
               (case accepted fr of
                  None \<Rightarrow> (Ret None, t2)
                | Some ack_frame \<Rightarrow>
                    if rf_type ack_frame \<noteq> HelloAck then (Ret None, t2)
                    else case accepted (decode_hello_ack (rf_body ack_frame)) of
                      None \<Rightarrow> (Ret None, t2)
                    | Some ack \<Rightarrow>
                        (case client_check_ack S my_max self hello is_trusted ack of
                           None \<Rightarrow> (Ret None, t2)
                         | Some negotiated \<Rightarrow>
                             (ex_bind (client_session_keys S ephemeral (ack_ephemeral_pubkey ack)) (\<lambda>keys.
                                Ret (Some \<lparr>hs_keys = keys, hs_peer_identity = ack_identity_pubkey ack,
                                          hs_version = negotiated\<rparr>)), t2))))"

section \<open>Server\<close>

definition server_check_hello :: "sodium \<Rightarrow> u8 \<Rightarrow> HelloPayload \<Rightarrow> bool" where
  "server_check_hello S negotiated hello =
     (verify S (hello_identity_pubkey hello)
        (hello_signed_bytes (hello_ephemeral_pubkey hello) (hello_client_nonce hello) (hello_service_name hello))
        (hello_signature hello)
      \<and> (2 \<le> negotiated \<longrightarrow> hello_has_v2_extension hello
          \<and> verify S (hello_identity_pubkey hello)
              (hello_signed_bytes_v2 (hello_max_version hello) (hello_identity_pubkey hello)
                 (hello_ephemeral_pubkey hello) (hello_client_nonce hello) (hello_service_name hello))
              (hello_signature_v2 hello)))"

definition server_ack ::
  "sodium \<Rightarrow> u8 \<Rightarrow> Identity \<Rightarrow> HelloPayload \<Rightarrow> u8 \<Rightarrow> bool \<Rightarrow> EphemeralKeyPair \<Rightarrow> bytes \<Rightarrow> HelloAckPayload" where
  "server_ack S my_max self hello negotiated trusted ephemeral nonce =
     (let ack = HelloAckPayload_init
            \<lparr>ack_identity_pubkey := id_public_key self,
             ack_ephemeral_pubkey := eph_public_key ephemeral,
             ack_server_nonce := nonce,
             ack_client_nonce := hello_client_nonce hello,
             ack_status := (if trusted then 0 else 1)\<rparr>;
          ack = ack\<lparr>ack_signature := sign S (id_secret_key self)
                      (hello_ack_signed_bytes (ack_ephemeral_pubkey ack) (ack_server_nonce ack) (ack_client_nonce ack)),
                    ack_max_version := my_max\<rparr>
      in if 2 \<le> my_max
         then ack\<lparr>ack_signature_v2 := sign S (id_secret_key self)
                (hello_ack_signed_bytes_v2 my_max negotiated (ack_status ack) (id_public_key self)
                   (hello_identity_pubkey hello) (ack_ephemeral_pubkey ack) (ack_server_nonce ack)
                   (ack_client_nonce ack))\<rparr>
         else ack)"

definition server_handshake ::
  "sodium \<Rightarrow> wire_globals \<Rightarrow> PosixTransport \<Rightarrow> Identity \<Rightarrow> string \<Rightarrow> ('w \<Rightarrow> PublicKey \<Rightarrow> bool ex \<times> 'w) \<Rightarrow> 'w
   \<Rightarrow> bytes \<Rightarrow> bytes \<Rightarrow> HsResult option ex \<times> PosixTransport \<times> 'w" where
  "server_handshake S g t self own_service_name is_trusted w eph_rnd nonce =
     (case read_frame t False of (fr, t1) \<Rightarrow>
       (case accepted fr of
          None \<Rightarrow> (Ret None, t1, w)
        | Some hello_frame \<Rightarrow>
            if rf_type hello_frame \<noteq> Hello then (Ret None, t1, w)
            else case accepted (decode_hello (rf_body hello_frame)) of
              None \<Rightarrow> (Ret None, t1, w)
            | Some hello \<Rightarrow>
                if hello_version hello \<noteq> kProtocolVersion then (Ret None, t1, w)
                else if hello_service_name hello \<noteq> own_service_name then (Ret None, t1, w)
                else let my_max = max_negotiable_version g;
                         negotiated = negotiate_version my_max (hello_max_version hello)
                     in if negotiated = 0 then (Ret None, t1, w)
                        else case (if server_check_hello S negotiated hello
                                   then is_trusted w (hello_identity_pubkey hello) else (Ret False, w)) of
                          (Throw e, w1) \<Rightarrow> (Throw e, t1, w1)
                        | (Ret trusted, w1) \<Rightarrow>
                            (case generate_ephemeral S eph_rnd of
                               Throw e \<Rightarrow> (Throw e, t1, w1)
                             | Ret ephemeral \<Rightarrow>
                                 let ack = server_ack S my_max self hello negotiated trusted ephemeral nonce;
                                     ack_frame = \<lparr>rf_type = HelloAck, rf_counter = 0, rf_epoch = 0,
                                                  rf_body = encode_hello_ack ack\<rparr>
                                 in case write_frame t1 ack_frame False of (sent, t2) \<Rightarrow>
                                    if \<not> sent \<or> \<not> trusted then (Ret None, t2, w1)
                                    else (ex_bind (server_session_keys S ephemeral (hello_ephemeral_pubkey hello)) (\<lambda>keys.
                                            Ret (Some \<lparr>hs_keys = keys, hs_peer_identity = hello_identity_pubkey hello,
                                                      hs_version = negotiated\<rparr>)), t2, w1))))"

text \<open>\<open>if (!write_frame(...)) return nullopt; if (!trusted) return nullopt;\<close> is one test in the model: both
  statements return the same value and nothing happens between them.\<close>

section \<open>Honest runs\<close>

text \<open>The messages each party signs in one handshake: one transcript, and at v2 a second one.\<close>

definition client_signs :: "u8 \<Rightarrow> Identity \<Rightarrow> string \<Rightarrow> bytes \<Rightarrow> bytes \<Rightarrow> bytes set" where
  "client_signs my_max self name eph_pk nonce =
     {hello_signed_bytes eph_pk nonce name}
     \<union> (if 2 \<le> my_max then {hello_signed_bytes_v2 my_max (id_public_key self) eph_pk nonce name} else {})"

definition server_signs ::
  "u8 \<Rightarrow> Identity \<Rightarrow> HelloPayload \<Rightarrow> u8 \<Rightarrow> bool \<Rightarrow> bytes \<Rightarrow> bytes \<Rightarrow> bytes set" where
  "server_signs my_max self hello negotiated trusted eph_pk nonce =
     {hello_ack_signed_bytes eph_pk nonce (hello_client_nonce hello)}
     \<union> (if 2 \<le> my_max then {hello_ack_signed_bytes_v2 my_max negotiated (if trusted then 0 else 1)
           (id_public_key self) (hello_identity_pubkey hello) eph_pk nonce (hello_client_nonce hello)} else {})"

lemma client_hello_nonce [simp]: "hello_client_nonce (client_hello S m self name eph nonce) = nonce"
  by (simp add: client_hello_def Let_def)

lemma length_encode_hello:
  "hello_wf h \<Longrightarrow> length (encode_hello h) \<le> 211 + length (hello_service_name h)"
  by (simp add: encode_hello_def hello_wf_def put_bytes_def put_str8_def Let_def)

lemma length_encode_hello_ack: "ack_wf a \<Longrightarrow> length (encode_hello_ack a) \<le> 227"
  by (simp add: encode_hello_ack_def ack_wf_def put_bytes_def Let_def)

lemma sign_length: "sodium_sizes S \<Longrightarrow> length (sign S sk m) = 64"
  by (simp add: sodium_sizes_def sign_def)

lemma generate_identity_Ret:
  assumes "generate_identity S r = Ret i" "sodium_sizes S"
  shows "crypto_sign_keypair S r = Some (id_public_key i, id_secret_key i)" "length (id_public_key i) = 32"
  using assms by (auto simp: generate_identity_def sodium_sizes_def split: option.splits)

lemma generate_ephemeral_Ret:
  assumes "generate_ephemeral S r = Ret e" "sodium_sizes S"
  shows "crypto_kx_keypair S r = Some (eph_public_key e, eph_secret_key e)" "length (eph_public_key e) = 32"
  using assms by (auto simp: generate_ephemeral_def sodium_sizes_def split: option.splits)

lemma verify_own:
  assumes "generate_identity S r = Ret i" "sodium_sizes S" "sign_correct S"
  shows "verify S (id_public_key i) m (sign S (id_secret_key i) m)"
  using generate_identity_Ret(1) [OF assms(1,2)] assms(3) by (simp add: sign_correct_def verify_def sign_def)

lemma client_hello_wf [wf_intros]:
  "sodium_sizes S \<Longrightarrow> length (id_public_key self) = 32 \<Longrightarrow> length (eph_public_key eph) = 32 \<Longrightarrow> length nonce = 16
   \<Longrightarrow> hello_wf (client_hello S m self name eph nonce)"
  by (simp add: client_hello_def hello_wf_def HelloPayload_init_def Let_def sign_length)

lemma server_ack_wf [wf_intros]:
  "sodium_sizes S \<Longrightarrow> length (id_public_key self) = 32 \<Longrightarrow> length (eph_public_key eph) = 32 \<Longrightarrow> length nonce = 16
   \<Longrightarrow> length (hello_client_nonce hello) = 16 \<Longrightarrow> ack_wf (server_ack S m self hello v tr eph nonce)"
  by (simp add: server_ack_def ack_wf_def HelloAckPayload_init_def Let_def sign_length)

lemma client_hello_fields [simp]:
  "hello_service_name (client_hello S m self name eph nonce) = name"
  "hello_max_version (client_hello S m self name eph nonce) = m"
  "hello_version (client_hello S m self name eph nonce) = kProtocolVersion"
  "hello_identity_pubkey (client_hello S m self name eph nonce) = id_public_key self"
  "hello_ephemeral_pubkey (client_hello S m self name eph nonce) = eph_public_key eph"
  by (simp_all add: client_hello_def HelloPayload_init_def Let_def)

lemma server_ack_fields [simp]:
  "ack_max_version (server_ack S m self hello v tr eph nonce) = m"
  "ack_identity_pubkey (server_ack S m self hello v tr eph nonce) = id_public_key self"
  "ack_ephemeral_pubkey (server_ack S m self hello v tr eph nonce) = eph_public_key eph"
  "ack_client_nonce (server_ack S m self hello v tr eph nonce) = hello_client_nonce hello"
  "ack_server_nonce (server_ack S m self hello v tr eph nonce) = nonce"
  "ack_status (server_ack S m self hello v tr eph nonce) = (if tr then 0 else 1)"
  by (simp_all add: server_ack_def HelloAckPayload_init_def Let_def)

lemma u8_one_or_two_le: "1 \<le> (m :: u8) \<Longrightarrow> \<not> 2 \<le> m \<Longrightarrow> m = 1"
  by unat_arith

lemma decode_client_hello:
  assumes "hello_wf (client_hello S m self name eph nonce)" "length name < 256" "1 \<le> m"
  shows "decode_hello (encode_hello (client_hello S m self name eph nonce))
    = Ok (client_hello S m self name eph nonce\<lparr>hello_has_v2_extension := 2 \<le> m\<rparr>)"
proof (cases "2 \<le> m")
  case False
  with assms(3) have "m = 1" by (rule u8_one_or_two_le)
  with assms show ?thesis
    by (simp add: hello_roundtrip) (simp add: client_hello_def HelloPayload_init_def Let_def)
qed (use assms in \<open>simp add: hello_roundtrip\<close>)

lemma decode_server_ack:
  assumes "ack_wf (server_ack S m self hello v tr eph nonce)" "1 \<le> m"
  shows "decode_hello_ack (encode_hello_ack (server_ack S m self hello v tr eph nonce))
    = Ok (server_ack S m self hello v tr eph nonce\<lparr>ack_has_v2_extension := 2 \<le> m\<rparr>)"
proof (cases "2 \<le> m")
  case False
  with assms(2) have "m = 1" by (rule u8_one_or_two_le)
  with assms show ?thesis
    by (simp add: hello_ack_roundtrip) (simp add: server_ack_def HelloAckPayload_init_def Let_def)
qed (use assms in \<open>simp add: hello_ack_roundtrip\<close>)

lemma server_check_client_hello:
  assumes "\<And>m'. m' \<in> client_signs m self name (eph_public_key eph) nonce
      \<Longrightarrow> verify S (id_public_key self) m' (sign S (id_secret_key self) m')"
    and "2 \<le> v \<Longrightarrow> 2 \<le> m"
  shows "server_check_hello S v (client_hello S m self name eph nonce\<lparr>hello_has_v2_extension := 2 \<le> m\<rparr>)"
  using assms
  by (auto simp: server_check_hello_def) (auto simp: client_hello_def Let_def HelloPayload_init_def client_signs_def)

lemma negotiate_le:
  assumes "1 \<le> a" "1 \<le> b"
  shows "negotiate_version a b = min a b" "negotiate_version a b \<noteq> 0" "2 \<le> negotiate_version a b \<longleftrightarrow> 2 \<le> a \<and> 2 \<le> b"
  using assms by (auto simp: negotiate_version_min min_def u8_one_le_iff split: if_splits)

lemma client_check_server_ack:
  assumes "\<And>m. m \<in> server_signs sm si hello v True (eph_public_key eph) nonce
      \<Longrightarrow> verify S (id_public_key si) m (sign S (id_secret_key si) m)"
    and "negotiate_version cm sm = v" "v \<noteq> 0" "2 \<le> v \<Longrightarrow> 2 \<le> sm"
    and "is_trusted (id_public_key si)" "hello_identity_pubkey hello = id_public_key ci"
  shows "client_check_ack S cm ci hello is_trusted
      (server_ack S sm si hello v True eph nonce\<lparr>ack_has_v2_extension := 2 \<le> sm\<rparr>) = Some v"
  using assms unfolding client_check_ack_def server_signs_def
  by (simp add: Let_def) (auto simp: server_ack_def Let_def HelloAckPayload_init_def)

lemma hello_frame_wf:
  "hello_wf h \<Longrightarrow> length (hello_service_name h) < 256 \<Longrightarrow>
   frame_wf False \<lparr>rf_type = Hello, rf_counter = 0, rf_epoch = 0, rf_body = encode_hello h\<rparr>"
  using length_encode_hello [of h] by (simp add: frame_wf_def frame_type_wf_def)

lemma ack_frame_wf:
  "ack_wf a \<Longrightarrow> frame_wf False \<lparr>rf_type = HelloAck, rf_counter = 0, rf_epoch = 0, rf_body = encode_hello_ack a\<rparr>"
  using length_encode_hello_ack [of a] by (simp add: frame_wf_def frame_type_wf_def)

lemma client_handshake_writes:
  assumes "generate_ephemeral S er = Ret eph" "healthy t"
  shows "k_out (snd (client_handshake S g t self name tr er nonce)) = k_out t @ frame_bytes False
    \<lparr>rf_type = Hello, rf_counter = 0, rf_epoch = 0,
     rf_body = encode_hello (client_hello S (max_negotiable_version g) self name eph nonce)\<rparr>"
  using assms
  by (auto simp: client_handshake_def write_frame_healthy Let_def dest: read_frame_k_out
      split: prod.splits option.splits ex.splits)

lemma server_handshake_honest:
  assumes S: "sodium_sizes S" and ids: "length (id_public_key ci) = 32"
    and vs: "\<And>m. m \<in> client_signs cm ci name (eph_public_key ce) nc
      \<Longrightarrow> verify S (id_public_key ci) m (sign S (id_secret_key ci) m)"
    and ephs: "generate_ephemeral S er = Ret ce" "generate_ephemeral S es = Ret se"
    and len: "length nc = 16" "length ns = 16" "length name < 256"
    and max: "1 \<le> max_negotiable_version gs" "1 \<le> cm" and t: "healthy t"
    and kin: "k_in t = frame_bytes False \<lparr>rf_type = Hello, rf_counter = 0, rf_epoch = 0,
      rf_body = encode_hello (client_hello S cm ci name ce nc)\<rparr>"
    and tr: "is_trusted w (id_public_key ci) = (Ret True, w')"
  shows "\<exists>hello. hello_client_nonce hello = nc \<and> hello_identity_pubkey hello = id_public_key ci
    \<and> server_handshake S gs t si name is_trusted w es ns =
      (ex_bind (server_session_keys S se (eph_public_key ce)) (\<lambda>keys. Ret (Some \<lparr>hs_keys = keys,
         hs_peer_identity = id_public_key ci, hs_version = negotiate_version (max_negotiable_version gs) cm\<rparr>)),
       t\<lparr>k_in := [], k_out := k_out t @ frame_bytes False \<lparr>rf_type = HelloAck, rf_counter = 0, rf_epoch = 0,
         rf_body = encode_hello_ack (server_ack S (max_negotiable_version gs) si hello
           (negotiate_version (max_negotiable_version gs) cm) True se ns)\<rparr>\<rparr>, w')"
proof -
  let ?h = "client_hello S cm ci name ce nc"
  have wf: "hello_wf ?h"
    using S ids generate_ephemeral_Ret(2) [OF ephs(1) S] len(1) by (intro wf_intros)
  have dec: "decode_hello (encode_hello ?h) = Ok (?h\<lparr>hello_has_v2_extension := 2 \<le> cm\<rparr>)"
    using wf len(3) max(2) by (rule decode_client_hello)
  have rd: "read_frame t False
      = (Ok \<lparr>rf_type = Hello, rf_counter = 0, rf_epoch = 0, rf_body = encode_hello ?h\<rparr>, t\<lparr>k_in := []\<rparr>)"
    using t kin hello_frame_wf [OF wf] len(3) by (intro read_frame_healthy) auto
  note n = negotiate_le [OF max]
  have chk: "server_check_hello S (negotiate_version (max_negotiable_version gs) cm)
      (?h\<lparr>hello_has_v2_extension := 2 \<le> cm\<rparr>)"
    using n(3) vs by (intro server_check_client_hello) auto
  show ?thesis
    by (rule exI [of _ "?h\<lparr>hello_has_v2_extension := 2 \<le> cm\<rparr>"])
      (simp add: server_handshake_def rd dec chk n(2) tr ephs(2) Let_def write_frame_healthy t)
qed

lemma client_handshake_honest:
  assumes S: "sodium_sizes S" and ids: "length (id_public_key si) = 32"
    and vs: "\<And>m. m \<in> server_signs sm si hello (negotiate_version sm (max_negotiable_version gc)) True (eph_public_key se) ns
      \<Longrightarrow> verify S (id_public_key si) m (sign S (id_secret_key si) m)"
    and ephs: "generate_ephemeral S er = Ret ce" "generate_ephemeral S es = Ret se"
    and len: "length (hello_client_nonce hello) = 16" "length ns = 16"
    and max: "1 \<le> max_negotiable_version gc" "1 \<le> sm" and t: "healthy t"
    and kin: "k_in t = frame_bytes False \<lparr>rf_type = HelloAck, rf_counter = 0, rf_epoch = 0,
      rf_body = encode_hello_ack (server_ack S sm si hello (negotiate_version sm (max_negotiable_version gc)) True se ns)\<rparr>"
    and hello: "hello_identity_pubkey hello = id_public_key ci" "hello_client_nonce hello = nc"
    and tr: "is_trusted (id_public_key si)"
  shows "client_handshake S gc t ci name is_trusted er nc =
      (ex_bind (client_session_keys S ce (eph_public_key se)) (\<lambda>keys. Ret (Some \<lparr>hs_keys = keys,
         hs_peer_identity = id_public_key si, hs_version = negotiate_version sm (max_negotiable_version gc)\<rparr>)),
       t\<lparr>k_in := [], k_out := k_out t @ frame_bytes False \<lparr>rf_type = Hello, rf_counter = 0, rf_epoch = 0,
         rf_body = encode_hello (client_hello S (max_negotiable_version gc) ci name ce nc)\<rparr>\<rparr>)"
proof -
  let ?cm = "max_negotiable_version gc"
  let ?v = "negotiate_version sm ?cm"
  let ?a = "server_ack S sm si hello ?v True se ns"
  let ?h = "client_hello S ?cm ci name ce nc"
  have wf: "ack_wf ?a"
    using S ids generate_ephemeral_Ret(2) [OF ephs(2) S] len by (intro wf_intros)
  have dec: "decode_hello_ack (encode_hello_ack ?a) = Ok (?a\<lparr>ack_has_v2_extension := 2 \<le> sm\<rparr>)"
    using wf max(2) by (rule decode_server_ack)
  have rd: "healthy u \<Longrightarrow> k_in u = k_in t \<Longrightarrow> read_frame u False
      = (Ok \<lparr>rf_type = HelloAck, rf_counter = 0, rf_epoch = 0, rf_body = encode_hello_ack ?a\<rparr>, u\<lparr>k_in := []\<rparr>)" for u
    using kin ack_frame_wf [OF wf] by (intro read_frame_healthy) auto
  note n = negotiate_le [OF max(2,1)]
  have "client_check_ack S ?cm ci hello is_trusted (?a\<lparr>ack_has_v2_extension := 2 \<le> sm\<rparr>) = Some ?v"
    using n(2,3) tr hello(1) vs by (intro client_check_server_ack)
      (auto simp: negotiate_version_commute [of ?cm])
  then have "client_check_ack S ?cm ci ?h is_trusted (?a\<lparr>ack_has_v2_extension := 2 \<le> sm\<rparr>) = Some ?v"
    by (simp add: client_check_ack_def hello)
  then show ?thesis
    by (simp add: client_handshake_def ephs(1) Let_def write_frame_healthy t rd dec)
qed

section \<open>What an accepting run has established\<close>

lemma client_handshake_SomeE:
  assumes "client_handshake S g t self name is_trusted eph_rnd nonce = (Ret (Some r), t')"
  obtains eph t1 ack_frame ack where
    "generate_ephemeral S eph_rnd = Ret eph"
    "write_frame t \<lparr>rf_type = Hello, rf_counter = 0, rf_epoch = 0,
       rf_body = encode_hello (client_hello S (max_negotiable_version g) self name eph nonce)\<rparr> False = (True, t1)"
    "read_frame t1 False = (Ok ack_frame, t')" "rf_type ack_frame = HelloAck"
    "decode_hello_ack (rf_body ack_frame) = Ok ack"
    "client_check_ack S (max_negotiable_version g) self
       (client_hello S (max_negotiable_version g) self name eph nonce) is_trusted ack = Some (hs_version r)"
    "client_session_keys S eph (ack_ephemeral_pubkey ack) = Ret (hs_keys r)"
    "hs_peer_identity r = ack_identity_pubkey ack"
  using assms
  by (auto simp: client_handshake_def Let_def ex_bind_eq_Ret_iff
      split: ex.splits prod.splits if_splits option.splits)

lemma server_handshake_SomeE:
  assumes "server_handshake S g t self name is_trusted w eph_rnd nonce = (Ret (Some r), t', w')"
  obtains hello_frame t1 hello eph where
    "read_frame t False = (Ok hello_frame, t1)" "rf_type hello_frame = Hello"
    "decode_hello (rf_body hello_frame) = Ok hello" "hello_version hello = kProtocolVersion"
    "hello_service_name hello = name"
    "hs_version r = negotiate_version (max_negotiable_version g) (hello_max_version hello)" "hs_version r \<noteq> 0"
    "server_check_hello S (hs_version r) hello" "is_trusted w (hello_identity_pubkey hello) = (Ret True, w')"
    "generate_ephemeral S eph_rnd = Ret eph"
    "server_session_keys S eph (hello_ephemeral_pubkey hello) = Ret (hs_keys r)"
    "hs_peer_identity r = hello_identity_pubkey hello"
  using assms
  by (auto simp: server_handshake_def Let_def ex_bind_eq_Ret_iff
      split: ex.splits prod.splits if_splits option.splits)

lemma client_check_ack_Some:
  assumes "client_check_ack S m self hello is_trusted ack = Some v"
  shows "ack_status ack = 0" "ack_client_nonce ack = hello_client_nonce hello" "is_trusted (ack_identity_pubkey ack)"
    "verify S (ack_identity_pubkey ack) (hello_ack_signed_bytes (ack_ephemeral_pubkey ack) (ack_server_nonce ack)
       (hello_client_nonce hello)) (ack_signature ack)"
    "v = negotiate_version m (ack_max_version ack)" "v \<noteq> 0"
    "2 \<le> v \<Longrightarrow> verify S (ack_identity_pubkey ack) (hello_ack_signed_bytes_v2 (ack_max_version ack) v 0
       (ack_identity_pubkey ack) (id_public_key self) (ack_ephemeral_pubkey ack) (ack_server_nonce ack)
       (hello_client_nonce hello)) (ack_signature_v2 ack)"
  using assms by (auto simp: client_check_ack_def Let_def split: if_splits)

lemma server_ack_signatures:
  "ack_signature (server_ack S m self hello v tr eph nonce)
     = sign S (id_secret_key self) (hello_ack_signed_bytes (eph_public_key eph) nonce (hello_client_nonce hello))"
  "2 \<le> m \<Longrightarrow> ack_signature_v2 (server_ack S m self hello v tr eph nonce)
     = sign S (id_secret_key self) (hello_ack_signed_bytes_v2 m v (if tr then 0 else 1) (id_public_key self)
         (hello_identity_pubkey hello) (eph_public_key eph) nonce (hello_client_nonce hello))"
  by (simp_all add: server_ack_def Let_def HelloAckPayload_init_def)

lemma ack_v2_in_server_signs:
  assumes "hello_ack_signed_bytes_v2 m v 0 si ci e sn cn \<in> server_signs m' self hello v' tr e' sn'"
    and "length si = 32" "length ci = 32" "length e = 32" "length sn = 16" "length cn = 16"
    and "hello_wf hello" "length (id_public_key self) = 32" "length e' = 32" "length sn' = 16"
  shows "m = m' \<and> v = v' \<and> tr \<and> si = id_public_key self \<and> ci = hello_identity_pubkey hello \<and> e = e'
    \<and> sn = sn' \<and> cn = hello_client_nonce hello"
proof -
  have "hello_ack_signed_bytes_v2 m v 0 si ci e sn cn \<noteq> hello_ack_signed_bytes e' sn' (hello_client_nonce hello)"
    using assms(2-) by (auto simp: hello_ack_signed_bytes_v2_def hello_ack_signed_bytes_def hello_wf_def
        dest!: arg_cong [of _ _ length])
  with assms show ?thesis
    by (auto simp: server_signs_def hello_wf_def hello_ack_signed_bytes_v2_inj split: if_splits)
qed

section \<open>A concrete run\<close>

text \<open>The instance the witnesses use: a version-2 client and server, each accepting the other.\<close>

definition toy_identity :: "bytes \<Rightarrow> Identity" where
  "toy_identity r = \<lparr>id_public_key = pad 32 r, id_secret_key = pad 32 r @ pad 32 r\<rparr>"

definition toy_eph :: "bytes \<Rightarrow> EphemeralKeyPair" where
  "toy_eph r = \<lparr>eph_public_key = 1 # pad 31 r, eph_secret_key = pad 32 r\<rparr>"

lemma toy_generate [simp]:
  "generate_identity toy_sodium r = Ret (toy_identity r)" "generate_ephemeral toy_sodium r = Ret (toy_eph r)"
  by (simp_all add: generate_identity_def generate_ephemeral_def toy_sodium_def toy_identity_def toy_eph_def)

lemma toy_id_pk [simp]: "id_public_key (toy_identity r) = pad 32 r"
  by (simp add: toy_identity_def)

lemma toy_eph_pk [simp]: "length (eph_public_key (toy_eph r)) = 32" "eph_public_key (toy_eph r) \<noteq> replicate 32 0"
  using toy_pk_nonzero by (simp_all add: toy_eph_def)

definition demo_hello :: bytes where
  "demo_hello = frame_bytes False \<lparr>rf_type = Hello, rf_counter = 0, rf_epoch = 0,
     rf_body = encode_hello (client_hello toy_sodium 2 (toy_identity [1]) ''notes'' (toy_eph [3]) (pad 16 [5]))\<rparr>"

definition demo_server_run :: "HsResult option ex \<times> PosixTransport \<times> unit" where
  "demo_server_run = server_handshake toy_sodium wire_globals_init ((posix_transport 4 0)\<lparr>k_in := demo_hello\<rparr>)
     (toy_identity [2]) ''notes'' (\<lambda>w pk. (Ret True, w)) () [4] (pad 16 [6])"

definition demo_client :: "bytes \<Rightarrow> HsResult option ex \<times> PosixTransport" where
  "demo_client inbound = client_handshake toy_sodium wire_globals_init ((posix_transport 3 0)\<lparr>k_in := inbound\<rparr>)
     (toy_identity [1]) ''notes'' (\<lambda>pk. True) [3] (pad 16 [5])"

lemma wire_globals_init_max [simp]: "max_negotiable_version wire_globals_init = 2"
  by (simp add: max_negotiable_version_def wire_globals_init_def kProtocolVersionMax_def)

lemma posix_transport_fresh [simp]:
  "healthy (posix_transport fd uid) \<longleftrightarrow> 0 \<le> fd" "k_out (posix_transport fd uid) = []" "k_in (posix_transport fd uid) = []"
  by (simp_all add: healthy_def posix_transport_def)

lemma u8_one_le_two [simp]: "(1 :: u8) \<le> 2"
  by (simp add: word_le_nat_alt)

lemma demo_client_writes: "k_out (snd (demo_client inbound)) = demo_hello"
  using client_handshake_writes [of toy_sodium "[3]" "toy_eph [3]" "(posix_transport 3 0)\<lparr>k_in := inbound\<rparr>"]
  by (simp add: demo_client_def demo_hello_def)

text \<open>Two honest parties over healthy sockets, each reading what the other writes.\<close>

lemma honest_handshakes:
  assumes "sodium_sizes S" "sign_correct S" "kx_agrees S"
    and "generate_identity S ri = Ret ci" "generate_identity S rj = Ret si"
    and "generate_ephemeral S er = Ret ce" "generate_ephemeral S es = Ret se"
    and "length nc = 16" "length ns = 16" "length name < 256"
    and "1 \<le> max_negotiable_version gc" "1 \<le> max_negotiable_version gs"
    and "healthy tc" "healthy ts" "trusts_server (id_public_key si)"
    and "trusts_client w (id_public_key ci) = (Ret True, w')"
    and hello: "k_in ts = frame_bytes False \<lparr>rf_type = Hello, rf_counter = 0, rf_epoch = 0,
      rf_body = encode_hello (client_hello S (max_negotiable_version gc) ci name ce nc)\<rparr>"
    and ack: "k_in tc = drop (length (k_out ts)) (k_out (fst (snd (server_handshake S gs ts si name trusts_client w es ns))))"
  obtains kc ks ab where
    "client_handshake S gc tc ci name trusts_server er nc = (Ret (Some \<lparr>hs_keys = kc, hs_peer_identity = id_public_key si,
       hs_version = min (max_negotiable_version gc) (max_negotiable_version gs)\<rparr>), tc\<lparr>k_in := [], k_out := k_out tc @ k_in ts\<rparr>)"
    "server_handshake S gs ts si name trusts_client w es ns = (Ret (Some \<lparr>hs_keys = ks, hs_peer_identity = id_public_key ci,
       hs_version = min (max_negotiable_version gc) (max_negotiable_version gs)\<rparr>), ts\<lparr>k_in := [], k_out := k_out ts @ ab\<rparr>, w')"
    "sk_tx kc = sk_rx ks" "sk_rx kc = sk_tx ks" "length (sk_tx kc) = 32" "length (sk_rx kc) = 32" "k_in tc = ab"
proof -
  let ?cm = "max_negotiable_version gc" and ?sm = "max_negotiable_version gs"
  note len = generate_identity_Ret(2) [OF assms(4,1)] generate_identity_Ret(2) [OF assms(5,1)]
  obtain hello where h: "hello_client_nonce hello = nc" "hello_identity_pubkey hello = id_public_key ci"
    and srv: "server_handshake S gs ts si name trusts_client w es ns =
      (ex_bind (server_session_keys S se (eph_public_key ce)) (\<lambda>keys. Ret (Some \<lparr>hs_keys = keys,
         hs_peer_identity = id_public_key ci, hs_version = negotiate_version ?sm ?cm\<rparr>)),
       ts\<lparr>k_in := [], k_out := k_out ts @ frame_bytes False \<lparr>rf_type = HelloAck, rf_counter = 0, rf_epoch = 0,
         rf_body = encode_hello_ack (server_ack S ?sm si hello (negotiate_version ?sm ?cm) True se ns)\<rparr>\<rparr>, w')"
    using server_handshake_honest [OF assms(1) len(1) verify_own [OF assms(4,1,2)] assms(6-10,12,11,14) hello,
        of trusts_client w w' si] assms(16) by auto
  have kin: "k_in tc = frame_bytes False \<lparr>rf_type = HelloAck, rf_counter = 0, rf_epoch = 0,
      rf_body = encode_hello_ack (server_ack S ?sm si hello (negotiate_version ?sm ?cm) True se ns)\<rparr>"
    using ack srv by auto
  have cl: "client_handshake S gc tc ci name trusts_server er nc = (ex_bind (client_session_keys S ce (eph_public_key se)) (\<lambda>keys. Ret (Some \<lparr>hs_keys = keys,
         hs_peer_identity = id_public_key si, hs_version = negotiate_version ?sm ?cm\<rparr>)), tc\<lparr>k_in := [], k_out := k_out tc @ k_in ts\<rparr>)"
    using client_handshake_honest [OF assms(1) len(2) verify_own [OF assms(5,1,2)] assms(6,7) _ assms(9,11,12,13) kin h(2,1),
        of trusts_server name] assms(8,15) h(1) hello by simp
  obtain a b where ab: "crypto_kx_client_session_keys S (eph_public_key ce) (eph_secret_key ce) (eph_public_key se) = Some (a, b)"
    "crypto_kx_server_session_keys S (eph_public_key se) (eph_secret_key se) (eph_public_key ce) = Some (b, a)"
    using assms(3) generate_ephemeral_Ret(1) [OF assms(6,1)] generate_ephemeral_Ret(1) [OF assms(7,1)]
    unfolding kx_agrees_def by metis
  have l: "length a = 32" "length b = 32" using ab(1) assms(1) by (auto simp: sodium_sizes_def)
  have v: "negotiate_version ?sm ?cm = min ?cm ?sm" using negotiate_le(1) [OF assms(12,11)] by (simp add: min.commute)
  from ab cl srv kin v l show ?thesis
    by (intro that [of "\<lparr>sk_rx = a, sk_tx = b\<rparr>" "\<lparr>sk_rx = b, sk_tx = a\<rparr>"]) (simp_all add: client_session_keys_def server_session_keys_def)
qed

section \<open>Properties\<close>

text \<open>C4: two honest parties whose trust callbacks accept each other both complete the handshake: each
  learns the other's identity key, both negotiate the smaller of the two advertised versions, and the
  session keys agree with the directions exchanged. Each side reads exactly what the other wrote.\<close>

theorem handshake_agreement:
  assumes "sodium_sizes S" "sign_correct S" "kx_agrees S"
    and "generate_identity S ri = Ret ci" "generate_identity S rj = Ret si"
    and "generate_ephemeral S er = Ret ce" "generate_ephemeral S es = Ret se"
    and "length nc = 16" "length ns = 16" "length name < 256"
    and "1 \<le> max_negotiable_version gc" "1 \<le> max_negotiable_version gs"
    and "healthy tc" "healthy ts" "trusts_server (id_public_key si)"
    and "trusts_client w (id_public_key ci) = (Ret True, w')"
    and "client_handshake S gc tc ci name trusts_server er nc = (rc, tc')"
    and "server_handshake S gs ts si name trusts_client w es ns = (rs, ts', w'')"
    and "k_in ts = drop (length (k_out tc)) (k_out tc')" "k_in tc = drop (length (k_out ts)) (k_out ts')"
  shows "\<exists>kc ks. rc = Ret (Some \<lparr>hs_keys = kc, hs_peer_identity = id_public_key si,
            hs_version = min (max_negotiable_version gc) (max_negotiable_version gs)\<rparr>)
    \<and> rs = Ret (Some \<lparr>hs_keys = ks, hs_peer_identity = id_public_key ci,
            hs_version = min (max_negotiable_version gc) (max_negotiable_version gs)\<rparr>)
    \<and> sk_tx kc = sk_rx ks \<and> sk_rx kc = sk_tx ks"
proof -
  have hello: "k_in ts = frame_bytes False \<lparr>rf_type = Hello, rf_counter = 0, rf_epoch = 0,
      rf_body = encode_hello (client_hello S (max_negotiable_version gc) ci name ce nc)\<rparr>"
    using assms(17,19) client_handshake_writes [OF assms(6,13), of gc ci name trusts_server nc] by simp
  have ack: "k_in tc = drop (length (k_out ts)) (k_out (fst (snd (server_handshake S gs ts si name trusts_client w es ns))))"
    using assms(18,20) by simp
  show ?thesis
    using assms(17,18) honest_handshakes [where w = w and w' = w' and trusts_client = trusts_client and trusts_server = trusts_server,
        OF assms(1-16) hello ack] by (metis prod.inject)
qed

theorem handshake_agreement_witness:
  "\<exists>kc ks. fst (demo_client (k_out (fst (snd demo_server_run))))
      = Ret (Some \<lparr>hs_keys = kc, hs_peer_identity = pad 32 [2], hs_version = 2\<rparr>)
    \<and> fst demo_server_run = Ret (Some \<lparr>hs_keys = ks, hs_peer_identity = pad 32 [1], hs_version = 2\<rparr>)
    \<and> sk_tx kc = sk_rx ks \<and> sk_rx kc = sk_tx ks"
proof -
  obtain rs ts' where s: "demo_server_run = (rs, ts', ())" by (cases demo_server_run) auto
  obtain rc tc' where c: "demo_client (k_out ts') = (rc, tc')" by fastforce
  have "k_out tc' = demo_hello" using demo_client_writes [of "k_out ts'"] c by simp
  then have "\<exists>kc ks. rc = Ret (Some \<lparr>hs_keys = kc, hs_peer_identity = pad 32 [2], hs_version = 2\<rparr>)
    \<and> rs = Ret (Some \<lparr>hs_keys = ks, hs_peer_identity = pad 32 [1], hs_version = 2\<rparr>)
    \<and> sk_tx kc = sk_rx ks \<and> sk_rx kc = sk_tx ks"
    using handshake_agreement [OF toy_sizes toy_sign_correct toy_kx_agrees toy_generate(1) toy_generate(1)
        toy_generate(2) toy_generate(2) length_pad length_pad _ _ _ _ _ _ _
        c [unfolded demo_client_def] s [unfolded demo_server_run_def]]
    by (simp add: toy_identity_def)
  then show ?thesis unfolding s fst_conv snd_conv c .
qed


definition demo_srv :: sodium where
  "demo_srv = toy_sodium\<lparr>crypto_sign_verify_detached := \<lambda>pk m sig. pk = pad 32 [2]
     \<and> m \<in> server_signs 2 (toy_identity [2]) (client_hello toy_sodium 2 (toy_identity [1]) ''notes'' (toy_eph [3]) (pad 16 [5]))
           2 True (eph_public_key (toy_eph [4])) (pad 16 [6])\<rparr>"

lemma demo_srv_fields:
  "sodium_sizes demo_srv" "generate_ephemeral demo_srv r = Ret (toy_eph r)"
  "client_session_keys demo_srv e pk = client_session_keys toy_sodium e pk"
  "verify demo_srv (pad 32 [2]) m sig \<longleftrightarrow> m \<in> server_signs 2 (toy_identity [2])
     (client_hello toy_sodium 2 (toy_identity [1]) ''notes'' (toy_eph [3]) (pad 16 [5])) 2 True
     (eph_public_key (toy_eph [4])) (pad 16 [6])"
  using toy_sizes toy_generate(2) [of r]
  by (simp_all add: demo_srv_def sodium_sizes_def generate_ephemeral_def client_session_keys_def verify_def)

lemma toy_client_keys: "pk \<noteq> replicate 32 0 \<Longrightarrow> \<exists>k. client_session_keys toy_sodium e pk = Ret k"
  by (simp add: client_session_keys_def toy_sodium_def toy_kx_def)



definition demo_clt :: sodium where
  "demo_clt = toy_sodium\<lparr>crypto_sign_verify_detached := \<lambda>pk m sig. pk = pad 32 [1]
     \<and> m \<in> client_signs 2 (toy_identity [1]) ''notes'' (eph_public_key (toy_eph [3])) (pad 16 [5])\<rparr>"

lemma demo_clt_fields:
  "sodium_sizes demo_clt" "generate_ephemeral demo_clt r = Ret (toy_eph r)"
  "server_session_keys demo_clt e pk = server_session_keys toy_sodium e pk"
  "verify demo_clt (pad 32 [1]) m sig
     \<longleftrightarrow> m \<in> client_signs 2 (toy_identity [1]) ''notes'' (eph_public_key (toy_eph [3])) (pad 16 [5])"
  using toy_sizes toy_generate(2) [of r]
  by (simp_all add: demo_clt_def sodium_sizes_def generate_ephemeral_def server_session_keys_def verify_def)

lemma toy_server_keys: "pk \<noteq> replicate 32 0 \<Longrightarrow> \<exists>k. server_session_keys toy_sodium e pk = Ret k"
  by (simp add: server_session_keys_def toy_sodium_def toy_kx_def)


lemma encode_hello_ack_strip:
  "2 \<le> ack_max_version a \<Longrightarrow> ack_wf a \<Longrightarrow>
   take (length (encode_hello_ack a) - 65) (encode_hello_ack a) = encode_hello_ack (a\<lparr>ack_max_version := 1\<rparr>)"
  by (simp add: encode_hello_ack_def put_bytes_def Let_def ack_wf_def)

lemma negotiate_one: "1 \<le> m \<Longrightarrow> negotiate_version m 1 = 1"
  by (simp add: negotiate_version_def kProtocolVersionMin_def Let_def) (unat_arith)

lemma client_handshake_stripped_ack:
  assumes S: "sodium_sizes S" "sign_correct S" and ids: "generate_identity S rj = Ret si"
    and ephs: "generate_ephemeral S er = Ret ce" "generate_ephemeral S es = Ret se"
    and len: "length nc = 16" "length ns = 16" "hello_client_nonce hello = nc"
    and max: "1 \<le> max_negotiable_version gc" "2 \<le> sm" and t: "healthy t"
    and a: "a = server_ack S sm si hello v True se ns"
    and kin: "k_in t = frame_bytes False \<lparr>rf_type = HelloAck, rf_counter = 0, rf_epoch = 0,
      rf_body = take (length (encode_hello_ack a) - 65) (encode_hello_ack a)\<rparr>"
    and tr: "is_trusted (id_public_key si)"
  shows "fst (client_handshake S gc t ci name is_trusted er nc) =
      ex_bind (client_session_keys S ce (eph_public_key se)) (\<lambda>keys. Ret (Some \<lparr>hs_keys = keys,
         hs_peer_identity = id_public_key si, hs_version = 1\<rparr>))"
proof -
  let ?cm = "max_negotiable_version gc"
  define b where "b = a\<lparr>ack_max_version := 1\<rparr>"
  have wfa: "ack_wf a"
    unfolding a using S(1) generate_identity_Ret(2) [OF ids S(1)] generate_ephemeral_Ret(2) [OF ephs(2) S(1)] len
    by (intro wf_intros) auto
  then have wf: "ack_wf b" by (simp add: b_def ack_wf_def)
  have strip: "take (length (encode_hello_ack a) - 65) (encode_hello_ack a) = encode_hello_ack b"
    unfolding b_def by (rule encode_hello_ack_strip) (use max(2) wfa in \<open>simp_all add: a\<close>)
  have dec: "decode_hello_ack (encode_hello_ack b) = Ok (b\<lparr>ack_max_version := 1,
      ack_signature_v2 := replicate 64 0, ack_has_v2_extension := False\<rparr>)"
    using hello_ack_roundtrip [OF wf] by (simp add: b_def)
  have rd: "healthy u \<Longrightarrow> k_in u = k_in t \<Longrightarrow> read_frame u False
      = (Ok \<lparr>rf_type = HelloAck, rf_counter = 0, rf_epoch = 0, rf_body = encode_hello_ack b\<rparr>, u\<lparr>k_in := []\<rparr>)" for u
    using kin ack_frame_wf [OF wf] unfolding strip by (intro read_frame_healthy) auto
  have "client_check_ack S ?cm ci (client_hello S ?cm ci name ce nc) is_trusted (b\<lparr>ack_max_version := 1,
      ack_signature_v2 := replicate 64 0, ack_has_v2_extension := False\<rparr>) = Some 1"
    using verify_own [OF ids S] tr len(3) negotiate_one [OF max(1)]
    by (simp add: client_check_ack_def b_def a server_ack_signatures)
  then show ?thesis
    by (simp add: client_handshake_def ephs(1) Let_def write_frame_healthy t rd dec) (simp add: b_def a)
qed

text \<open>C40: tampering with one side only is not always refused by the handshake itself. When the version
  extension is cut off the HELLO_ACK of a version-2 server on its way to a client, both handshakes
  succeed: the server goes on at version 2 and the client at version 1.\<close>

theorem stripped_ack_splits_versions:
  assumes "sodium_sizes S" "sign_correct S" "kx_agrees S"
    and "generate_identity S ri = Ret ci" "generate_identity S rj = Ret si"
    and "generate_ephemeral S er = Ret ce" "generate_ephemeral S es = Ret se"
    and "length nc = 16" "length ns = 16" "length name < 256"
    and "2 \<le> max_negotiable_version gc" "2 \<le> max_negotiable_version gs" "healthy tc" "healthy ts"
    and "trusts_server (id_public_key si)" "trusts_client w (id_public_key ci) = (Ret True, w')"
    and "k_in ts = frame_bytes False \<lparr>rf_type = Hello, rf_counter = 0, rf_epoch = 0,
       rf_body = encode_hello (client_hello S (max_negotiable_version gc) ci name ce nc)\<rparr>"
    and "server_handshake S gs ts si name trusts_client w es ns = (rs, ts', w'')"
    and "k_out ts' = k_out ts @ frame_bytes False \<lparr>rf_type = HelloAck, rf_counter = 0, rf_epoch = 0, rf_body = ack\<rparr>"
    and "k_in tc = frame_bytes False \<lparr>rf_type = HelloAck, rf_counter = 0, rf_epoch = 0,
       rf_body = take (length ack - 65) ack\<rparr>"
  shows "(\<exists>ks. rs = Ret (Some ks) \<and> 2 \<le> hs_version ks)
    \<and> (\<exists>kc. fst (client_handshake S gc tc ci name trusts_server er nc) = Ret (Some kc) \<and> hs_version kc = 1)"
proof -
  let ?cm = "max_negotiable_version gc" and ?sm = "max_negotiable_version gs"
  have one: "1 \<le> ?cm" "1 \<le> ?sm" using assms(11,12) by unat_arith+
  note len = generate_identity_Ret(2) [OF assms(4,1)] generate_identity_Ret(2) [OF assms(5,1)]
  obtain hello where h: "hello_client_nonce hello = nc"
    and srv: "server_handshake S gs ts si name trusts_client w es ns =
      (ex_bind (server_session_keys S se (eph_public_key ce)) (\<lambda>keys. Ret (Some \<lparr>hs_keys = keys,
         hs_peer_identity = id_public_key ci, hs_version = negotiate_version ?sm ?cm\<rparr>)),
       ts\<lparr>k_in := [], k_out := k_out ts @ frame_bytes False \<lparr>rf_type = HelloAck, rf_counter = 0, rf_epoch = 0,
         rf_body = encode_hello_ack (server_ack S ?sm si hello (negotiate_version ?sm ?cm) True se ns)\<rparr>\<rparr>, w')"
    using server_handshake_honest [OF assms(1) len(1) verify_own [OF assms(4,1,2)] assms(6-10) one(2,1) assms(14,17),
        of trusts_client w w' si] assms(16) by auto
  have ack: "ack = encode_hello_ack (server_ack S ?sm si hello (negotiate_version ?sm ?cm) True se ns)"
    using srv assms(18,19) by (auto simp: frame_bytes_def dest!: append_eq_append_conv [THEN iffD1, rotated])
  obtain a b where ab: "crypto_kx_client_session_keys S (eph_public_key ce) (eph_secret_key ce) (eph_public_key se) = Some (a, b)"
    "crypto_kx_server_session_keys S (eph_public_key se) (eph_secret_key se) (eph_public_key ce) = Some (b, a)"
    using assms(3) generate_ephemeral_Ret(1) [OF assms(6,1)] generate_ephemeral_Ret(1) [OF assms(7,1)]
    unfolding kx_agrees_def by metis
  have "2 \<le> negotiate_version ?sm ?cm" using negotiate_le(3) [OF one(2,1)] assms(11,12) by simp
  with client_handshake_stripped_ack [OF assms(1,2,5-9) h one(1) assms(12,13) refl assms(20) [unfolded ack], of trusts_server ci name]
    srv assms(15,18) ab show ?thesis
    by (auto simp: client_session_keys_def server_session_keys_def)
qed

lemma demo_server_writes:
  "\<exists>ack. k_out (fst (snd demo_server_run)) = frame_bytes False \<lparr>rf_type = HelloAck, rf_counter = 0, rf_epoch = 0, rf_body = ack\<rparr>"
  using server_handshake_honest [of toy_sodium "toy_identity [1]" 2 "''notes''" "toy_eph [3]" "pad 16 [5]"
        "[3]" "[4]" "toy_eph [4]" "pad 16 [6]" wire_globals_init "(posix_transport 4 0)\<lparr>k_in := demo_hello\<rparr>"
        "\<lambda>w pk. (Ret True, w)" "()" "()" "toy_identity [2]"] verify_own [OF toy_generate(1) toy_sizes toy_sign_correct]
  by (auto simp: demo_server_run_def demo_hello_def toy_sizes)

theorem stripped_ack_splits_versions_witness:
  "\<exists>ack. k_out (fst (snd demo_server_run)) = frame_bytes False \<lparr>rf_type = HelloAck, rf_counter = 0, rf_epoch = 0, rf_body = ack\<rparr>
    \<and> (\<exists>ks. fst demo_server_run = Ret (Some ks) \<and> 2 \<le> hs_version ks)
    \<and> (\<exists>kc. fst (demo_client (frame_bytes False \<lparr>rf_type = HelloAck, rf_counter = 0, rf_epoch = 0,
          rf_body = take (length ack - 65) ack\<rparr>)) = Ret (Some kc) \<and> hs_version kc = 1)"
proof -
  obtain ack where w: "k_out (fst (snd demo_server_run))
      = frame_bytes False \<lparr>rf_type = HelloAck, rf_counter = 0, rf_epoch = 0, rf_body = ack\<rparr>"
    using demo_server_writes by blast
  obtain rs ts' where s: "demo_server_run = (rs, ts', ())" by (cases demo_server_run) auto
  have w': "k_out ts' = frame_bytes False \<lparr>rf_type = HelloAck, rf_counter = 0, rf_epoch = 0, rf_body = ack\<rparr>"
    using w unfolding s fst_conv snd_conv .
  let ?tc = "(posix_transport 3 0)\<lparr>k_in := frame_bytes False \<lparr>rf_type = HelloAck, rf_counter = 0, rf_epoch = 0,
          rf_body = take (length ack - 65) ack\<rparr>\<rparr>"
  have "(\<exists>ks. rs = Ret (Some ks) \<and> 2 \<le> hs_version ks)
    \<and> (\<exists>kc. fst (client_handshake toy_sodium wire_globals_init ?tc (toy_identity [1]) ''notes'' (\<lambda>pk. True) [3] (pad 16 [5]))
        = Ret (Some kc) \<and> hs_version kc = 1)"
    by (rule stripped_ack_splits_versions [OF toy_sizes toy_sign_correct toy_kx_agrees toy_generate(1) toy_generate(1)
        toy_generate(2) toy_generate(2) length_pad length_pad _ _ _ _ _ _ _ _ s [unfolded demo_server_run_def]])
      (use w' in \<open>simp_all add: demo_hello_def\<close>)
  then show ?thesis using w unfolding s demo_client_def fst_conv snd_conv by blast
qed

end
