(* ===== verification/Epx_Session.thy ===== *)
theory Epx_Session
  imports Epx_Handshake
begin

text \<open>
  The encrypted session after the handshake, as both sides run it: \<open>ConnState\<close> and the receive state of
  \<^verbatim>\<open>src/host.cpp\<close> (\<open>handle_connection\<close>), \<open>Connection\<close>, its send path and the reader's key handling of
  \<^verbatim>\<open>src/client.cpp\<close>. A mutex-protected section is one step of the model; the sections themselves are
  interleaved freely by the step relation of \<open>Epx_Rotation\<close>. Time is the steady clock in nanoseconds
  and an argument, as are the random bytes of a fresh ephemeral key.
\<close>

section \<open>Receiving: counters, epochs and keys\<close>

record RxState =
  rx_key :: bytes
  rx_epoch :: u8
  rx_counter :: u64
  rx_pending :: "bytes option"

definition rx_start :: "bytes \<Rightarrow> RxState" where
  "rx_start key = \<lparr>rx_key = key, rx_epoch = 0, rx_counter = 0, rx_pending = None\<rparr>"

definition open_checked :: "sodium \<Rightarrow> bool \<Rightarrow> RxState \<Rightarrow> RawFrame \<Rightarrow> bytes option \<times> RxState" where
  "open_checked S v2 rx f =
     (if \<not> v2 then
        if rf_counter f \<noteq> rx_counter rx then (None, rx)
        else (case open_v1 S (rx_key rx) (rf_counter f) (u8_of_frame_type (rf_type f)) (rf_body f) of
                None \<Rightarrow> (None, rx)
              | Some o' \<Rightarrow> (Some o', rx\<lparr>rx_counter := rx_counter rx + 1\<rparr>))
      else if rf_epoch f = rx_epoch rx then
        if rf_counter f \<noteq> rx_counter rx then (None, rx)
        else (case open_v2 S (rx_key rx) (rf_counter f) (rf_epoch f) (u8_of_frame_type (rf_type f)) (rf_body f) of
                None \<Rightarrow> (None, rx)
              | Some o' \<Rightarrow> (Some o', rx\<lparr>rx_counter := rx_counter rx + 1\<rparr>))
      else (case rx_pending rx of
              Some pending \<Rightarrow>
                if rf_epoch f = rx_epoch rx + 1 then
                  if rf_counter f \<noteq> 0 then (None, rx)
                  else (case open_v2 S pending 0 (rf_epoch f) (u8_of_frame_type (rf_type f)) (rf_body f) of
                          None \<Rightarrow> (None, rx)
                        | Some o' \<Rightarrow> (Some o', rx\<lparr>rx_key := pending, rx_pending := None,
                                             rx_epoch := rx_epoch rx + 1, rx_counter := 1\<rparr>))
                else (None, rx)
            | None \<Rightarrow> (None, rx)))"

section \<open>The host's sending half\<close>

record ConnState =
  cs_t :: PosixTransport
  cs_tx_key :: bytes
  cs_v2 :: bool
  cs_epoch :: u8
  cs_tx_counter :: u64
  cs_alive :: bool

definition ConnState_init :: "PosixTransport \<Rightarrow> bytes \<Rightarrow> bool \<Rightarrow> ConnState" where
  "ConnState_init t tx_key v2 = \<lparr>cs_t = t, cs_tx_key = tx_key, cs_v2 = v2, cs_epoch = 0,
     cs_tx_counter = 0, cs_alive = True\<rparr>"

definition send_sealed :: "sodium \<Rightarrow> ConnState \<Rightarrow> FrameType \<Rightarrow> bytes \<Rightarrow> bool \<times> ConnState" where
  "send_sealed S cs ty plaintext =
     (if \<not> cs_alive cs then (False, cs)
      else let ct = (if cs_v2 cs
                     then seal_v2 S (cs_tx_key cs) (cs_tx_counter cs) (cs_epoch cs) (u8_of_frame_type ty) plaintext
                     else seal S (cs_tx_key cs) (cs_tx_counter cs) (u8_of_frame_type ty) plaintext)
           in case write_frame (cs_t cs) \<lparr>rf_type = ty, rf_counter = cs_tx_counter cs, rf_epoch = cs_epoch cs,
                                          rf_body = ct\<rparr> (cs_v2 cs) of (ok, t') \<Rightarrow>
              (ok, cs\<lparr>cs_t := t', cs_tx_counter := cs_tx_counter cs + 1, cs_alive := ok\<rparr>))"

definition send_chunk :: "sodium \<Rightarrow> ConnState \<Rightarrow> u64 \<Rightarrow> u32 \<Rightarrow> bool \<Rightarrow> bytes \<Rightarrow> bool \<times> ConnState" where
  "send_chunk S cs request_id sq is_last dat =
     send_sealed S cs StreamChunk (encode_stream_chunk \<lparr>chunk_request_id = request_id, chunk_seq = sq,
       chunk_is_last = is_last, chunk_endpoint = [], chunk_data = dat\<rparr>)"

definition send_ping :: "ConnState \<Rightarrow> bool \<times> ConnState" where
  "send_ping cs =
     (if \<not> cs_alive cs then (False, cs)
      else case write_frame (cs_t cs) \<lparr>rf_type = Ping, rf_counter = 0, rf_epoch = 0, rf_body = []\<rparr> (cs_v2 cs) of
        (ok, t') \<Rightarrow> (ok, cs\<lparr>cs_t := t', cs_alive := ok\<rparr>))"

definition send_rekey_ack_and_switch :: "sodium \<Rightarrow> ConnState \<Rightarrow> bytes \<Rightarrow> bytes \<Rightarrow> bool \<times> ConnState" where
  "send_rekey_ack_and_switch S cs eph_pk new_tx_key =
     (if \<not> cs_alive cs then (False, cs)
      else let ct = seal_v2 S (cs_tx_key cs) (cs_tx_counter cs) (cs_epoch cs) (u8_of_frame_type RekeyAck) eph_pk
           in case write_frame (cs_t cs) \<lparr>rf_type = RekeyAck, rf_counter = cs_tx_counter cs,
                                          rf_epoch = cs_epoch cs, rf_body = ct\<rparr> True of (ok, t') \<Rightarrow>
              if \<not> ok then (False, cs\<lparr>cs_t := t', cs_alive := False\<rparr>)
              else (True, cs\<lparr>cs_t := t', cs_tx_key := new_tx_key, cs_epoch := cs_epoch cs + 1,
                            cs_tx_counter := 0\<rparr>))"

text \<open>
  One turn of the host's receive loop up to the point where a payload is handed to the application
  part: \<open>HAgain\<close> is \<open>continue\<close>, \<open>HStop\<close> is \<open>break\<close>, \<open>HThrow\<close> an exception that leaves the loop. The
  answer to a PING takes the send mutex but looks at neither \<open>alive\<close> nor the result of the write.
\<close>

datatype host_event = HAgain | HStop | HChunk bytes | HRequest bytes | HThrow exn

definition host_recv :: "sodium \<Rightarrow> ConnState \<Rightarrow> RxState \<Rightarrow> bytes \<Rightarrow> host_event \<times> ConnState \<times> RxState" where
  "host_recv S cs rx eph_rnd =
     (case read_frame (cs_t cs) (cs_v2 cs) of (fr, t1) \<Rightarrow>
       let cs = cs\<lparr>cs_t := t1\<rparr>
       in case accepted fr of
         None \<Rightarrow> (HStop, cs, rx)
       | Some frame \<Rightarrow>
           (case rf_type frame of
              Ping \<Rightarrow>
                (HAgain, cs\<lparr>cs_t := snd (write_frame (cs_t cs)
                   \<lparr>rf_type = Pong, rf_counter = 0, rf_epoch = 0, rf_body = []\<rparr> (cs_v2 cs))\<rparr>, rx)
            | Pong \<Rightarrow> (HAgain, cs, rx)
            | Bye \<Rightarrow> (HStop, cs, rx)
            | Rekey \<Rightarrow>
                if \<not> cs_v2 cs then (HStop, cs, rx)
                else (case open_checked S (cs_v2 cs) rx frame of
                   (None, rx1) \<Rightarrow> (HStop, cs, rx1)
                 | (Some opened, rx1) \<Rightarrow>
                     if length opened \<noteq> 32 then (HStop, cs, rx1)
                     else if 255 \<le> cs_epoch cs then (HStop, cs, rx1)
                     else case generate_ephemeral S eph_rnd of
                       Throw e \<Rightarrow> (HThrow e, cs, rx1)
                     | Ret eph \<Rightarrow>
                         (case server_session_keys S eph opened of
                            Throw e \<Rightarrow> (HThrow e, cs, rx1)
                          | Ret nk \<Rightarrow>
                              (case send_rekey_ack_and_switch S cs (eph_public_key eph) (sk_tx nk) of
                                 (ok, cs1) \<Rightarrow> if \<not> ok then (HStop, cs1, rx1)
                                               else (HAgain, cs1, rx1\<lparr>rx_pending := Some (sk_rx nk)\<rparr>))))
            | StreamChunk \<Rightarrow>
                (case open_checked S (cs_v2 cs) rx frame of
                   (None, rx1) \<Rightarrow> (HStop, cs, rx1)
                 | (Some opened, rx1) \<Rightarrow> (HChunk opened, cs, rx1))
            | Request \<Rightarrow>
                (case open_checked S (cs_v2 cs) rx frame of
                   (None, rx1) \<Rightarrow> (HStop, cs, rx1)
                 | (Some opened, rx1) \<Rightarrow> (HRequest opened, cs, rx1))
            | _ \<Rightarrow> (HAgain, cs, rx)))"

section \<open>The client's connection\<close>

text \<open>
  A callback is known by the number of the application's callable. The sink of a subscription wraps it
  together with the subscription's shared \<open>active\<close> flag (\<open>None\<close>: the application passed an empty one).
\<close>

datatype Callback = StreamCb nat | SubscriptionCb nat "nat option"

record StreamSink =
  sink_callback :: "Callback option"
  sink_done :: bool
  sink_activity :: u64
  sink_failed :: bool
  sink_fail_status :: u8
  sink_fail_message :: string
  sink_subscription :: bool

definition StreamSink_init :: StreamSink where
  "StreamSink_init = \<lparr>sink_callback = None, sink_done = False, sink_activity = 0, sink_failed = False,
     sink_fail_status = 0, sink_fail_message = [], sink_subscription = False\<rparr>"

record Connection =
  conn_transport :: PosixTransport
  conn_keys :: SessionKeys
  conn_version :: u8
  conn_tx_counter :: u64
  conn_epoch :: u8
  conn_next_request_id :: u64
  conn_rotation :: RotationPolicy
  conn_last_rotation :: int
  conn_bytes_since_rotation :: u64
  conn_rekey_in_progress :: bool
  conn_pending_eph :: "EphemeralKeyPair option"
  conn_alive :: bool
  conn_death_reason :: u16
  conn_death_message :: string
  conn_pending :: "(u64 \<times> ResponsePayload option) list"
  conn_stream_sinks :: "(u64 \<times> StreamSink) list"

definition Connection_init :: "PosixTransport \<Rightarrow> SessionKeys \<Rightarrow> u8 \<Rightarrow> RotationPolicy \<Rightarrow> int \<Rightarrow> Connection" where
  "Connection_init t keys version rotation now = \<lparr>conn_transport = t, conn_keys = keys, conn_version = version,
     conn_tx_counter = 0, conn_epoch = 0, conn_next_request_id = 1, conn_rotation = rotation,
     conn_last_rotation = now, conn_bytes_since_rotation = 0, conn_rekey_in_progress = False,
     conn_pending_eph = None, conn_alive = True, conn_death_reason = 0, conn_death_message = [],
     conn_pending = [], conn_stream_sinks = []\<rparr>"

definition send_frame_locked :: "sodium \<Rightarrow> Connection \<Rightarrow> FrameType \<Rightarrow> bytes \<Rightarrow> bool \<times> Connection" where
  "send_frame_locked S conn ty plaintext =
     (let v2 = (2 \<le> conn_version conn);
          ct = (if v2
                then seal_v2 S (sk_tx (conn_keys conn)) (conn_tx_counter conn) (conn_epoch conn) (u8_of_frame_type ty) plaintext
                else seal S (sk_tx (conn_keys conn)) (conn_tx_counter conn) (u8_of_frame_type ty) plaintext)
      in case write_frame (conn_transport conn) \<lparr>rf_type = ty, rf_counter = conn_tx_counter conn,
                                                 rf_epoch = conn_epoch conn, rf_body = ct\<rparr> v2 of (ok, t') \<Rightarrow>
         (ok, conn\<lparr>conn_transport := t', conn_tx_counter := conn_tx_counter conn + 1\<rparr>))"

definition rotation_due :: "Connection \<Rightarrow> int \<Rightarrow> bool" where
  "rotation_due conn now =
     (let p = conn_rotation conn
      in if conn_version conn < 2 \<or> conn_rekey_in_progress conn \<or> 255 \<le> conn_epoch conn then False
         else if rot_interval p = 0 \<and> rot_max_bytes p = 0 then False
         else (0 < rot_interval p \<and> rot_interval p * 1000000000 \<le> now - conn_last_rotation conn)
              \<or> (0 < rot_max_bytes p \<and> rot_max_bytes p \<le> conn_bytes_since_rotation conn))"

definition maybe_begin_rekey_locked :: "sodium \<Rightarrow> Connection \<Rightarrow> int \<Rightarrow> bytes \<Rightarrow> Connection ex" where
  "maybe_begin_rekey_locked S conn now eph_rnd =
     (if \<not> rotation_due conn now then Ret conn
      else case generate_ephemeral S eph_rnd of
        Throw e \<Rightarrow> Throw e
      | Ret eph \<Rightarrow>
          (case send_frame_locked S conn Rekey (eph_public_key eph) of (ok, conn1) \<Rightarrow>
             if \<not> ok then Ret conn1
             else Ret (conn1\<lparr>conn_pending_eph := Some eph, conn_rekey_in_progress := True\<rparr>)))"

definition seal_and_send ::
  "sodium \<Rightarrow> Connection \<Rightarrow> int \<Rightarrow> bytes \<Rightarrow> FrameType \<Rightarrow> bytes \<Rightarrow> (bool \<times> Connection) ex" where
  "seal_and_send S conn now eph_rnd ty plaintext =
     ex_bind (maybe_begin_rekey_locked S conn now eph_rnd) (\<lambda>conn.
       case send_frame_locked S conn ty plaintext of (ok, conn) \<Rightarrow>
         Ret (ok, conn\<lparr>conn_bytes_since_rotation := conn_bytes_since_rotation conn + word_of_nat (length plaintext)\<rparr>))"

text \<open>The reader's copy of \<open>open_checked\<close>; it is the host's function word for word.\<close>

definition reader_open_checked :: "sodium \<Rightarrow> bool \<Rightarrow> RxState \<Rightarrow> RawFrame \<Rightarrow> bytes option \<times> RxState" where
  "reader_open_checked S v2 rx f =
     (if \<not> v2 then
        if rf_counter f \<noteq> rx_counter rx then (None, rx)
        else (case open_v1 S (rx_key rx) (rf_counter f) (u8_of_frame_type (rf_type f)) (rf_body f) of
                None \<Rightarrow> (None, rx)
              | Some o' \<Rightarrow> (Some o', rx\<lparr>rx_counter := rx_counter rx + 1\<rparr>))
      else if rf_epoch f = rx_epoch rx then
        if rf_counter f \<noteq> rx_counter rx then (None, rx)
        else (case open_v2 S (rx_key rx) (rf_counter f) (rf_epoch f) (u8_of_frame_type (rf_type f)) (rf_body f) of
                None \<Rightarrow> (None, rx)
              | Some o' \<Rightarrow> (Some o', rx\<lparr>rx_counter := rx_counter rx + 1\<rparr>))
      else (case rx_pending rx of
              Some pending \<Rightarrow>
                if rf_epoch f = rx_epoch rx + 1 then
                  if rf_counter f \<noteq> 0 then (None, rx)
                  else (case open_v2 S pending 0 (rf_epoch f) (u8_of_frame_type (rf_type f)) (rf_body f) of
                          None \<Rightarrow> (None, rx)
                        | Some o' \<Rightarrow> (Some o', rx\<lparr>rx_key := pending, rx_pending := None,
                                             rx_epoch := rx_epoch rx + 1, rx_counter := 1\<rparr>))
                else (None, rx)
            | None \<Rightarrow> (None, rx)))"

text \<open>The switch of the send key when a REKEY_ACK arrives, a section of its own under \<open>write_mutex\<close>.\<close>

definition switch_tx :: "Connection \<Rightarrow> bytes \<Rightarrow> int \<Rightarrow> Connection" where
  "switch_tx conn new_tx now =
     conn\<lparr>conn_keys := (conn_keys conn)\<lparr>sk_tx := new_tx\<rparr>, conn_epoch := conn_epoch conn + 1, conn_tx_counter := 0,
          conn_rekey_in_progress := False, conn_bytes_since_rotation := 0, conn_last_rotation := now\<rparr>"

text \<open>One turn of the reader loop up to the point where a payload reaches the request bookkeeping.\<close>

datatype client_event = CAgain | CStop | CError bytes | CChunk bytes | CResponse bytes | CThrow exn

definition client_recv :: "sodium \<Rightarrow> Connection \<Rightarrow> RxState \<Rightarrow> int \<Rightarrow> client_event \<times> Connection \<times> RxState" where
  "client_recv S conn rx now =
     (let v2 = (2 \<le> conn_version conn)
      in case read_frame (conn_transport conn) v2 of (fr, t1) \<Rightarrow>
         let conn = conn\<lparr>conn_transport := t1\<rparr>
         in case accepted fr of
           None \<Rightarrow> (CStop, conn, rx)
         | Some frame \<Rightarrow>
             (case rf_type frame of
                Pong \<Rightarrow> (CAgain, conn, rx)
              | Ping \<Rightarrow> (CAgain, conn, rx)
              | RekeyAck \<Rightarrow>
                  (case reader_open_checked S v2 rx frame of
                     (None, rx1) \<Rightarrow> (CStop, conn, rx1)
                   | (Some opened, rx1) \<Rightarrow>
                       if length opened \<noteq> 32 then (CStop, conn, rx1)
                       else let conn1 = conn\<lparr>conn_pending_eph := None\<rparr>
                            in case conn_pending_eph conn of
                              None \<Rightarrow> (CStop, conn1, rx1)
                            | Some eph \<Rightarrow>
                                (case client_session_keys S eph opened of
                                   Throw e \<Rightarrow> (CThrow e, conn1, rx1)
                                 | Ret nk \<Rightarrow> (CAgain, switch_tx conn1 (sk_tx nk) now, rx1\<lparr>rx_pending := Some (sk_rx nk)\<rparr>)))
              | Error \<Rightarrow>
                  (case reader_open_checked S v2 rx frame of
                     (None, rx1) \<Rightarrow> (CStop, conn, rx1)
                   | (Some opened, rx1) \<Rightarrow> (CError opened, conn, rx1))
              | StreamChunk \<Rightarrow>
                  (case reader_open_checked S v2 rx frame of
                     (None, rx1) \<Rightarrow> (CStop, conn, rx1)
                   | (Some opened, rx1) \<Rightarrow> (CChunk opened, conn, rx1))
              | Response \<Rightarrow>
                  (case reader_open_checked S v2 rx frame of
                     (None, rx1) \<Rightarrow> (CStop, conn, rx1)
                   | (Some opened, rx1) \<Rightarrow> (CResponse opened, conn, rx1))
              | _ \<Rightarrow> (CAgain, conn, rx)))"

lemma reader_open_checked_eq: "reader_open_checked = open_checked"
  by (intro ext) (simp add: reader_open_checked_def open_checked_def)

section \<open>Accepted frames\<close>

lemma open_checked_cases:
  assumes "open_checked S v2 rx f = (r, rx')"
  obtains (refused) "r = None" "rx' = rx"
  | (current) p where "r = Some p" "v2 \<longrightarrow> rf_epoch f = rx_epoch rx" "rf_counter f = rx_counter rx"
      "rx' = rx\<lparr>rx_counter := rx_counter rx + 1\<rparr>"
      "open_as S v2 (rx_key rx) (rf_counter f) (rf_epoch f) (u8_of_frame_type (rf_type f)) (rf_body f) = Some p"
  | (rotated) p k where "r = Some p" "v2" "rx_pending rx = Some k" "rf_epoch f = rx_epoch rx + 1" "rf_counter f = 0"
      "rx' = rx\<lparr>rx_key := k, rx_pending := None, rx_epoch := rx_epoch rx + 1, rx_counter := 1\<rparr>"
      "open_as S v2 k 0 (rf_epoch f) (u8_of_frame_type (rf_type f)) (rf_body f) = Some p"
  using assms unfolding open_checked_def open_as_def
  by (auto split: if_splits option.splits dest!: sym [of "Some p" for p])

text \<open>A receiver's life: frames arrive and are opened or refused, and now and then the next key is armed.\<close>

datatype rx_op = RxFrame RawFrame | RxArm bytes

fun rx_accepted :: "sodium \<Rightarrow> bool \<Rightarrow> RxState \<Rightarrow> rx_op list \<Rightarrow> RawFrame list" where
  "rx_accepted S v2 rx [] = []"
| "rx_accepted S v2 rx (RxArm k # ops) = rx_accepted S v2 (rx\<lparr>rx_pending := Some k\<rparr>) ops"
| "rx_accepted S v2 rx (RxFrame f # ops) =
     (case open_checked S v2 rx f of
        (None, rx') \<Rightarrow> rx_accepted S v2 rx' ops
      | (Some p, rx') \<Rightarrow> f # rx_accepted S v2 rx' ops)"

definition frame_pos :: "bool \<Rightarrow> RawFrame \<Rightarrow> nat" where
  "frame_pos v2 f = (if v2 then unat (rf_epoch f) * 2 ^ 64 else 0) + unat (rf_counter f)"

definition rx_pos :: "bool \<Rightarrow> RxState \<Rightarrow> nat" where
  "rx_pos v2 rx = (if v2 then unat (rx_epoch rx) * 2 ^ 64 else 0) + unat (rx_counter rx)"

fun is_arm :: "rx_op \<Rightarrow> bool" where
  "is_arm (RxArm k) = True"
| "is_arm (RxFrame f) = False"

definition rx_budget :: "RxState \<Rightarrow> rx_op list \<Rightarrow> bool" where
  "rx_budget rx ops \<longleftrightarrow> unat (rx_counter rx) + length ops < 2 ^ 64
     \<and> unat (rx_epoch rx) + (if rx_pending rx = None then 0 else 1) + length (filter is_arm ops) < 256"

lemma unat_Suc_u64: "unat (c :: u64) + 1 < 2 ^ 64 \<Longrightarrow> unat (c + 1) = unat c + 1"
  by (simp add: unat_add_lem [THEN iffD1])

lemma unat_Suc_u8: "unat (e :: u8) + 1 < 256 \<Longrightarrow> unat (e + 1) = unat e + 1"
  by (simp add: unat_add_lem [THEN iffD1])

lemma open_checked_pos:
  assumes "open_checked S v2 rx f = (Some p, rx')" "rx_budget rx (RxFrame f # ops)"
  shows "rx_pos v2 rx \<le> frame_pos v2 f \<and> rx_pos v2 rx' = frame_pos v2 f + 1 \<and> rx_budget rx' ops"
  using assms(1)
proof (cases rule: open_checked_cases)
  case (current p)
  have "unat (rx_counter rx + 1) = unat (rx_counter rx) + 1"
    by (rule unat_Suc_u64) (use assms(2) in \<open>auto simp: rx_budget_def\<close>)
  with current assms(2) show ?thesis by (auto simp: rx_pos_def frame_pos_def rx_budget_def)
next
  case (rotated p k)
  have "unat (rx_epoch rx + 1) = unat (rx_epoch rx) + 1"
    by (rule unat_Suc_u8) (use assms(2) rotated in \<open>auto simp: rx_budget_def\<close>)
  moreover have "unat (rx_counter rx) < 2 ^ 64" using unsigned_less [of "rx_counter rx"] by simp
  ultimately show ?thesis using rotated assms(2) by (auto simp: rx_pos_def frame_pos_def rx_budget_def)
qed simp

lemma rx_budget_arm: "rx_budget rx (RxArm k # ops) \<Longrightarrow> rx_budget (rx\<lparr>rx_pending := Some k\<rparr>) ops"
  by (auto simp: rx_budget_def split: if_splits)

lemma rx_budget_refused: "rx_budget rx (RxFrame f # ops) \<Longrightarrow> rx_budget rx ops"
  by (auto simp: rx_budget_def)

lemma rx_accepted_increasing:
  "rx_budget rx ops \<Longrightarrow>
   sorted_wrt (<) (map (frame_pos v2) (rx_accepted S v2 rx ops))
   \<and> (\<forall>f \<in> set (rx_accepted S v2 rx ops). rx_pos v2 rx \<le> frame_pos v2 f)"
proof (induction S v2 rx ops rule: rx_accepted.induct)
  case (2 S v2 rx k ops)
  have "rx_pos v2 (rx\<lparr>rx_pending := Some k\<rparr>) = rx_pos v2 rx" by (simp add: rx_pos_def)
  with 2 rx_budget_arm [OF "2.prems"] show ?case by simp
next
  case (3 S v2 rx f ops)
  obtain r rx' where o: "open_checked S v2 rx f = (r, rx')" by fastforce
  show ?case
  proof (cases r)
    case None
    with o have "rx' = rx" by (cases rule: open_checked_cases) auto
    with 3 o None rx_budget_refused show ?thesis by simp
  next
    case (Some p)
    note pos = open_checked_pos [OF o [unfolded Some] "3.prems"]
    with "3.IH"(2) [OF o [symmetric] Some] have
      "sorted_wrt (<) (map (frame_pos v2) (rx_accepted S v2 rx' ops))"
      "\<forall>g \<in> set (rx_accepted S v2 rx' ops). frame_pos v2 f + 1 \<le> frame_pos v2 g" by auto
    with o Some pos show ?thesis by fastforce
  qed
qed simp

text \<open>C7: replay protection. However frames are repeated, dropped, reordered or injected on the way,
  the frames a receiver accepts have strictly increasing (epoch, counter) positions, so no frame is
  ever accepted twice. The bounds are those of the counters: fewer than \<open>2 ^ 64\<close> frames, and at most
  255 rotations, which both sides enforce.\<close>

theorem no_frame_accepted_twice:
  assumes "length ops < 2 ^ 64" "length (filter is_arm ops) < 256"
  shows "sorted_wrt (<) (map (frame_pos v2) (rx_accepted S v2 (rx_start key) ops))
    \<and> distinct (rx_accepted S v2 (rx_start key) ops)"
proof -
  have "rx_budget (rx_start key) ops" using assms by (simp add: rx_budget_def rx_start_def)
  then have "sorted_wrt (<) (map (frame_pos v2) (rx_accepted S v2 (rx_start key) ops))"
    using rx_accepted_increasing by blast
  then show ?thesis using strict_sorted_iff distinct_map by blast
qed

theorem no_frame_accepted_twice_witness:
  "let f = \<lparr>rf_type = Request, rf_counter = 0, rf_epoch = 0, rf_body = seal_v2 toy_sodium (replicate 32 9) 0 0 2 [1]\<rparr>
   in rx_accepted toy_sodium True (rx_start (replicate 32 9)) [RxFrame f] = [f]
      \<and> distinct (rx_accepted toy_sodium True (rx_start (replicate 32 9)) [RxFrame f, RxFrame f])"
  using no_frame_accepted_twice [of "[RxFrame f, RxFrame f]" True toy_sodium "replicate 32 9" for f]
    open_seal_v2 [of toy_sodium "replicate 32 9" 0 0 2 "[1]"]
  by (simp add: Let_def open_checked_def rx_start_def usable_key_def toy_sizes toy_aead_correct)

section \<open>Sending: every nonce is used once per key\<close>

text \<open>The (key, counter) pairs under which a sender seals while it performs a list of operations.\<close>

fun seal_trace :: "('s \<Rightarrow> 'op \<Rightarrow> 's) \<Rightarrow> ('s \<Rightarrow> 'op \<Rightarrow> (bytes \<times> u64) list) \<Rightarrow> 's \<Rightarrow> 'op list \<Rightarrow> (bytes \<times> u64) list" where
  "seal_trace stp seals s [] = []"
| "seal_trace stp seals s (x # xs) = seals s x @ seal_trace stp seals (stp s x) xs"

locale aead_sender =
  fixes stp :: "'s \<Rightarrow> 'op \<Rightarrow> 's" and seals :: "'s \<Rightarrow> 'op \<Rightarrow> (bytes \<times> u64) list"
    and key :: "'s \<Rightarrow> bytes" and ctr :: "'s \<Rightarrow> u64" and live :: "'s \<Rightarrow> bool" and fresh :: "'op \<Rightarrow> bytes list"
  assumes seals_current: "seals s x = [] \<or> seals s x = [(key s, ctr s)] \<and> live s"
    and dead_stays: "\<not> live s \<Longrightarrow> \<not> live (stp s x)"
    and live_step: "live (stp s x) \<Longrightarrow>
      key (stp s x) = key s \<and> (ctr (stp s x) = ctr s + 1 \<or> ctr (stp s x) = ctr s \<and> seals s x = [])
      \<or> key (stp s x) \<in> set (fresh x) \<and> ctr (stp s x) = 0"
begin

lemma dead_seals: "\<not> live s \<Longrightarrow> seal_trace stp seals s xs = []"
proof (induction xs arbitrary: s)
  case (Cons x xs)
  then show ?case using seals_current [of s x] dead_stays [of s x] by auto
qed simp

lemma trace_range:
  assumes "unat (ctr s) + length xs \<le> 2 ^ 64" "length xs \<le> 2 ^ 64"
  shows "set (seal_trace stp seals s xs) \<subseteq>
    {(k, c). k = key s \<and> unat (ctr s) \<le> unat c} \<union> {(k, c). k \<in> set (concat (map fresh xs))}"
  using assms
proof (induction xs arbitrary: s)
  case (Cons x xs)
  show ?case
  proof (cases "live (stp s x) \<and> xs \<noteq> []")
    case False
    then show ?thesis using seals_current [of s x] dead_seals [of "stp s x" xs] by auto
  next
    case True
    then have "unat (ctr s) + 1 < 2 ^ 64" using Cons.prems by (cases xs) auto
    then have suc: "unat (ctr s + 1) = unat (ctr s) + 1" by (rule unat_Suc_u64)
    have "unat (ctr (stp s x)) + length xs \<le> 2 ^ 64"
      using live_step [of s x] True Cons.prems suc by auto
    with Cons have ih: "set (seal_trace stp seals (stp s x) xs) \<subseteq>
      {(k, c). k = key (stp s x) \<and> unat (ctr (stp s x)) \<le> unat c} \<union> {(k, c). k \<in> set (concat (map fresh xs))}" by simp
    with live_step [of s x] True suc seals_current [of s x] show ?thesis by fastforce
  qed
qed simp

theorem nonces_distinct:
  assumes "distinct (key s # concat (map fresh xs))" "unat (ctr s) + length xs \<le> 2 ^ 64"
  shows "distinct (seal_trace stp seals s xs)"
  using assms
proof (induction xs arbitrary: s)
  case (Cons x xs)
  let ?s = "stp s x"
  show ?case
  proof (cases "live ?s \<and> xs \<noteq> []")
    case False
    then show ?thesis using seals_current [of s x] dead_seals [of ?s xs] by auto
  next
    case True
    then have "unat (ctr s) + 1 < 2 ^ 64" using Cons.prems by (cases xs) auto
    then have suc: "unat (ctr s + 1) = unat (ctr s) + 1" by (rule unat_Suc_u64)
    have len: "unat (ctr ?s) + length xs \<le> 2 ^ 64" "length xs \<le> 2 ^ 64"
      using live_step [of s x] True Cons.prems suc by auto
    have "distinct (key ?s # concat (map fresh xs))"
      using live_step [of s x] True Cons.prems(1) by auto
    with Cons.IH len have ih: "distinct (seal_trace stp seals ?s xs)" by blast
    have new: "(key s, ctr s) \<notin> set (seal_trace stp seals ?s xs)" if "seals s x \<noteq> []"
      using trace_range [OF len] live_step [of s x] True that suc Cons.prems(1) by fastforce
    show ?thesis using ih new seals_current [of s x] by auto
  qed
qed simp

end

text \<open>The host's send operations; any thread may call them, the mutex makes each one a step.\<close>

datatype host_tx_op = TxSealed FrameType bytes | TxPing | TxSwitch bytes bytes

fun host_tx_step :: "sodium \<Rightarrow> ConnState \<Rightarrow> host_tx_op \<Rightarrow> ConnState" where
  "host_tx_step S cs (TxSealed ty p) = snd (send_sealed S cs ty p)"
| "host_tx_step S cs TxPing = snd (send_ping cs)"
| "host_tx_step S cs (TxSwitch eph_pk k) = snd (send_rekey_ack_and_switch S cs eph_pk k)"

fun host_tx_seals :: "ConnState \<Rightarrow> host_tx_op \<Rightarrow> (bytes \<times> u64) list" where
  "host_tx_seals cs TxPing = []"
| "host_tx_seals cs (TxSealed ty p) = (if cs_alive cs then [(cs_tx_key cs, cs_tx_counter cs)] else [])"
| "host_tx_seals cs (TxSwitch eph_pk k) = (if cs_alive cs then [(cs_tx_key cs, cs_tx_counter cs)] else [])"

fun host_tx_fresh :: "host_tx_op \<Rightarrow> bytes list" where
  "host_tx_fresh (TxSwitch eph_pk k) = [k]"
| "host_tx_fresh (TxSealed ty p) = []"
| "host_tx_fresh TxPing = []"

text \<open>The client's: a frame, or the switch of keys by the reader.\<close>

datatype client_tx_op = CTxFrame FrameType bytes | CTxSwitch bytes int

fun client_tx_step :: "sodium \<Rightarrow> Connection \<Rightarrow> client_tx_op \<Rightarrow> Connection" where
  "client_tx_step S conn (CTxFrame ty p) = snd (send_frame_locked S conn ty p)"
| "client_tx_step S conn (CTxSwitch k now) = switch_tx conn k now"

fun client_tx_seals :: "Connection \<Rightarrow> client_tx_op \<Rightarrow> (bytes \<times> u64) list" where
  "client_tx_seals conn (CTxFrame ty p) = [(sk_tx (conn_keys conn), conn_tx_counter conn)]"
| "client_tx_seals conn (CTxSwitch k now) = []"

fun client_tx_fresh :: "client_tx_op \<Rightarrow> bytes list" where
  "client_tx_fresh (CTxFrame ty p) = []"
| "client_tx_fresh (CTxSwitch k now) = [k]"

lemmas host_send_defs = send_sealed_def send_ping_def send_rekey_ack_and_switch_def

interpretation host_tx: aead_sender "host_tx_step S" host_tx_seals cs_tx_key cs_tx_counter cs_alive host_tx_fresh for S
proof unfold_locales
  fix cs x
  show "host_tx_seals cs x = [] \<or> host_tx_seals cs x = [(cs_tx_key cs, cs_tx_counter cs)] \<and> cs_alive cs"
    by (cases x) auto
  show "\<not> cs_alive cs \<Longrightarrow> \<not> cs_alive (host_tx_step S cs x)"
    by (cases x) (auto simp: host_send_defs)
  show "cs_alive (host_tx_step S cs x) \<Longrightarrow>
      cs_tx_key (host_tx_step S cs x) = cs_tx_key cs \<and>
      (cs_tx_counter (host_tx_step S cs x) = cs_tx_counter cs + 1
        \<or> cs_tx_counter (host_tx_step S cs x) = cs_tx_counter cs \<and> host_tx_seals cs x = [])
      \<or> cs_tx_key (host_tx_step S cs x) \<in> set (host_tx_fresh x) \<and> cs_tx_counter (host_tx_step S cs x) = 0"
    by (cases x) (auto simp: host_send_defs Let_def split: prod.splits if_splits)
qed

interpretation client_tx: aead_sender "client_tx_step S" client_tx_seals "\<lambda>c. sk_tx (conn_keys c)" conn_tx_counter
  "\<lambda>_. True" client_tx_fresh for S
proof unfold_locales
  fix c x
  show "client_tx_seals c x = [] \<or> client_tx_seals c x = [(sk_tx (conn_keys c), conn_tx_counter c)] \<and> True"
    by (cases x) auto
  show "sk_tx (conn_keys (client_tx_step S c x)) = sk_tx (conn_keys c) \<and>
      (conn_tx_counter (client_tx_step S c x) = conn_tx_counter c + 1
        \<or> conn_tx_counter (client_tx_step S c x) = conn_tx_counter c \<and> client_tx_seals c x = [])
      \<or> sk_tx (conn_keys (client_tx_step S c x)) \<in> set (client_tx_fresh x) \<and> conn_tx_counter (client_tx_step S c x) = 0"
    by (cases x) (auto simp: send_frame_locked_def switch_tx_def Let_def split: prod.splits)
qed simp



section \<open>Failed writes\<close>

lemma send_sealed_false: "send_sealed S cs ty p = (False, cs') \<Longrightarrow> \<not> cs_alive cs'"
  by (auto simp: send_sealed_def Let_def split: if_splits prod.splits)

lemma host_tx_dead: "\<not> cs_alive cs \<Longrightarrow> host_tx_step S cs x = cs"
  by (cases x) (simp_all add: host_send_defs)

lemma host_tx_dead_run: "\<not> cs_alive cs \<Longrightarrow> foldl (host_tx_step S) cs xs = cs"
  by (induction xs) (simp_all add: host_tx_dead)

text \<open>After a frame could not be written whole, the host's send operations never write to that
  connection again: the peer sees at most a truncated frame at the end of the stream.\<close>

theorem host_stops_after_failed_write:
  assumes "send_sealed S cs ty p = (False, cs')" "cs_alive cs"
  shows "(\<exists>pre. strict_prefix pre (frame_bytes (cs_v2 cs) \<lparr>rf_type = ty, rf_counter = cs_tx_counter cs, rf_epoch = cs_epoch cs,
            rf_body = seal_as S (cs_v2 cs) (cs_tx_key cs) (cs_tx_counter cs) (cs_epoch cs) (u8_of_frame_type ty) p\<rparr>)
          \<and> k_out (cs_t cs') = k_out (cs_t cs) @ pre)
    \<and> foldl (host_tx_step S) cs' ops = cs'"
proof -
  have "\<not> cs_alive cs'" using assms(1) by (rule send_sealed_false)
  with host_tx_dead_run assms show ?thesis
    by (auto simp: send_sealed_def Let_def seal_as_def dest!: write_frame_false split: prod.splits if_splits)
qed

lemma send_script_partial:
  assumes "0 \<le> pt_fd t" "send_script t = int k # -1 # r" "0 < k" "k < length d"
  shows "send_all t d = (False, t\<lparr>send_script := r, k_out := k_out t @ take k d\<rparr>)"
  using assms by (cases "d = []") (simp_all add: send_all_def sys_send_def send_loop.simps)

lemma write_frame_cut:
  assumes "0 \<le> pt_fd t" "send_script t = 2 # -1 # r"
  shows "write_frame t f we = (False, t\<lparr>send_script := r,
     k_out := k_out t @ take 2 (put_u32 [] (word_of_nat ((if we then 10 else 9) + length (rf_body f))))\<rparr>)"
  unfolding write_frame_blocks
  using send_script_partial [of t 2 r "put_u32 [] (word_of_nat ((if we then 10 else 9) + length (rf_body f)))"] assms
  by simp

definition cut_transport :: PosixTransport where
  "cut_transport = (posix_transport 4 0)\<lparr>send_script := [2, -1]\<rparr>"

lemma cut_transport_write:
  "write_frame cut_transport f we = (False, (posix_transport 4 0)\<lparr>
     k_out := take 2 (put_u32 [] (word_of_nat ((if we then 10 else 9) + length (rf_body f))))\<rparr>)"
  using write_frame_cut [of cut_transport "[]" f we] by (simp add: cut_transport_def posix_transport_def)

theorem host_stops_after_failed_write_witness:
  "\<exists>cs'. send_sealed toy_sodium (ConnState_init cut_transport (replicate 32 1) True) Response [1, 2] = (False, cs')
     \<and> foldl (host_tx_step toy_sodium) cs' [TxSealed Response [3], TxPing] = cs'"
proof -
  let ?cs = "ConnState_init cut_transport (replicate 32 1) True"
  obtain cs' where c: "send_sealed toy_sodium ?cs Response [1, 2] = (False, cs')"
    by (simp add: send_sealed_def ConnState_init_def cut_transport_write)
  moreover have "cs_alive ?cs" by (simp add: ConnState_init_def)
  ultimately show ?thesis using host_stops_after_failed_write by blast
qed

text \<open>The client has no such latch. A frame that could not be written whole (a write timeout is
  enough) leaves the connection usable, and the next frame is written right behind the truncated one:
  the host reads its bytes as part of the frame that was cut off.\<close>

theorem client_writes_after_truncated_frame:
  assumes "send_frame_locked S conn ty p = (False, c1)" "send_frame_locked S c1 ty' p' = (True, c2)"
  shows "\<exists>pre. strict_prefix pre (frame_bytes (2 \<le> conn_version conn)
       \<lparr>rf_type = ty, rf_counter = conn_tx_counter conn, rf_epoch = conn_epoch conn,
        rf_body = seal_as S (2 \<le> conn_version conn) (sk_tx (conn_keys conn)) (conn_tx_counter conn) (conn_epoch conn)
                    (u8_of_frame_type ty) p\<rparr>)
    \<and> k_out (conn_transport c2) = k_out (conn_transport conn) @ pre @ frame_bytes (2 \<le> conn_version conn)
       \<lparr>rf_type = ty', rf_counter = conn_tx_counter conn + 1, rf_epoch = conn_epoch conn,
        rf_body = seal_as S (2 \<le> conn_version conn) (sk_tx (conn_keys conn)) (conn_tx_counter conn + 1) (conn_epoch conn)
                    (u8_of_frame_type ty') p'\<rparr>"
  using assms
  by (auto simp: send_frame_locked_def Let_def seal_as_def dest!: write_frame_false write_frame_true split: prod.splits)

theorem client_writes_after_truncated_frame_witness:
  "\<exists>c1 c2 pre. send_frame_locked toy_sodium (Connection_init cut_transport \<lparr>sk_rx = [], sk_tx = replicate 32 1\<rparr> 2
       \<lparr>rot_interval = 0, rot_max_bytes = 0\<rparr> 0) Request [1] = (False, c1)
     \<and> send_frame_locked toy_sodium c1 Request [2] = (True, c2)
     \<and> k_out (conn_transport c2) = pre @ frame_bytes True \<lparr>rf_type = Request, rf_counter = 1, rf_epoch = 0,
         rf_body = seal_as toy_sodium True (replicate 32 1) 1 0 2 [2]\<rparr>"
proof -
  let ?c = "Connection_init cut_transport \<lparr>sk_rx = [], sk_tx = replicate 32 1\<rparr> 2 \<lparr>rot_interval = 0, rot_max_bytes = 0\<rparr> 0"
  obtain c1 where c1: "send_frame_locked toy_sodium ?c Request [1] = (False, c1)" "healthy (conn_transport c1)"
    by (simp add: send_frame_locked_def Connection_init_def cut_transport_write)
  obtain c2 where c2: "send_frame_locked toy_sodium c1 Request [2] = (True, c2)"
    using c1(2) by (simp add: send_frame_locked_def write_frame_healthy Let_def)
  from client_writes_after_truncated_frame [OF c1(1) c2] show ?thesis
    using c1(1) c2 by (auto simp: Connection_init_def cut_transport_def)
qed

end
