(* ===== verification/Epx_Rotation.thy ===== *)
theory Epx_Rotation
  imports Epx_Session
begin

text \<open>
  The session as a system of two parties: the client's senders and its reader thread (\<^verbatim>\<open>src/client.cpp\<close>), the
  host's connection thread and its other senders (\<^verbatim>\<open>src/host.cpp\<close>), and two byte streams between them.
  Each mutex-protected section is a step; steps interleave in any order, and a stream delivers its bytes
  in order after an arbitrary delay. The invariant says that every frame in flight will be opened, key
  rotations included, and the refinement theorem that the session is a pair of reliable FIFO channels.
\<close>

section \<open>Draining a queue of frames\<close>

text \<open>What a receiver does with the frames that are still on their way to it: \<open>on\<close> is its treatment of an
  opened payload, \<open>None\<close> meaning that it leaves its loop; the list collects the payloads handed to the
  application.\<close>

type_synonym frame_log = "(FrameType \<times> bytes) list"
type_synonym opened_action = "FrameType \<Rightarrow> bytes \<Rightarrow> RxState \<Rightarrow> (RxState \<times> frame_log) option"

definition is_probe :: "RawFrame \<Rightarrow> bool" where
  "is_probe f \<longleftrightarrow> rf_type f = Ping \<or> rf_type f = Pong"

fun drain :: "sodium \<Rightarrow> bool \<Rightarrow> opened_action \<Rightarrow> RxState \<Rightarrow> RawFrame list \<Rightarrow> (RxState \<times> frame_log) option" where
  "drain S v on rx [] = Some (rx, [])"
| "drain S v on rx (f # fs) =
     (if is_probe f then drain S v on rx fs
      else case open_checked S v rx f of
        (None, rx1) \<Rightarrow> None
      | (Some p, rx1) \<Rightarrow>
          (case on (rf_type f) p rx1 of
             None \<Rightarrow> None
           | Some (rx2, out) \<Rightarrow>
               (case drain S v on rx2 fs of None \<Rightarrow> None | Some (rx3, l) \<Rightarrow> Some (rx3, out @ l))))"

text \<open>The host takes requests and chunks, and a REKEY that carries the offered ephemeral key; the client
  takes responses and chunks, and a REKEY_ACK with the payload it is going to derive its keys from.\<close>

definition on_host :: "bytes option \<Rightarrow> opened_action" where
  "on_host offered ty p rx =
     (case ty of Request \<Rightarrow> Some (rx, [(ty, p)]) | StreamChunk \<Rightarrow> Some (rx, [(ty, p)])
      | Rekey \<Rightarrow> if offered = Some p then Some (rx, []) else None
      | _ \<Rightarrow> None)"

definition on_client :: "(bytes \<times> SessionKeys) option \<Rightarrow> opened_action" where
  "on_client expected ty p rx =
     (case ty of Response \<Rightarrow> Some (rx, [(ty, p)]) | StreamChunk \<Rightarrow> Some (rx, [(ty, p)])
      | RekeyAck \<Rightarrow> (case expected of
           Some (spk, nk) \<Rightarrow> if p = spk then Some (rx\<lparr>rx_pending := Some (sk_rx nk)\<rparr>, []) else None
         | None \<Rightarrow> None)
      | _ \<Rightarrow> None)"

definition synced :: "bool \<Rightarrow> RxState \<Rightarrow> bytes \<Rightarrow> u8 \<Rightarrow> u64 \<Rightarrow> bool" where
  "synced v rx key ep ctr \<longleftrightarrow>
     rx_key rx = key \<and> (v \<longrightarrow> rx_epoch rx = ep) \<and> rx_counter rx = ctr
     \<or> v \<and> rx_pending rx = Some key \<and> ep = rx_epoch rx + 1 \<and> ctr = 0"

definition sframe :: "sodium \<Rightarrow> bool \<Rightarrow> bytes \<Rightarrow> u8 \<Rightarrow> u64 \<Rightarrow> FrameType \<Rightarrow> bytes \<Rightarrow> RawFrame" where
  "sframe S v key ep ctr ty p = \<lparr>rf_type = ty, rf_counter = ctr, rf_epoch = ep,
     rf_body = seal_as S v key ctr ep (u8_of_frame_type ty) p\<rparr>"

lemma sframe_fields [simp]:
  "rf_type (sframe S v key ep ctr ty p) = ty" "rf_epoch (sframe S v key ep ctr ty p) = ep"
  "rf_counter (sframe S v key ep ctr ty p) = ctr"
  "rf_body (sframe S v key ep ctr ty p) = seal_as S v key ctr ep (u8_of_frame_type ty) p"
  by (simp_all add: sframe_def)

lemma u8_succ_neq: "(e :: u8) + 1 \<noteq> e" "e \<noteq> e + 1"
  by simp_all

lemma synced_open:
  assumes "usable_key S key" "synced v rx key ep ctr"
  obtains rx' where "open_checked S v rx (sframe S v key ep ctr ty p) = (Some p, rx')"
    "synced v rx' key ep (ctr + 1)" "v \<Longrightarrow> rx_epoch rx' = ep"
proof -
  have o: "open_as S v key ctr ep (u8_of_frame_type ty) (seal_as S v key ctr ep (u8_of_frame_type ty) p) = Some p"
    using assms(1) by (rule epx.open_seal)
  show ?thesis
  proof (cases "rx_key rx = key \<and> (v \<longrightarrow> rx_epoch rx = ep) \<and> rx_counter rx = ctr")
    case True
    with o show ?thesis
      by (intro that [of "rx\<lparr>rx_counter := ctr + 1\<rparr>"])
        (auto simp: open_checked_def synced_def open_as_def split: if_splits)
  next
    case False
    with assms(2) have "v" "rx_pending rx = Some key" "ep = rx_epoch rx + 1" "ctr = 0" by (auto simp: synced_def)
    with o show ?thesis
      by (intro that [of "rx\<lparr>rx_key := key, rx_pending := None, rx_epoch := rx_epoch rx + 1, rx_counter := 1\<rparr>"])
        (auto simp: open_checked_def synced_def open_as_def)
  qed
qed

lemma drain_append:
  "drain S v on rx (fs @ gs) = (case drain S v on rx fs of None \<Rightarrow> None
     | Some (rx1, l) \<Rightarrow> (case drain S v on rx1 gs of None \<Rightarrow> None | Some (rx2, m) \<Rightarrow> Some (rx2, l @ m)))"
  by (induction fs arbitrary: rx) (auto split: option.splits prod.splits)

lemma drain_cong:
  "(\<And>f p rx. f \<in> set fs \<Longrightarrow> on (rf_type f) p rx = on' (rf_type f) p rx) \<Longrightarrow> drain S v on rx fs = drain S v on' rx fs"
  by (induction fs arbitrary: rx) (auto split: option.splits prod.splits)

lemma open_checked_v2_epoch: "open_checked S True rx f = (Some p, rx') \<Longrightarrow> rx_epoch rx' = rf_epoch f"
  by (erule open_checked_cases) auto

lemma open_checked_same_epoch:
  assumes "rf_epoch f = rx_epoch rx"
  shows "open_checked S True (rx\<lparr>rx_pending := q\<rparr>) f
      = (fst (open_checked S True rx f), (snd (open_checked S True rx f))\<lparr>rx_pending := q\<rparr>)"
    and "open_checked S True rx f = (Some p, rx1) \<Longrightarrow> rx_epoch rx1 = rx_epoch rx \<and> rx_pending rx1 = rx_pending rx"
  using assms by (auto simp: open_checked_def split: option.splits if_splits)

lemma on_host_keeps:
  "on_host off ty p rx = Some (rx2, out) \<Longrightarrow> rx2 = rx \<and> on_host off ty p rx' = Some (rx', out)"
  by (auto simp: on_host_def split: FrameType.splits if_splits)

text \<open>While no frame of the next epoch is on its way, arming the next key changes nothing else.\<close>

lemma drain_pending:
  assumes "\<forall>f \<in> set fs. rf_epoch f = rx_epoch rx" "drain S True (on_host off) rx fs = Some (rx', l)"
  shows "drain S True (on_host off) (rx\<lparr>rx_pending := q\<rparr>) fs = Some (rx'\<lparr>rx_pending := q\<rparr>, l)
    \<and> rx_epoch rx' = rx_epoch rx \<and> rx_pending rx' = rx_pending rx"
  using assms
proof (induction fs arbitrary: rx l)
  case (Cons f fs)
  show ?case
  proof (cases "is_probe f")
    case False
    with Cons.prems(2) obtain p rx1 out l1 where o: "open_checked S True rx f = (Some p, rx1)"
      "on_host off (rf_type f) p rx1 = Some (rx1, out)" "drain S True (on_host off) rx1 fs = Some (rx', l1)" "l = out @ l1"
      by (auto dest: on_host_keeps split: option.splits prod.splits)
    have e: "rf_epoch f = rx_epoch rx" using Cons.prems(1) by simp
    note o' = open_checked_same_epoch(1) [OF e, of S q] open_checked_same_epoch(2) [OF e o(1)]
    have "on_host off (rf_type f) p (rx1\<lparr>rx_pending := q\<rparr>) = Some (rx1\<lparr>rx_pending := q\<rparr>, out)"
      using on_host_keeps [OF o(2)] by blast
    with False o o' Cons.IH [of rx1 l1] Cons.prems(1) show ?thesis by simp
  qed (use Cons in simp)
qed simp

section \<open>One direction of the session\<close>

text \<open>All frames in flight will be opened, and after them the receiver is in step with the sender.\<close>

definition flow :: "sodium \<Rightarrow> bool \<Rightarrow> opened_action \<Rightarrow> RxState \<Rightarrow> RawFrame list \<Rightarrow> bytes \<Rightarrow> u8 \<Rightarrow> u64 \<Rightarrow> frame_log \<Rightarrow> bool" where
  "flow S v on rx fs key ep ctr l \<longleftrightarrow>
     usable_key S key \<and> (\<exists>rx'. drain S v on rx fs = Some (rx', l) \<and> synced v rx' key ep ctr)"

lemma flow_send:
  assumes "flow S v on rx fs key ep ctr l" "\<not> is_probe (sframe S v key ep ctr ty p)"
    and "\<And>rx. on ty p rx = Some (rx, out)"
  shows "flow S v on rx (fs @ [sframe S v key ep ctr ty p]) key ep (ctr + 1) (l @ out)"
proof -
  from assms(1) obtain rx' where d: "usable_key S key" "drain S v on rx fs = Some (rx', l)" "synced v rx' key ep ctr"
    by (auto simp: flow_def)
  from d(1,3) obtain rx'' where "open_checked S v rx' (sframe S v key ep ctr ty p) = (Some p, rx'')"
    "synced v rx'' key ep (ctr + 1)" by (rule synced_open)
  with d assms(2,3) show ?thesis by (auto simp: flow_def drain_append)
qed

lemma flow_probe: "is_probe f \<Longrightarrow> flow S v on rx (fs @ [f]) key ep ctr l = flow S v on rx fs key ep ctr l"
  by (auto simp: flow_def drain_append split: option.splits prod.splits)

lemma flow_skip_probe: "is_probe f \<Longrightarrow> flow S v on rx (f # fs) key ep ctr l = flow S v on rx fs key ep ctr l"
  by (simp add: flow_def)

lemma flow_cong:
  "(\<And>f p rx. f \<in> set fs \<Longrightarrow> on (rf_type f) p rx = on' (rf_type f) p rx) \<Longrightarrow>
   flow S v on rx fs key ep ctr l = flow S v on' rx fs key ep ctr l"
  by (simp add: flow_def drain_cong [of fs on on'])

lemma flow_head:
  assumes "flow S v on rx (f # fs) key ep ctr l" "\<not> is_probe f"
  obtains p rx1 rx2 out l' where "open_checked S v rx f = (Some p, rx1)" "on (rf_type f) p rx1 = Some (rx2, out)"
    "l = out @ l'" "flow S v on rx2 fs key ep ctr l'"
  using assms by (auto simp: flow_def split: option.splits prod.splits)

lemma on_host_rekey_cong:
  "\<forall>f \<in> set fs. rf_type f \<noteq> Rekey \<Longrightarrow>
   flow S v (on_host a) rx fs key ep ctr l = flow S v (on_host b) rx fs key ep ctr l"
  by (rule flow_cong) (auto simp: on_host_def split: FrameType.splits)

lemma on_client_ack_cong:
  "\<forall>f \<in> set fs. rf_type f \<noteq> RekeyAck \<Longrightarrow>
   flow S v (on_client a) rx fs key ep ctr l = flow S v (on_client b) rx fs key ep ctr l"
  by (rule flow_cong) (auto simp: on_client_def split: FrameType.splits)

lemma flow_send_ack:
  assumes "flow S True (on_client (Some (spk, nk))) rx fs key ep ctr l" "usable_key S (sk_rx nk)"
  shows "flow S True (on_client (Some (spk, nk))) rx (fs @ [sframe S True key ep ctr RekeyAck spk]) (sk_rx nk) (ep + 1) 0 l"
proof -
  from assms(1) obtain rx' where d: "usable_key S key" "drain S True (on_client (Some (spk, nk))) rx fs = Some (rx', l)"
    "synced True rx' key ep ctr" by (auto simp: flow_def)
  from d(1,3) obtain rx'' where "open_checked S True rx' (sframe S True key ep ctr RekeyAck spk) = (Some spk, rx'')"
    "rx_epoch rx'' = ep" by (rule synced_open) simp
  with d assms(2) show ?thesis by (auto simp: flow_def drain_append is_probe_def on_client_def synced_def)
qed

lemma flow_arm:
  assumes "flow S True (on_host off) rx fs key (rx_epoch rx) ctr l" "\<forall>f \<in> set fs. rf_epoch f = rx_epoch rx"
  shows "flow S True (on_host off) (rx\<lparr>rx_pending := q\<rparr>) fs key (rx_epoch rx) ctr l"
proof -
  from assms(1) obtain rx' where d: "usable_key S key" "drain S True (on_host off) rx fs = Some (rx', l)"
    "synced True rx' key (rx_epoch rx) ctr" by (auto simp: flow_def)
  note e = drain_pending [OF assms(2) d(2), of q]
  from d(3) e have "synced True (rx'\<lparr>rx_pending := q\<rparr>) key (rx_epoch rx) ctr"
    by (simp add: synced_def)
  with d(1) e show ?thesis by (simp add: flow_def)
qed

lemma flow_switch:
  assumes "flow S True (on_host off) rx fs key (rx_epoch rx) ctr l" "\<forall>f \<in> set fs. rf_epoch f = rx_epoch rx"
    and "rx_pending rx = Some key'" "usable_key S key'"
  shows "flow S True (on_host off) rx fs key' (rx_epoch rx + 1) 0 l"
proof -
  from assms(1) obtain rx' where d: "drain S True (on_host off) rx fs = Some (rx', l)" by (auto simp: flow_def)
  with drain_pending [OF assms(2) d] assms(3,4) show ?thesis by (simp add: flow_def synced_def)
qed

section \<open>Where a rotation stands\<close>

text \<open>No rotation under way; a REKEY on its way to the host; a REKEY_ACK on its way back.\<close>

datatype phase = Idle | Offered EphemeralKeyPair | Acked EphemeralKeyPair bytes SessionKeys

definition lacks :: "FrameType \<Rightarrow> RawFrame list \<Rightarrow> bool" where
  "lacks ty fs \<longleftrightarrow> (\<forall>f \<in> set fs. rf_type f \<noteq> ty)"

lemma lacks_simps [simp]:
  "lacks ty []" "lacks ty (f # fs) \<longleftrightarrow> rf_type f \<noteq> ty \<and> lacks ty fs" "lacks ty (fs @ gs) \<longleftrightarrow> lacks ty fs \<and> lacks ty gs"
  by (auto simp: lacks_def)

fun offered_of :: "phase \<Rightarrow> bytes option" where
  "offered_of (Offered eph) = Some (eph_public_key eph)"
| "offered_of Idle = None"
| "offered_of (Acked eph spk nk) = None"

fun expected_of :: "phase \<Rightarrow> (bytes \<times> SessionKeys) option" where
  "expected_of (Acked eph spk nk) = Some (spk, nk)"
| "expected_of Idle = None"
| "expected_of (Offered eph) = None"

fun phase_ok :: "sodium \<Rightarrow> u8 \<Rightarrow> bool \<Rightarrow> EphemeralKeyPair option \<Rightarrow> u8 \<Rightarrow> RxState \<Rightarrow> RawFrame list \<Rightarrow> RawFrame list \<Rightarrow> phase \<Rightarrow> bool" where
  "phase_ok S ce ip pe he hrx c2s s2c Idle \<longleftrightarrow>
     \<not> ip \<and> pe = None \<and> lacks Rekey c2s \<and> lacks RekeyAck s2c \<and> he = ce"
| "phase_ok S ce ip pe he hrx c2s s2c (Offered eph) \<longleftrightarrow>
     ip \<and> pe = Some eph \<and> (\<exists>r. generate_ephemeral S r = Ret eph) \<and> ce < 255 \<and> lacks RekeyAck s2c \<and> he = ce
     \<and> (\<exists>fs1 rk fs2. c2s = fs1 @ rk # fs2 \<and> rf_type rk = Rekey \<and> lacks Rekey (fs1 @ fs2)
          \<and> (\<forall>f \<in> set (rk # fs2). rf_epoch f = ce))"
| "phase_ok S ce ip pe he hrx c2s s2c (Acked eph spk nk) \<longleftrightarrow>
     ip \<and> pe = Some eph \<and> client_session_keys S eph spk = Ret nk \<and> length spk = 32 \<and> usable_key S (sk_tx nk)
     \<and> lacks Rekey c2s \<and> he = ce + 1
     \<and> (\<exists>gs1 ak gs2. s2c = gs1 @ ak # gs2 \<and> rf_type ak = RekeyAck \<and> lacks RekeyAck (gs1 @ gs2))
     \<and> (\<forall>f \<in> set c2s. rf_epoch f = ce) \<and> rx_epoch hrx = ce \<and> rx_pending hrx = Some (sk_tx nk)"

text \<open>The invariant over the parts that matter: the client's send key, epoch, counter and rotation state,
  both receive states, the host's send key, epoch and counter, and the frames in flight.\<close>

definition core ::
  "sodium \<Rightarrow> bool \<Rightarrow> bytes \<Rightarrow> u8 \<Rightarrow> u64 \<Rightarrow> bool \<Rightarrow> EphemeralKeyPair option \<Rightarrow> RxState \<Rightarrow> bytes \<Rightarrow> u8 \<Rightarrow> u64 \<Rightarrow> RxState
   \<Rightarrow> RawFrame list \<Rightarrow> RawFrame list \<Rightarrow> phase \<Rightarrow> frame_log \<Rightarrow> frame_log \<Rightarrow> bool" where
  "core S v ck ce cc ip pe crx hk he hc hrx c2s s2c ph hl cl \<longleftrightarrow>
     (\<not> v \<longrightarrow> ph = Idle \<and> ce = 0) \<and> phase_ok S ce ip pe he hrx c2s s2c ph
     \<and> flow S v (on_host (offered_of ph)) hrx c2s ck ce cc hl
     \<and> flow S v (on_client (expected_of ph)) crx s2c hk he hc cl
     \<and> (\<forall>f \<in> set c2s. \<not> is_probe f)"

lemma core_client_frame:
  assumes "core S v ck ce cc ip pe crx hk he hc hrx c2s s2c ph hl cl" "ty = Request \<or> ty = StreamChunk"
  shows "core S v ck ce (cc + 1) ip pe crx hk he hc hrx (c2s @ [sframe S v ck ce cc ty p]) s2c ph (hl @ [(ty, p)]) cl"
proof -
  let ?f = "sframe S v ck ce cc ty p"
  have np: "\<not> is_probe ?f" using assms(2) by (auto simp: is_probe_def)
  have "flow S v (on_host (offered_of ph)) hrx (c2s @ [?f]) ck ce (cc + 1) (hl @ [(ty, p)])"
    using assms np by (intro flow_send) (auto simp: core_def on_host_def)
  moreover have "phase_ok S ce ip pe he hrx (c2s @ [?f]) s2c ph"
  proof (cases ph)
    case (Offered eph)
    with assms(1) obtain fs1 rk fs2 where c: "c2s = fs1 @ rk # fs2" "rf_type rk = Rekey" "lacks Rekey (fs1 @ fs2)"
      "\<forall>f \<in> set (rk # fs2). rf_epoch f = ce" by (auto simp: core_def)
    have "\<exists>fs1 rk fs2. c2s @ [?f] = fs1 @ rk # fs2 \<and> rf_type rk = Rekey \<and> lacks Rekey (fs1 @ fs2)
          \<and> (\<forall>f \<in> set (rk # fs2). rf_epoch f = ce)"
      using c assms(2) by (intro exI [of _ fs1] exI [of _ rk] exI [of _ "fs2 @ [?f]"]) auto
    with Offered assms(1) show ?thesis by (simp add: core_def)
  qed (use assms in \<open>auto simp: core_def\<close>)
  ultimately show ?thesis using assms(1) np by (auto simp: core_def)
qed

lemma core_client_rekey:
  assumes "core S v ck ce cc False pe crx hk he hc hrx c2s s2c ph hl cl" "v" "ce < 255"
    and "generate_ephemeral S r = Ret eph"
  shows "core S v ck ce (cc + 1) True (Some eph) crx hk he hc hrx
    (c2s @ [sframe S v ck ce cc Rekey (eph_public_key eph)]) s2c (Offered eph) hl cl"
proof -
  let ?f = "sframe S v ck ce cc Rekey (eph_public_key eph)"
  have idle: "ph = Idle" using assms(1) by (cases ph) (auto simp: core_def)
  have np: "\<not> is_probe ?f" by (auto simp: is_probe_def)
  have "flow S v (on_host (offered_of (Offered eph))) hrx c2s ck ce cc hl"
    using assms(1) on_host_rekey_cong [of c2s S v None hrx ck ce cc hl "Some (eph_public_key eph)"]
    by (simp add: core_def idle lacks_def)
  then have "flow S v (on_host (offered_of (Offered eph))) hrx (c2s @ [?f]) ck ce (cc + 1) (hl @ [])"
    using np by (rule flow_send) (simp add: on_host_def)
  moreover have "\<exists>fs1 rk fs2. c2s @ [?f] = fs1 @ rk # fs2 \<and> rf_type rk = Rekey \<and> lacks Rekey (fs1 @ fs2)
          \<and> (\<forall>f \<in> set (rk # fs2). rf_epoch f = ce)"
    using assms(1) by (intro exI [of _ c2s] exI [of _ ?f] exI [of _ "[]"]) (auto simp: core_def idle)
  then have "phase_ok S ce True (Some eph) he hrx (c2s @ [?f]) s2c (Offered eph)"
    using assms by (auto simp: core_def idle)
  ultimately show ?thesis using assms(1,2) np by (auto simp: core_def idle)
qed

lemma core_host_frame:
  assumes "core S v ck ce cc ip pe crx hk he hc hrx c2s s2c ph hl cl" "ty = Response \<or> ty = StreamChunk"
  shows "core S v ck ce cc ip pe crx hk he (hc + 1) hrx c2s (s2c @ [sframe S v hk he hc ty p]) ph hl (cl @ [(ty, p)])"
proof -
  let ?f = "sframe S v hk he hc ty p"
  have "flow S v (on_client (expected_of ph)) crx (s2c @ [?f]) hk he (hc + 1) (cl @ [(ty, p)])"
    using assms by (intro flow_send) (auto simp: core_def on_client_def is_probe_def)
  moreover have "phase_ok S ce ip pe he hrx c2s (s2c @ [?f]) ph"
  proof (cases ph)
    case (Acked eph spk nk)
    with assms(1) obtain gs1 ak gs2 where c: "s2c = gs1 @ ak # gs2" "rf_type ak = RekeyAck" "lacks RekeyAck (gs1 @ gs2)"
      by (auto simp: core_def)
    have "\<exists>gs1 ak gs2. s2c @ [?f] = gs1 @ ak # gs2 \<and> rf_type ak = RekeyAck \<and> lacks RekeyAck (gs1 @ gs2)"
      using c assms(2) by (intro exI [of _ gs1] exI [of _ ak] exI [of _ "gs2 @ [?f]"]) auto
    with Acked assms(1) show ?thesis by (simp add: core_def)
  qed (use assms in \<open>auto simp: core_def\<close>)
  ultimately show ?thesis using assms(1) by (auto simp: core_def)
qed

lemma core_host_probe:
  assumes "core S v ck ce cc ip pe crx hk he hc hrx c2s s2c ph hl cl" "is_probe f"
  shows "core S v ck ce cc ip pe crx hk he hc hrx c2s (s2c @ [f]) ph hl cl"
proof -
  have ty: "rf_type f \<noteq> RekeyAck" using assms(2) by (auto simp: is_probe_def)
  have "phase_ok S ce ip pe he hrx c2s (s2c @ [f]) ph"
  proof (cases ph)
    case (Acked eph spk nk)
    with assms(1) obtain gs1 ak gs2 where c: "s2c = gs1 @ ak # gs2" "rf_type ak = RekeyAck" "lacks RekeyAck (gs1 @ gs2)"
      by (auto simp: core_def)
    have "\<exists>gs1 ak gs2. s2c @ [f] = gs1 @ ak # gs2 \<and> rf_type ak = RekeyAck \<and> lacks RekeyAck (gs1 @ gs2)"
      using c ty by (intro exI [of _ gs1] exI [of _ ak] exI [of _ "gs2 @ [f]"]) auto
    with Acked assms(1) show ?thesis by (simp add: core_def)
  qed (use assms ty in \<open>auto simp: core_def\<close>)
  then show ?thesis using assms by (auto simp: core_def flow_probe)
qed

lemma phase_ok_tail:
  assumes "phase_ok S ce ip pe he hrx c2s (f # fs) ph" "rf_type f \<noteq> RekeyAck"
  shows "phase_ok S ce ip pe he hrx c2s fs ph"
proof (cases ph)
  case (Acked eph spk nk)
  with assms obtain gs1 ak gs2 where c: "f # fs = gs1 @ ak # gs2" "rf_type ak = RekeyAck" "lacks RekeyAck (gs1 @ gs2)"
    by auto
  then obtain gs1' where "gs1 = f # gs1'" using assms(2) by (cases gs1) auto
  with c have "\<exists>gs1 ak gs2. fs = gs1 @ ak # gs2 \<and> rf_type ak = RekeyAck \<and> lacks RekeyAck (gs1 @ gs2)"
    by (intro exI [of _ gs1'] exI [of _ ak] exI [of _ gs2]) auto
  with Acked assms(1) show ?thesis by simp
qed (use assms in auto)

lemma core_host_reads_data:
  assumes "core S v ck ce cc ip pe crx hk he hc hrx (f # fs) s2c ph hl cl" "rf_type f \<noteq> Rekey"
  obtains p rx1 hl' where "open_checked S v hrx f = (Some p, rx1)" "rf_type f = Request \<or> rf_type f = StreamChunk"
    "hl = (rf_type f, p) # hl'" "core S v ck ce cc ip pe crx hk he hc rx1 fs s2c ph hl' cl"
proof -
  have fl: "flow S v (on_host (offered_of ph)) hrx (f # fs) ck ce cc hl" and np: "\<not> is_probe f"
    using assms(1) by (auto simp: core_def)
  from fl np obtain p rx1 rx2 out hl' where o: "open_checked S v hrx f = (Some p, rx1)"
    "on_host (offered_of ph) (rf_type f) p rx1 = Some (rx2, out)" "hl = out @ hl'"
    "flow S v (on_host (offered_of ph)) rx2 fs ck ce cc hl'" by (rule flow_head)
  from o(2) assms(2) have d: "rf_type f = Request \<or> rf_type f = StreamChunk" "rx2 = rx1" "out = [(rf_type f, p)]"
    by (auto simp: on_host_def split: FrameType.splits)
  have "phase_ok S ce ip pe he rx1 fs s2c ph"
  proof (cases ph)
    case (Offered eph)
    with assms obtain fs1 rk fs2 where c: "f # fs = fs1 @ rk # fs2" "rf_type rk = Rekey" "lacks Rekey (fs1 @ fs2)"
      "\<forall>f \<in> set (rk # fs2). rf_epoch f = ce" by (auto simp: core_def)
    then obtain fs1' where "fs1 = f # fs1'" using assms(2) by (cases fs1) auto
    with c have "\<exists>fs1 rk fs2. fs = fs1 @ rk # fs2 \<and> rf_type rk = Rekey \<and> lacks Rekey (fs1 @ fs2)
          \<and> (\<forall>f \<in> set (rk # fs2). rf_epoch f = ce)"
      by (intro exI [of _ fs1'] exI [of _ rk] exI [of _ fs2]) auto
    with Offered assms(1) show ?thesis by (simp add: core_def)
  next
    case (Acked eph spk nk)
    with assms(1) have v: "v" and e: "rf_epoch f = rx_epoch hrx" by (auto simp: core_def)
    with open_checked_same_epoch(2) [OF e] o(1) have "rx_epoch rx1 = rx_epoch hrx" "rx_pending rx1 = rx_pending hrx"
      by auto
    with Acked assms(1) show ?thesis by (simp add: core_def)
  qed (use assms in \<open>auto simp: core_def\<close>)
  with assms(1) o d show ?thesis by (intro that [of p rx1 hl']) (auto simp: core_def)
qed

lemma core_host_reads_rekey:
  assumes "core S v ck ce cc ip pe crx hk he hc hrx (f # fs) s2c ph hl cl" "rf_type f = Rekey"
    and S: "sodium_sizes S" "kx_agrees S" "aead_correct S" and sr: "generate_ephemeral S sr = Ret seph"
  obtains eph rx1 nk nkc where "open_checked S v hrx f = (Some (eph_public_key eph), rx1)" "v" "he < 255"
    "length (eph_public_key eph) = 32" "server_session_keys S seph (eph_public_key eph) = Ret nk"
    "core S v ck ce cc ip pe crx (sk_tx nk) (he + 1) 0 (rx1\<lparr>rx_pending := Some (sk_rx nk)\<rparr>) fs
       (s2c @ [sframe S v hk he hc RekeyAck (eph_public_key seph)]) (Acked eph (eph_public_key seph) nkc) hl cl"
proof -
  have fl: "flow S v (on_host (offered_of ph)) hrx (f # fs) ck ce cc hl" and np: "\<not> is_probe f"
    using assms(1) by (auto simp: core_def)
  obtain eph where ph: "ph = Offered eph" using assms(1,2) by (cases ph) (auto simp: core_def)
  with assms(1) have v: "v" by (auto simp: core_def)
  from ph assms(1) obtain r where inv: "pe = Some eph" "ip" "generate_ephemeral S r = Ret eph" "ce < 255" "he = ce"
    "lacks RekeyAck s2c" by (auto simp: core_def)
  from ph assms(1,2) obtain fs1 rk fs2 where c: "f # fs = fs1 @ rk # fs2" "lacks Rekey (fs1 @ fs2)"
      "\<forall>f \<in> set (rk # fs2). rf_epoch f = ce" by (auto simp: core_def)
  have "fs1 = []" using c(1,2) assms(2) by (cases fs1) auto
  with c have fs: "fs = fs2" "rk = f" and ep: "rf_epoch f = ce" "\<forall>g \<in> set fs. rf_epoch g = ce" "lacks Rekey fs" by auto
  from fl np obtain p rx1 rx2 out hl' where o: "open_checked S v hrx f = (Some p, rx1)"
    "on_host (offered_of ph) (rf_type f) p rx1 = Some (rx2, out)" "hl = out @ hl'"
    "flow S v (on_host (offered_of ph)) rx2 fs ck ce cc hl'" by (rule flow_head)
  with ph assms(2) have p: "p = eph_public_key eph" "rx2 = rx1" "out = []" by (auto simp: on_host_def split: if_splits)
  have rx1e: "rx_epoch rx1 = ce" using open_checked_v2_epoch [of S hrx f p rx1] o(1) v ep(1) by simp
  obtain a b where ab: "crypto_kx_client_session_keys S (eph_public_key eph) (eph_secret_key eph) (eph_public_key seph) = Some (a, b)"
    "crypto_kx_server_session_keys S (eph_public_key seph) (eph_secret_key seph) (eph_public_key eph) = Some (b, a)"
    using S(2) generate_ephemeral_Ret(1) [OF inv(3) S(1)] generate_ephemeral_Ret(1) [OF sr S(1)]
    unfolding kx_agrees_def by metis
  define nk where "nk = \<lparr>sk_rx = b, sk_tx = a\<rparr>"
  define nkc where "nkc = \<lparr>sk_rx = a, sk_tx = b\<rparr>"
  have us: "usable_key S a" "usable_key S b" using S ab(1) by (auto simp: usable_key_def sodium_sizes_def)
  have keys: "server_session_keys S seph (eph_public_key eph) = Ret nk" "client_session_keys S eph (eph_public_key seph) = Ret nkc"
    using ab by (simp_all add: server_session_keys_def client_session_keys_def nk_def nkc_def)
  have f1: "flow S True (on_host None) (rx1\<lparr>rx_pending := Some (sk_rx nk)\<rparr>) fs ck ce cc hl"
    using flow_arm [of S None rx1 fs ck cc hl "Some (sk_rx nk)"] o(3,4) p(2,3) v ep(2,3) rx1e
      on_host_rekey_cong [of fs S v "offered_of ph" rx1 ck ce cc hl' None] by (simp add: lacks_def)
  have "flow S v (on_client None) crx s2c hk he hc cl" using assms(1) ph by (auto simp: core_def)
  then have "flow S True (on_client (Some (eph_public_key seph, nkc))) crx s2c hk he hc cl"
    using v inv(6) on_client_ack_cong [of s2c S v None crx hk he hc cl "Some (eph_public_key seph, nkc)"]
    by (simp add: lacks_def)
  then have f2: "flow S True (on_client (Some (eph_public_key seph, nkc))) crx
      (s2c @ [sframe S True hk he hc RekeyAck (eph_public_key seph)]) (sk_tx nk) (he + 1) 0 cl"
    using flow_send_ack [of S "eph_public_key seph" nkc crx s2c hk he hc cl] us(1) by (simp add: nk_def nkc_def)
  have "\<exists>gs1 ak gs2. s2c @ [sframe S v hk he hc RekeyAck (eph_public_key seph)] = gs1 @ ak # gs2
      \<and> rf_type ak = RekeyAck \<and> lacks RekeyAck (gs1 @ gs2)"
    using inv(6) by (intro exI [of _ s2c] exI [of _ "sframe S v hk he hc RekeyAck (eph_public_key seph)"] exI [of _ "[]"]) auto
  then have "core S v ck ce cc ip pe crx (sk_tx nk) (he + 1) 0 (rx1\<lparr>rx_pending := Some (sk_rx nk)\<rparr>) fs
       (s2c @ [sframe S v hk he hc RekeyAck (eph_public_key seph)]) (Acked eph (eph_public_key seph) nkc) hl cl"
    using f1 f2 v inv keys(2) us(2) ep rx1e generate_ephemeral_Ret(2) [OF sr S(1)] assms(1)
    by (simp add: core_def nk_def nkc_def)
  with o(1) p v inv keys(1) generate_ephemeral_Ret(2) [OF inv(3) S(1)] show ?thesis by (intro that) auto
qed

lemma core_client_reads_data:
  assumes "core S v ck ce cc ip pe crx hk he hc hrx c2s (f # fs) ph hl cl" "rf_type f \<noteq> RekeyAck" "\<not> is_probe f"
  obtains p rx1 cl' where "open_checked S v crx f = (Some p, rx1)" "rf_type f = Response \<or> rf_type f = StreamChunk"
    "cl = (rf_type f, p) # cl'" "core S v ck ce cc ip pe rx1 hk he hc hrx c2s fs ph hl cl'"
proof -
  have fl: "flow S v (on_client (expected_of ph)) crx (f # fs) hk he hc cl" using assms(1) by (auto simp: core_def)
  from fl assms(3) obtain p rx1 rx2 out cl' where o: "open_checked S v crx f = (Some p, rx1)"
    "on_client (expected_of ph) (rf_type f) p rx1 = Some (rx2, out)" "cl = out @ cl'"
    "flow S v (on_client (expected_of ph)) rx2 fs hk he hc cl'" by (rule flow_head)
  from o(2) assms(2) have d: "rf_type f = Response \<or> rf_type f = StreamChunk" "rx2 = rx1" "out = [(rf_type f, p)]"
    by (auto simp: on_client_def split: FrameType.splits)
  have "phase_ok S ce ip pe he hrx c2s fs ph"
    by (rule phase_ok_tail) (use assms in \<open>auto simp: core_def\<close>)
  with assms(1) o d show ?thesis by (intro that [of p rx1 cl']) (auto simp: core_def)
qed

lemma core_client_reads_probe:
  assumes "core S v ck ce cc ip pe crx hk he hc hrx c2s (f # fs) ph hl cl" "is_probe f"
  shows "core S v ck ce cc ip pe crx hk he hc hrx c2s fs ph hl cl"
proof -
  have "phase_ok S ce ip pe he hrx c2s fs ph"
    by (rule phase_ok_tail) (use assms in \<open>auto simp: core_def is_probe_def\<close>)
  with assms show ?thesis by (auto simp: core_def flow_skip_probe)
qed

lemma core_client_reads_ack:
  assumes "core S v ck ce cc ip pe crx hk he hc hrx c2s (f # fs) ph hl cl" "rf_type f = RekeyAck"
  obtains eph spk nk rx1 where "open_checked S v crx f = (Some spk, rx1)" "length spk = 32" "pe = Some eph"
    "client_session_keys S eph spk = Ret nk"
    "core S v (sk_tx nk) (ce + 1) 0 False None (rx1\<lparr>rx_pending := Some (sk_rx nk)\<rparr>) hk he hc hrx c2s fs Idle hl cl"
proof -
  obtain eph spk nk where ph: "ph = Acked eph spk nk" using assms(1,2) by (cases ph) (auto simp: core_def)
  with assms(1) have v: "v" by (auto simp: core_def)
  from ph assms(1) have inv: "pe = Some eph" "client_session_keys S eph spk = Ret nk" "length spk = 32"
    "usable_key S (sk_tx nk)" "lacks Rekey c2s" "he = ce + 1" "\<forall>f \<in> set c2s. rf_epoch f = ce" "rx_epoch hrx = ce"
    "rx_pending hrx = Some (sk_tx nk)" by (auto simp: core_def)
  from ph assms(1) obtain gs1 ak gs2 where c: "f # fs = gs1 @ ak # gs2" "lacks RekeyAck (gs1 @ gs2)" by (auto simp: core_def)
  have "gs1 = []" using c assms(2) by (cases gs1) auto
  with c have na: "lacks RekeyAck fs" by auto
  have fl: "flow S v (on_client (expected_of ph)) crx (f # fs) hk he hc cl" using assms(1) by (auto simp: core_def)
  have np: "\<not> is_probe f" using assms(2) by (auto simp: is_probe_def)
  from fl np obtain p rx1 rx2 out cl' where o: "open_checked S v crx f = (Some p, rx1)"
    "on_client (expected_of ph) (rf_type f) p rx1 = Some (rx2, out)" "cl = out @ cl'"
    "flow S v (on_client (expected_of ph)) rx2 fs hk he hc cl'" by (rule flow_head)
  with ph assms(2) have p: "p = spk" "rx2 = rx1\<lparr>rx_pending := Some (sk_rx nk)\<rparr>" "out = []"
    by (auto simp: on_client_def split: if_splits)
  have f1: "flow S True (on_host None) hrx c2s (sk_tx nk) (ce + 1) 0 hl"
    using flow_switch [of S None hrx c2s ck cc hl "sk_tx nk"] assms(1) ph v inv by (simp add: core_def)
  have f2: "flow S True (on_client None) (rx1\<lparr>rx_pending := Some (sk_rx nk)\<rparr>) fs hk he hc cl"
    using o(3,4) p v na on_client_ack_cong [of fs S v "expected_of ph" rx2 hk he hc cl' None] by (simp add: lacks_def)
  have "core S v (sk_tx nk) (ce + 1) 0 False None (rx1\<lparr>rx_pending := Some (sk_rx nk)\<rparr>) hk he hc hrx c2s fs Idle hl cl"
    using f1 f2 v na inv assms(1) by (auto simp: core_def)
  with o(1) p inv show ?thesis by (intro that) auto
qed

section \<open>The system\<close>

record sys =
  sy_client :: Connection
  sy_crx :: RxState
  sy_host :: ConnState
  sy_hrx :: RxState
  sy_csent :: frame_log
  sy_hrcvd :: frame_log
  sy_hsent :: frame_log
  sy_crcvd :: frame_log
  sy_up :: bool

fun host_log :: "host_event \<Rightarrow> frame_log" where
  "host_log (HChunk p) = [(StreamChunk, p)]"
| "host_log (HRequest p) = [(Request, p)]"
| "host_log HAgain = []"
| "host_log HStop = []"
| "host_log (HThrow e) = []"

fun host_leaves :: "host_event \<Rightarrow> bool" where
  "host_leaves HStop = True"
| "host_leaves (HThrow e) = True"
| "host_leaves HAgain = False"
| "host_leaves (HChunk p) = False"
| "host_leaves (HRequest p) = False"

fun client_log :: "client_event \<Rightarrow> frame_log" where
  "client_log (CChunk p) = [(StreamChunk, p)]"
| "client_log (CResponse p) = [(Response, p)]"
| "client_log (CError p) = [(Error, p)]"
| "client_log CAgain = []"
| "client_log CStop = []"
| "client_log (CThrow e) = []"

fun client_leaves :: "client_event \<Rightarrow> bool" where
  "client_leaves CStop = True"
| "client_leaves (CThrow e) = True"
| "client_leaves (CError p) = True"
| "client_leaves CAgain = False"
| "client_leaves (CChunk p) = False"
| "client_leaves (CResponse p) = False"

text \<open>The largest payload that fits the 16 MiB frame with its header, epoch and tag.\<close>

definition max_payload :: nat where "max_payload = 16 * 1024 * 1024 - 26"

inductive sys_step :: "sodium \<Rightarrow> sys \<Rightarrow> sys \<Rightarrow> bool" for S where
  client_sends: "ty = Request \<or> ty = StreamChunk \<Longrightarrow> length p \<le> max_payload \<Longrightarrow>
    seal_and_send S (sy_client s) now rnd ty p = Ret (ok, c') \<Longrightarrow>
    sys_step S s (s\<lparr>sy_client := c', sy_csent := sy_csent s @ (if ok then [(ty, p)] else [])\<rparr>)"
| host_sends: "ty = Response \<or> ty = StreamChunk \<Longrightarrow> length p \<le> max_payload \<Longrightarrow>
    send_sealed S (sy_host s) ty p = (ok, h') \<Longrightarrow>
    sys_step S s (s\<lparr>sy_host := h', sy_hsent := sy_hsent s @ (if ok then [(ty, p)] else [])\<rparr>)"
| host_pings: "send_ping (sy_host s) = (ok, h') \<Longrightarrow> sys_step S s (s\<lparr>sy_host := h'\<rparr>)"
| deliver_to_host: "sys_step S s (s\<lparr>
    sy_host := (sy_host s)\<lparr>cs_t := (cs_t (sy_host s))\<lparr>k_in := k_in (cs_t (sy_host s)) @ k_out (conn_transport (sy_client s))\<rparr>\<rparr>,
    sy_client := (sy_client s)\<lparr>conn_transport := (conn_transport (sy_client s))\<lparr>k_out := []\<rparr>\<rparr>\<rparr>)"
| deliver_to_client: "sys_step S s (s\<lparr>
    sy_client := (sy_client s)\<lparr>conn_transport := (conn_transport (sy_client s))\<lparr>k_in := k_in (conn_transport (sy_client s)) @ k_out (cs_t (sy_host s))\<rparr>\<rparr>,
    sy_host := (sy_host s)\<lparr>cs_t := (cs_t (sy_host s))\<lparr>k_out := []\<rparr>\<rparr>\<rparr>)"
| host_reads: "k_in (cs_t (sy_host s)) \<noteq> [] \<Longrightarrow> host_recv S (sy_host s) (sy_hrx s) rnd = (ev, h', hrx') \<Longrightarrow>
    sys_step S s (s\<lparr>sy_host := h', sy_hrx := hrx', sy_hrcvd := sy_hrcvd s @ host_log ev,
      sy_up := (sy_up s \<and> \<not> host_leaves ev)\<rparr>)"
| client_reads: "k_in (conn_transport (sy_client s)) \<noteq> [] \<Longrightarrow> client_recv S (sy_client s) (sy_crx s) now = (ev, c', crx') \<Longrightarrow>
    sys_step S s (s\<lparr>sy_client := c', sy_crx := crx', sy_crcvd := sy_crcvd s @ client_log ev,
      sy_up := (sy_up s \<and> \<not> client_leaves ev)\<rparr>)"

inductive_cases sys_stepE: "sys_step S s s'"

definition sys_start :: "PosixTransport \<Rightarrow> PosixTransport \<Rightarrow> SessionKeys \<Rightarrow> SessionKeys \<Rightarrow> u8 \<Rightarrow> RotationPolicy \<Rightarrow> int \<Rightarrow> sys" where
  "sys_start tc th kc kh version rotation now =
     \<lparr>sy_client = Connection_init tc kc version rotation now, sy_crx = rx_start (sk_rx kc),
      sy_host = ConnState_init th (sk_tx kh) (2 \<le> version), sy_hrx = rx_start (sk_rx kh),
      sy_csent = [], sy_hrcvd = [], sy_hsent = [], sy_crcvd = [], sy_up = True\<rparr>"

definition stream :: "bool \<Rightarrow> RawFrame list \<Rightarrow> bytes" where
  "stream v fs = concat (map (frame_bytes v) fs)"

lemma stream_simps [simp]:
  "stream v [] = []" "stream v (f # fs) = frame_bytes v f @ stream v fs" "stream v (fs @ gs) = stream v fs @ stream v gs"
  by (simp_all add: stream_def)

lemma frame_bytes_nonempty [simp]: "frame_bytes v f \<noteq> []"
  by (simp add: frame_bytes_def put_u32_def)

lemma stream_empty_iff [simp]: "stream v fs = [] \<longleftrightarrow> fs = []" "[] = stream v fs \<longleftrightarrow> fs = []"
  by (cases fs; simp)+

definition sinv :: "sodium \<Rightarrow> Connection \<Rightarrow> RxState \<Rightarrow> ConnState \<Rightarrow> RxState \<Rightarrow> RawFrame list \<Rightarrow> RawFrame list \<Rightarrow> RawFrame list
    \<Rightarrow> RawFrame list \<Rightarrow> phase \<Rightarrow> frame_log \<Rightarrow> frame_log \<Rightarrow> bool" where
  "sinv S c crx h hrx a1 a2 b1 b2 ph hl cl \<longleftrightarrow>
     cs_v2 h = (2 \<le> conn_version c) \<and> cs_alive h \<and> healthy (conn_transport c) \<and> healthy (cs_t h)
     \<and> k_in (cs_t h) = stream (cs_v2 h) a1 \<and> k_out (conn_transport c) = stream (cs_v2 h) a2
     \<and> k_in (conn_transport c) = stream (cs_v2 h) b1 \<and> k_out (cs_t h) = stream (cs_v2 h) b2
     \<and> (\<forall>f \<in> set (a1 @ a2 @ b1 @ b2). frame_wf (cs_v2 h) f)
     \<and> core S (cs_v2 h) (sk_tx (conn_keys c)) (conn_epoch c) (conn_tx_counter c) (conn_rekey_in_progress c)
         (conn_pending_eph c) crx (cs_tx_key h) (cs_epoch h) (cs_tx_counter h) hrx (a1 @ a2) (b1 @ b2) ph hl cl"

lemma sinv_core:
  "sinv S c crx h hrx a1 a2 b1 b2 ph hl cl \<Longrightarrow> core S (cs_v2 h) (sk_tx (conn_keys c)) (conn_epoch c) (conn_tx_counter c)
     (conn_rekey_in_progress c) (conn_pending_eph c) crx (cs_tx_key h) (cs_epoch h) (cs_tx_counter h) hrx (a1 @ a2) (b1 @ b2) ph hl cl"
  unfolding sinv_def by blast

lemma core_epochs: "core S v ck ce cc ip pe crx hk he hc hrx c2s s2c ph hl cl \<Longrightarrow> v \<or> ce = 0 \<and> he = 0"
  by (auto simp: core_def)

lemma core_usable:
  "core S v ck ce cc ip pe crx hk he hc hrx c2s s2c ph hl cl \<Longrightarrow> usable_key S ck \<and> usable_key S hk"
  by (auto simp: core_def flow_def)

lemma sframe_wf:
  assumes "usable_key S key" "v \<or> ep = 0" "length p \<le> max_payload" "frame_type_wf ty"
  shows "frame_wf v (sframe S v key ep ctr ty p)"
  using assms epx.seal_length [OF assms(1), of v ctr ep "u8_of_frame_type ty" p]
  by (auto simp: frame_wf_def max_payload_def)

lemma send_frame_locked_healthy:
  "healthy (conn_transport c) \<Longrightarrow> send_frame_locked S c ty p = (True, c\<lparr>
     conn_transport := (conn_transport c)\<lparr>k_out := k_out (conn_transport c) @ frame_bytes (2 \<le> conn_version c)
       (sframe S (2 \<le> conn_version c) (sk_tx (conn_keys c)) (conn_epoch c) (conn_tx_counter c) ty p)\<rparr>,
     conn_tx_counter := conn_tx_counter c + 1\<rparr>)"
  by (simp add: send_frame_locked_def write_frame_healthy sframe_def seal_as_def Let_def)

lemma send_sealed_healthy:
  "healthy (cs_t h) \<Longrightarrow> cs_alive h \<Longrightarrow> send_sealed S h ty p = (True, h\<lparr>
     cs_t := (cs_t h)\<lparr>k_out := k_out (cs_t h) @ frame_bytes (cs_v2 h)
       (sframe S (cs_v2 h) (cs_tx_key h) (cs_epoch h) (cs_tx_counter h) ty p)\<rparr>,
     cs_tx_counter := cs_tx_counter h + 1\<rparr>)"
  by (simp add: send_sealed_def write_frame_healthy sframe_def seal_as_def Let_def)

lemma sinv_client_frame:
  assumes "sinv S c crx h hrx a1 a2 b1 b2 ph hl cl" "ty = Request \<or> ty = StreamChunk" "length p \<le> max_payload"
  obtains c' f where "send_frame_locked S c ty p = (True, c')" "rf_type f = ty"
    "sinv S c' crx h hrx a1 (a2 @ [f]) b1 b2 ph (hl @ [(ty, p)]) cl"
proof -
  let ?f = "sframe S (cs_v2 h) (sk_tx (conn_keys c)) (conn_epoch c) (conn_tx_counter c) ty p"
  note core = sinv_core [OF assms(1)]
  have wf: "frame_wf (cs_v2 h) ?f"
    using core_usable [OF core] core_epochs [OF core] assms(2,3) by (intro sframe_wf) (auto simp: frame_type_wf_def)
  from core_client_frame [OF core assms(2), of p] wf assms(1) show ?thesis
    by (intro that [OF send_frame_locked_healthy, of ?f]) (auto simp: sinv_def)
qed

lemma sinv_begin_rekey:
  assumes "sinv S c crx h hrx a1 a2 b1 b2 ph hl cl" "rotation_due c now" "generate_ephemeral S r = Ret eph" "sodium_sizes S"
  obtains c' f where "send_frame_locked S c Rekey (eph_public_key eph) = (True, c')" "rf_type f = Rekey"
    "sinv S (c'\<lparr>conn_pending_eph := Some eph, conn_rekey_in_progress := True\<rparr>) crx h hrx a1 (a2 @ [f]) b1 b2 (Offered eph) hl cl"
proof -
  let ?f = "sframe S (cs_v2 h) (sk_tx (conn_keys c)) (conn_epoch c) (conn_tx_counter c) Rekey (eph_public_key eph)"
  note core = sinv_core [OF assms(1)]
  have due: "cs_v2 h" "\<not> conn_rekey_in_progress c" "conn_epoch c < 255"
    using assms(1,2) by (auto simp: rotation_due_def sinv_def Let_def not_le split: if_splits)
  have wf: "frame_wf (cs_v2 h) ?f"
    using core_usable [OF core] due(1) generate_ephemeral_Ret(2) [OF assms(3,4)]
    by (intro sframe_wf) (auto simp: frame_type_wf_def max_payload_def)
  have "core S (cs_v2 h) (sk_tx (conn_keys c)) (conn_epoch c) (conn_tx_counter c + 1) True (Some eph) crx (cs_tx_key h)
      (cs_epoch h) (cs_tx_counter h) hrx ((a1 @ a2) @ [?f]) (b1 @ b2) (Offered eph) hl cl"
    using core due assms(3) by (intro core_client_rekey) auto
  with wf assms(1) show ?thesis
    by (intro that [OF send_frame_locked_healthy, of ?f]) (auto simp: sinv_def)
qed

lemma sinv_bytes [simp]:
  "sinv S (c\<lparr>conn_bytes_since_rotation := n\<rparr>) crx h hrx a1 a2 b1 b2 ph hl cl = sinv S c crx h hrx a1 a2 b1 b2 ph hl cl"
  by (simp add: sinv_def)

lemma sinv_seal_and_send:
  assumes "sinv S c crx h hrx a1 a2 b1 b2 ph hl cl" "ty = Request \<or> ty = StreamChunk" "length p \<le> max_payload"
    and "seal_and_send S c now r ty p = Ret (ok, c')" "sodium_sizes S"
  shows "ok \<and> (\<exists>a3 ph'. sinv S c' crx h hrx a1 a3 b1 b2 ph' (hl @ [(ty, p)]) cl)"
proof -
  have "\<exists>a3 ph' c1. maybe_begin_rekey_locked S c now r = Ret c1 \<and> sinv S c1 crx h hrx a1 a3 b1 b2 ph' hl cl"
  proof (cases "rotation_due c now")
    case True
    with assms(4) obtain eph where eph: "generate_ephemeral S r = Ret eph"
      by (auto simp: seal_and_send_def ex_bind_eq_Ret_iff maybe_begin_rekey_locked_def split: ex.splits)
    from sinv_begin_rekey [OF assms(1) True eph assms(5)] obtain c' f where
      "send_frame_locked S c Rekey (eph_public_key eph) = (True, c')"
      "sinv S (c'\<lparr>conn_pending_eph := Some eph, conn_rekey_in_progress := True\<rparr>) crx h hrx a1 (a2 @ [f]) b1 b2 (Offered eph) hl cl"
      by metis
    with True eph show ?thesis by (auto simp: maybe_begin_rekey_locked_def)
  qed (use assms(1) in \<open>auto simp: maybe_begin_rekey_locked_def\<close>)
  then obtain a3 ph' c1 where m: "maybe_begin_rekey_locked S c now r = Ret c1" "sinv S c1 crx h hrx a1 a3 b1 b2 ph' hl cl"
    by blast
  from sinv_client_frame [OF m(2) assms(2,3)] obtain c2 f where "send_frame_locked S c1 ty p = (True, c2)"
    "sinv S c2 crx h hrx a1 (a3 @ [f]) b1 b2 ph' (hl @ [(ty, p)]) cl" by metis
  moreover from this m(1) assms(4) have "ok" "c' = c2\<lparr>conn_bytes_since_rotation := conn_bytes_since_rotation c2
      + word_of_nat (length p)\<rparr>" by (auto simp: seal_and_send_def)
  ultimately show ?thesis by (metis sinv_bytes)
qed

lemma sinv_send_sealed:
  assumes "sinv S c crx h hrx a1 a2 b1 b2 ph hl cl" "ty = Response \<or> ty = StreamChunk" "length p \<le> max_payload"
    and "send_sealed S h ty p = (ok, h')"
  shows "ok \<and> (\<exists>f. rf_type f = ty \<and> sinv S c crx h' hrx a1 a2 b1 (b2 @ [f]) ph hl (cl @ [(ty, p)]))"
proof -
  let ?f = "sframe S (cs_v2 h) (cs_tx_key h) (cs_epoch h) (cs_tx_counter h) ty p"
  note core = sinv_core [OF assms(1)]
  have wf: "frame_wf (cs_v2 h) ?f"
    using core_usable [OF core] core_epochs [OF core] assms(2,3) by (intro sframe_wf) (auto simp: frame_type_wf_def)
  have h: "healthy (cs_t h)" "cs_alive h" using assms(1) by (auto simp: sinv_def)
  from core_host_frame [OF core assms(2), of p] wf assms(1) show ?thesis
    using assms(4) unfolding send_sealed_healthy [OF h] by (auto simp: sinv_def intro!: exI [of _ ?f])
qed

lemma probe_wf: "is_probe f \<Longrightarrow> rf_epoch f = 0 \<Longrightarrow> rf_body f = [] \<Longrightarrow> frame_wf v f"
  by (auto simp: is_probe_def frame_wf_def frame_type_wf_def)

lemma sinv_send_ping:
  assumes "sinv S c crx h hrx a1 a2 b1 b2 ph hl cl" "send_ping h = (ok, h')"
  shows "\<exists>b3. sinv S c crx h' hrx a1 a2 b1 b3 ph hl cl"
proof -
  let ?f = "\<lparr>rf_type = Ping, rf_counter = 0, rf_epoch = 0, rf_body = []\<rparr>"
  have "is_probe ?f" "frame_wf (cs_v2 h) ?f" using probe_wf [of ?f] by (auto simp: is_probe_def)
  with core_host_probe [OF sinv_core [OF assms(1)], of ?f] assms show ?thesis
    by (intro exI [of _ "b2 @ [?f]"]) (auto simp: sinv_def send_ping_def write_frame_healthy)
qed

lemma host_answers_rekey:
  assumes "sinv S c crx h hrx a1 a2 b1 b2 ph hl cl" "a1 = f # fs" "rf_type f = Rekey"
    and S: "sodium_sizes S" "kx_agrees S" "aead_correct S" and r: "generate_ephemeral S r = Ret seph"
  obtains h' hrx' ak eph spk nk where "host_recv S h hrx r = (HAgain, h', hrx')" "rf_type ak = RekeyAck"
    "sinv S c crx h' hrx' fs a2 b1 (b2 @ [ak]) (Acked eph spk nk) hl cl"
proof -
  have core: "core S (cs_v2 h) (sk_tx (conn_keys c)) (conn_epoch c) (conn_tx_counter c) (conn_rekey_in_progress c)
     (conn_pending_eph c) crx (cs_tx_key h) (cs_epoch h) (cs_tx_counter h) hrx (f # (fs @ a2)) (b1 @ b2) ph hl cl"
    using sinv_core [OF assms(1)] assms(2) by simp
  have rd: "read_frame (cs_t h) (cs_v2 h) = (Ok f, (cs_t h)\<lparr>k_in := stream (cs_v2 h) fs\<rparr>)"
    using assms(1,2) by (intro read_frame_healthy) (auto simp: sinv_def)
  let ?h = "h\<lparr>cs_t := (cs_t h)\<lparr>k_in := stream (cs_v2 h) fs\<rparr>\<rparr>"
  let ?ak = "sframe S (cs_v2 h) (cs_tx_key h) (cs_epoch h) (cs_tx_counter h) RekeyAck (eph_public_key seph)"
  from core_host_reads_rekey [OF core assms(3) S r] obtain eph rx1 nk nkc where
    o: "open_checked S (cs_v2 h) hrx f = (Some (eph_public_key eph), rx1)" "cs_v2 h" "cs_epoch h < 255"
    "length (eph_public_key eph) = 32" "server_session_keys S seph (eph_public_key eph) = Ret nk"
    and core': "core S (cs_v2 h) (sk_tx (conn_keys c)) (conn_epoch c) (conn_tx_counter c) (conn_rekey_in_progress c)
        (conn_pending_eph c) crx (sk_tx nk) (cs_epoch h + 1) 0 (rx1\<lparr>rx_pending := Some (sk_rx nk)\<rparr>) (fs @ a2)
        ((b1 @ b2) @ [?ak]) (Acked eph (eph_public_key seph) nkc) hl cl" by metis
  have wf: "frame_wf (cs_v2 h) ?ak"
    using core_usable [OF core] o(2) generate_ephemeral_Ret(2) [OF r S(1)]
    by (intro sframe_wf) (auto simp: frame_type_wf_def max_payload_def)
  define h' where "h' = ?h\<lparr>cs_t := (cs_t ?h)\<lparr>k_out := k_out (cs_t h) @ frame_bytes (cs_v2 h) ?ak\<rparr>, cs_tx_key := sk_tx nk,
        cs_epoch := cs_epoch h + 1, cs_tx_counter := 0\<rparr>"
  have snd: "send_rekey_ack_and_switch S ?h (eph_public_key seph) (sk_tx nk) = (True, h')"
    using assms(1) o(2)
    by (simp add: send_rekey_ack_and_switch_def write_frame_healthy sinv_def sframe_def seal_as_def h'_def)
  have ne: "(255 \<le> cs_epoch h) = False" using o(3) by (simp only: not_le [symmetric])
  have "host_recv S h hrx r = (HAgain, h', rx1\<lparr>rx_pending := Some (sk_rx nk)\<rparr>)"
    unfolding host_recv_def rd using assms(3) o(1,2,4,5) ne r snd by (simp add: Let_def)
  moreover have "sinv S c crx h' (rx1\<lparr>rx_pending := Some (sk_rx nk)\<rparr>) fs a2 b1 (b2 @ [?ak]) (Acked eph (eph_public_key seph) nkc) hl cl"
    using core' wf assms(1,2) by (auto simp: sinv_def h'_def)
  ultimately show ?thesis by (intro that) auto
qed

lemma sinv_host_read:
  assumes "sinv S c crx h hrx a1 a2 b1 b2 ph hl cl" "a1 \<noteq> []" "host_recv S h hrx r = (ev, h', hrx')"
    and S: "sodium_sizes S" "kx_agrees S" "aead_correct S" "\<forall>r. crypto_kx_keypair S r \<noteq> None"
  shows "\<not> host_leaves ev \<and> (\<exists>a3 b3 ph' hl'. hl = host_log ev @ hl' \<and> sinv S c crx h' hrx' a3 a2 b1 b3 ph' hl' cl)"
proof -
  obtain f fs where a1: "a1 = f # fs" using assms(2) by (cases a1) auto
  have core: "core S (cs_v2 h) (sk_tx (conn_keys c)) (conn_epoch c) (conn_tx_counter c) (conn_rekey_in_progress c)
     (conn_pending_eph c) crx (cs_tx_key h) (cs_epoch h) (cs_tx_counter h) hrx (f # (fs @ a2)) (b1 @ b2) ph hl cl"
    using sinv_core [OF assms(1)] a1 by simp
  have rd: "read_frame (cs_t h) (cs_v2 h) = (Ok f, (cs_t h)\<lparr>k_in := stream (cs_v2 h) fs\<rparr>)"
    using assms(1) a1 by (intro read_frame_healthy) (auto simp: sinv_def)
  let ?h = "h\<lparr>cs_t := (cs_t h)\<lparr>k_in := stream (cs_v2 h) fs\<rparr>\<rparr>"
  show ?thesis
  proof (cases "rf_type f = Rekey")
    case False
    from core_host_reads_data [OF core False] obtain p rx1 hl' where
      o: "open_checked S (cs_v2 h) hrx f = (Some p, rx1)" "rf_type f = Request \<or> rf_type f = StreamChunk" "hl = (rf_type f, p) # hl'"
      "core S (cs_v2 h) (sk_tx (conn_keys c)) (conn_epoch c) (conn_tx_counter c) (conn_rekey_in_progress c)
        (conn_pending_eph c) crx (cs_tx_key h) (cs_epoch h) (cs_tx_counter h) rx1 (fs @ a2) (b1 @ b2) ph hl' cl" by metis
    have "ev = (if rf_type f = Request then HRequest p else HChunk p)" "h' = ?h" "hrx' = rx1"
      using assms(3) o(1,2) by (auto simp: host_recv_def rd Let_def)
    with o assms(1) a1 show ?thesis
      by (intro conjI exI [of _ fs] exI [of _ b2] exI [of _ ph] exI [of _ hl']) (auto simp: sinv_def)
  next
    case True
    from S(4) obtain pk sk where "crypto_kx_keypair S r = Some (pk, sk)" by (metis not_None_eq surj_pair)
    then obtain seph where se: "generate_ephemeral S r = Ret seph" by (simp add: generate_ephemeral_def)
    from host_answers_rekey [OF assms(1) a1 True S(1-3) se] obtain h2 hrx2 ak eph spk nk where
      "host_recv S h hrx r = (HAgain, h2, hrx2)" "sinv S c crx h2 hrx2 fs a2 b1 (b2 @ [ak]) (Acked eph spk nk) hl cl"
      by metis
    with assms(3) show ?thesis by (auto intro!: exI [of _ hl])
  qed
qed

lemma sinv_client_read:
  assumes "sinv S c crx h hrx a1 a2 b1 b2 ph hl cl" "b1 \<noteq> []" "client_recv S c crx now = (ev, c', crx')"
  shows "\<not> client_leaves ev \<and> (\<exists>ph' cl'. cl = client_log ev @ cl' \<and> sinv S c' crx' h hrx a1 a2 (tl b1) b2 ph' hl cl')"
proof -
  obtain f fs where b1: "b1 = f # fs" using assms(2) by (cases b1) auto
  have core: "core S (cs_v2 h) (sk_tx (conn_keys c)) (conn_epoch c) (conn_tx_counter c) (conn_rekey_in_progress c)
     (conn_pending_eph c) crx (cs_tx_key h) (cs_epoch h) (cs_tx_counter h) hrx (a1 @ a2) (f # (fs @ b2)) ph hl cl"
    using sinv_core [OF assms(1)] b1 by simp
  have v: "(2 \<le> conn_version c) = cs_v2 h" using assms(1) by (simp add: sinv_def)
  have rd: "read_frame (conn_transport c) (cs_v2 h) = (Ok f, (conn_transport c)\<lparr>k_in := stream (cs_v2 h) fs\<rparr>)"
    using assms(1) b1 by (intro read_frame_healthy) (auto simp: sinv_def)
  let ?c = "c\<lparr>conn_transport := (conn_transport c)\<lparr>k_in := stream (cs_v2 h) fs\<rparr>\<rparr>"
  consider (probe) "is_probe f" | (ack) "rf_type f = RekeyAck" | (dat) "\<not> is_probe f" "rf_type f \<noteq> RekeyAck" by blast
  then show ?thesis
  proof cases
    case probe
    from core_client_reads_probe [OF core probe] have core': "core S (cs_v2 h) (sk_tx (conn_keys c)) (conn_epoch c)
      (conn_tx_counter c) (conn_rekey_in_progress c) (conn_pending_eph c) crx (cs_tx_key h) (cs_epoch h) (cs_tx_counter h)
      hrx (a1 @ a2) (fs @ b2) ph hl cl" .
    have "ev = CAgain" "c' = ?c" "crx' = crx"
      using assms(3) probe by (auto simp: client_recv_def v rd Let_def is_probe_def)
    with core' assms(1) b1 show ?thesis
      by (intro conjI exI [of _ ph] exI [of _ cl]) (auto simp: sinv_def)
  next
    case dat
    from core_client_reads_data [OF core dat(2,1)] obtain p rx1 cl' where
      o: "open_checked S (cs_v2 h) crx f = (Some p, rx1)" "rf_type f = Response \<or> rf_type f = StreamChunk" "cl = (rf_type f, p) # cl'"
      "core S (cs_v2 h) (sk_tx (conn_keys c)) (conn_epoch c) (conn_tx_counter c) (conn_rekey_in_progress c)
        (conn_pending_eph c) rx1 (cs_tx_key h) (cs_epoch h) (cs_tx_counter h) hrx (a1 @ a2) (fs @ b2) ph hl cl'" by metis
    have "ev = (if rf_type f = Response then CResponse p else CChunk p)" "c' = ?c" "crx' = rx1"
      using assms(3) o(1,2) by (auto simp: client_recv_def v rd Let_def reader_open_checked_eq)
    with o assms(1) b1 show ?thesis
      by (intro conjI exI [of _ ph] exI [of _ cl']) (auto simp: sinv_def)
  next
    case ack
    from core_client_reads_ack [OF core ack] obtain eph spk nk rx1 where
      o: "open_checked S (cs_v2 h) crx f = (Some spk, rx1)" "length spk = 32" "conn_pending_eph c = Some eph"
      "client_session_keys S eph spk = Ret nk"
      and core': "core S (cs_v2 h) (sk_tx nk) (conn_epoch c + 1) 0 False None (rx1\<lparr>rx_pending := Some (sk_rx nk)\<rparr>)
        (cs_tx_key h) (cs_epoch h) (cs_tx_counter h) hrx (a1 @ a2) (fs @ b2) Idle hl cl" by metis
    have "ev = CAgain" "c' = switch_tx (?c\<lparr>conn_pending_eph := None\<rparr>) (sk_tx nk) now"
      "crx' = rx1\<lparr>rx_pending := Some (sk_rx nk)\<rparr>"
      using assms(3) o ack by (auto simp: client_recv_def v rd Let_def reader_open_checked_eq)
    with core' assms(1) b1 show ?thesis
      by (intro conjI exI [of _ Idle] exI [of _ cl]) (auto simp: sinv_def switch_tx_def)
  qed
qed

definition sys_inv :: "sodium \<Rightarrow> sys \<Rightarrow> bool" where
  "sys_inv S s \<longleftrightarrow> sy_up s \<and> (\<exists>a1 a2 b1 b2 ph hl cl.
     sinv S (sy_client s) (sy_crx s) (sy_host s) (sy_hrx s) a1 a2 b1 b2 ph hl cl
     \<and> sy_csent s = sy_hrcvd s @ hl \<and> sy_hsent s = sy_crcvd s @ cl)"

lemma sys_invI:
  assumes "sinv S (sy_client s) (sy_crx s) (sy_host s) (sy_hrx s) a1 a2 b1 b2 ph hl cl"
    and "sy_up s" "sy_csent s = sy_hrcvd s @ hl" "sy_hsent s = sy_crcvd s @ cl"
  shows "sys_inv S s"
  unfolding sys_inv_def using assms by blast

lemma sinv_deliver_host:
  "sinv S c crx h hrx a1 a2 b1 b2 ph hl cl \<Longrightarrow>
   sinv S (c\<lparr>conn_transport := (conn_transport c)\<lparr>k_out := []\<rparr>\<rparr>) crx
     (h\<lparr>cs_t := (cs_t h)\<lparr>k_in := k_in (cs_t h) @ k_out (conn_transport c)\<rparr>\<rparr>) hrx (a1 @ a2) [] b1 b2 ph hl cl"
  by (auto simp: sinv_def)

lemma sinv_deliver_client:
  "sinv S c crx h hrx a1 a2 b1 b2 ph hl cl \<Longrightarrow>
   sinv S (c\<lparr>conn_transport := (conn_transport c)\<lparr>k_in := k_in (conn_transport c) @ k_out (cs_t h)\<rparr>\<rparr>) crx
     (h\<lparr>cs_t := (cs_t h)\<lparr>k_out := []\<rparr>\<rparr>) hrx a1 a2 (b1 @ b2) [] ph hl cl"
  by (auto simp: sinv_def)

lemma sys_inv_step:
  assumes "sys_step S s s'" "sys_inv S s"
    and S: "sodium_sizes S" "kx_agrees S" "aead_correct S" "\<forall>r. crypto_kx_keypair S r \<noteq> None"
  shows "sys_inv S s'"
proof -
  from assms(2) obtain a1 a2 b1 b2 ph hl cl where
    inv: "sinv S (sy_client s) (sy_crx s) (sy_host s) (sy_hrx s) a1 a2 b1 b2 ph hl cl"
    and up: "sy_up s" and logs: "sy_csent s = sy_hrcvd s @ hl" "sy_hsent s = sy_crcvd s @ cl"
    by (auto simp: sys_inv_def)
  from assms(1) show ?thesis
  proof cases
    case (client_sends ty p now rnd ok c')
    from sinv_seal_and_send [OF inv client_sends(2-4) S(1)] obtain a3 ph' where
      "ok" "sinv S c' (sy_crx s) (sy_host s) (sy_hrx s) a1 a3 b1 b2 ph' (hl @ [(ty, p)]) cl" by blast
    with up logs client_sends(1) show ?thesis by (auto intro: sys_invI)
  next
    case (host_sends ty p ok h')
    from sinv_send_sealed [OF inv host_sends(2-4)] obtain f where
      "ok" "sinv S (sy_client s) (sy_crx s) h' (sy_hrx s) a1 a2 b1 (b2 @ [f]) ph hl (cl @ [(ty, p)])" by blast
    with up logs host_sends(1) show ?thesis by (auto intro: sys_invI)
  next
    case (host_pings ok h')
    from sinv_send_ping [OF inv host_pings(2)] obtain b3 where
      "sinv S (sy_client s) (sy_crx s) h' (sy_hrx s) a1 a2 b1 b3 ph hl cl" by blast
    with up logs host_pings(1) show ?thesis by (auto intro: sys_invI)
  next
    case deliver_to_host
    with sinv_deliver_host [OF inv] up logs show ?thesis by (auto intro: sys_invI)
  next
    case deliver_to_client
    with sinv_deliver_client [OF inv] up logs show ?thesis by (auto intro: sys_invI)
  next
    case (host_reads rnd ev h' hrx')
    from host_reads(2) inv have "a1 \<noteq> []" by (auto simp: sinv_def)
    from sinv_host_read [OF inv this host_reads(3) S] obtain a3 b3 ph' hl' where
      "\<not> host_leaves ev" "hl = host_log ev @ hl'" "sinv S (sy_client s) (sy_crx s) h' hrx' a3 a2 b1 b3 ph' hl' cl" by blast
    with up logs host_reads(1) show ?thesis by (auto intro: sys_invI)
  next
    case (client_reads now ev c' crx')
    from client_reads(2) inv have "b1 \<noteq> []" by (auto simp: sinv_def)
    from sinv_client_read [OF inv this client_reads(3)] obtain ph' cl' where
      "\<not> client_leaves ev" "cl = client_log ev @ cl'" "sinv S c' crx' (sy_host s) (sy_hrx s) a1 a2 (tl b1) b2 ph' hl cl'" by blast
    with up logs client_reads(1) show ?thesis by (auto intro: sys_invI)
  qed
qed

lemma sinv_start:
  assumes "healthy tc" "healthy th" "k_in tc = []" "k_out tc = []" "k_in th = []" "k_out th = []"
    and "sk_tx kc = sk_rx kh" "sk_rx kc = sk_tx kh" "usable_key S (sk_tx kc)" "usable_key S (sk_rx kc)"
  shows "sinv S (Connection_init tc kc version rotation now) (rx_start (sk_rx kc)) (ConnState_init th (sk_tx kh) (2 \<le> version))
      (rx_start (sk_rx kh)) [] [] [] [] Idle [] []"
  using assms by (simp add: sinv_def Connection_init_def ConnState_init_def rx_start_def core_def flow_def synced_def)

lemma sys_inv_start:
  assumes "healthy tc" "healthy th" "k_in tc = []" "k_out tc = []" "k_in th = []" "k_out th = []"
    and "sk_tx kc = sk_rx kh" "sk_rx kc = sk_tx kh" "usable_key S (sk_tx kc)" "usable_key S (sk_rx kc)"
  shows "sys_inv S (sys_start tc th kc kh version rotation now)"
  using sinv_start [OF assms] by (intro sys_invI) (simp_all add: sys_start_def)

lemma sys_inv_reachable:
  assumes "(sys_step S)\<^sup>*\<^sup>* s s'" "sys_inv S s"
    and "sodium_sizes S" "kx_agrees S" "aead_correct S" "\<forall>r. crypto_kx_keypair S r \<noteq> None"
  shows "sys_inv S s'"
  using assms by (induction rule: rtranclp_induct) (auto intro: sys_inv_step)

lemma flow_empty: "flow S v on rx [] key ep ctr l \<Longrightarrow> l = []"
  by (auto simp: flow_def)

lemma sinv_quiet:
  assumes "sinv S c crx h hrx a1 a2 b1 b2 ph hl cl"
  shows "k_in (cs_t h) = [] \<and> k_out (conn_transport c) = [] \<Longrightarrow> hl = []"
    and "k_in (conn_transport c) = [] \<and> k_out (cs_t h) = [] \<Longrightarrow> cl = []"
proof -
  note core = sinv_core [OF assms, unfolded core_def]
  show "k_in (cs_t h) = [] \<and> k_out (conn_transport c) = [] \<Longrightarrow> hl = []"
  proof -
    assume "k_in (cs_t h) = [] \<and> k_out (conn_transport c) = []"
    with assms have "a1 = []" "a2 = []" by (simp_all add: sinv_def)
    with core flow_empty show "hl = []" by simp blast
  qed
  show "k_in (conn_transport c) = [] \<and> k_out (cs_t h) = [] \<Longrightarrow> cl = []"
  proof -
    assume "k_in (conn_transport c) = [] \<and> k_out (cs_t h) = []"
    with assms have "b1 = []" "b2 = []" by (simp_all add: sinv_def)
    with core flow_empty show "cl = []" by simp blast
  qed
qed


lemma toy_kx_total: "\<forall>r. crypto_kx_keypair toy_sodium r \<noteq> None"
  by (simp add: toy_sodium_def)


section \<open>A race in the client\<close>

text \<open>The theorem above takes \<open>seal_and_send\<close> as one step. Its mutex does not exclude the reader, and
  \<open>maybe_begin_rekey_locked\<close> writes the REKEY frame before it stores the ephemeral key: the reader may
  see the answer in between.\<close>

lemma unsolicited_ack_stops_client:
  assumes "read_frame (conn_transport c) (2 \<le> conn_version c) = (Ok f, t)" "rf_type f = RekeyAck" "conn_pending_eph c = None"
  shows "fst (client_recv S c crx now) = CStop"
  using assms by (auto simp: client_recv_def Let_def split: prod.splits option.splits)

text \<open>The race is real. From a quiet honest session in which a rotation is due, let the client write
  the REKEY frame (state \<open>c1\<close>, in which the ephemeral key is not stored yet), let the host answer it and
  let the client's reader run before the sender goes on: the reader takes the answer for an unsolicited
  one and leaves its loop, which closes the connection.\<close>

theorem rekey_ack_race_closes_connection:
  assumes "sodium_sizes S" "kx_agrees S" "aead_correct S"
    and "sinv S c crx h hrx [] [] [] [] Idle [] []" "rotation_due c now"
    and "generate_ephemeral S r = Ret eph" "generate_ephemeral S r' = Ret seph"
    and "send_frame_locked S c Rekey (eph_public_key eph) = (True, c1)"
    and "host_recv S (h\<lparr>cs_t := (cs_t h)\<lparr>k_in := k_out (conn_transport c1)\<rparr>\<rparr>) hrx r' = (ev, h2, hrx2)"
  shows "ev = HAgain
    \<and> fst (client_recv S (c1\<lparr>conn_transport := (conn_transport c1)\<lparr>k_in := k_out (cs_t h2), k_out := []\<rparr>\<rparr>) crx now') = CStop"
proof -
  let ?v = "cs_v2 h"
  let ?c2 = "c1\<lparr>conn_pending_eph := Some eph, conn_rekey_in_progress := True\<rparr>"
  have h: "healthy (conn_transport c)" "(2 \<le> conn_version c) = ?v" "k_in (cs_t h) = []"
    "k_out (conn_transport c) = []" "conn_pending_eph c = None"
    using assms(4) by (auto simp: sinv_def core_def)
  have c1: "conn_version c1 = conn_version c" "conn_pending_eph c1 = None" "healthy (conn_transport c1)"
    using assms(8) send_frame_locked_healthy [OF h(1), of S Rekey "eph_public_key eph"] h(1,5) by auto
  from sinv_begin_rekey [OF assms(4,5,6,1)] assms(8) obtain f0 where
    "sinv S ?c2 crx h hrx [] ([] @ [f0]) [] [] (Offered eph) [] []" by (metis prod.inject)
  from sinv_deliver_host [OF this] have del: "sinv S (?c2\<lparr>conn_transport := (conn_transport c1)\<lparr>k_out := []\<rparr>\<rparr>) crx
      (h\<lparr>cs_t := (cs_t h)\<lparr>k_in := k_out (conn_transport c1)\<rparr>\<rparr>) hrx ([] @ [f0]) [] [] [] (Offered eph) [] []"
    using h(3) by simp
  from sinv_core [OF del] have ty: "rf_type f0 = Rekey" by (auto simp: core_def Cons_eq_append_conv)
  have f0: "[] @ [f0] = f0 # []" by simp
  obtain h3 hrx3 ak eph' spk nk where ak: "rf_type ak = RekeyAck"
    and hr: "host_recv S (h\<lparr>cs_t := (cs_t h)\<lparr>k_in := k_out (conn_transport c1)\<rparr>\<rparr>) hrx r' = (HAgain, h3, hrx3)"
    and inv3: "sinv S (?c2\<lparr>conn_transport := (conn_transport c1)\<lparr>k_out := []\<rparr>\<rparr>) crx h3 hrx3 [] [] [] ([] @ [ak]) (Acked eph' spk nk) [] []"
    by (rule host_answers_rekey [OF del f0 ty assms(1-3,7)])
  from hr assms(9) have ev: "ev = HAgain" and "h3 = h2" "hrx3 = hrx2" by auto
  with inv3 have inv: "sinv S (?c2\<lparr>conn_transport := (conn_transport c1)\<lparr>k_out := []\<rparr>\<rparr>) crx h2 hrx2 [] [] [] ([] @ [ak]) (Acked eph' spk nk) [] []"
    by simp
  have v2: "cs_v2 h2 = ?v" using inv unfolding sinv_def by (simp add: c1(1) h(2))
  have out: "k_out (cs_t h2) = frame_bytes ?v ak" "frame_wf ?v ak"
    using inv unfolding sinv_def v2 by auto
  have "read_frame ((conn_transport c1)\<lparr>k_in := k_out (cs_t h2), k_out := []\<rparr>) ?v
      = (Ok ak, (conn_transport c1)\<lparr>k_in := k_out (cs_t h2), k_out := []\<rparr>\<lparr>k_in := []\<rparr>)"
    using out c1(3) by (intro read_frame_healthy) simp_all
  then have "fst (client_recv S (c1\<lparr>conn_transport := (conn_transport c1)\<lparr>k_in := k_out (cs_t h2), k_out := []\<rparr>\<rparr>) crx now') = CStop"
    using ak h(2) c1(1,2) by (intro unsolicited_ack_stops_client) auto
  with ev show ?thesis by blast
qed

theorem rekey_ack_race_closes_connection_witness:
  "\<exists>c1 h2 hrx2. let c = Connection_init (posix_transport 3 0) \<lparr>sk_rx = replicate 32 1, sk_tx = replicate 32 2\<rparr> 2
         \<lparr>rot_interval = 1, rot_max_bytes = 0\<rparr> 0;
       h = ConnState_init (posix_transport 4 0) (replicate 32 1) True
     in rotation_due c 1000000000 \<and> send_frame_locked toy_sodium c Rekey (eph_public_key (toy_eph [5])) = (True, c1)
        \<and> host_recv toy_sodium (h\<lparr>cs_t := (cs_t h)\<lparr>k_in := k_out (conn_transport c1)\<rparr>\<rparr>) (rx_start (replicate 32 2)) [6]
            = (HAgain, h2, hrx2)
        \<and> fst (client_recv toy_sodium (c1\<lparr>conn_transport := (conn_transport c1)\<lparr>k_in := k_out (cs_t h2), k_out := []\<rparr>\<rparr>)
                 (rx_start (replicate 32 1)) 1000000001) = CStop"
proof -
  let ?c = "Connection_init (posix_transport 3 0) \<lparr>sk_rx = replicate 32 1, sk_tx = replicate 32 2\<rparr> 2
         \<lparr>rot_interval = 1, rot_max_bytes = 0\<rparr> 0"
  let ?h = "ConnState_init (posix_transport 4 0) (replicate 32 1) True"
  have inv: "sinv toy_sodium ?c (rx_start (replicate 32 1)) ?h (rx_start (replicate 32 2)) [] [] [] [] Idle [] []"
    using sinv_start [of "posix_transport 3 0" "posix_transport 4 0" "\<lparr>sk_rx = replicate 32 1, sk_tx = replicate 32 2\<rparr>"
        "\<lparr>sk_rx = replicate 32 2, sk_tx = replicate 32 1\<rparr>" toy_sodium 2 "\<lparr>rot_interval = 1, rot_max_bytes = 0\<rparr>" 0]
    by (simp add: usable_key_def toy_sizes toy_aead_correct)
  have due: "rotation_due ?c 1000000000" by (simp add: rotation_due_def Connection_init_def)
  obtain c1 where c1: "send_frame_locked toy_sodium ?c Rekey (eph_public_key (toy_eph [5])) = (True, c1)"
    by (simp add: send_frame_locked_def Connection_init_def write_frame_healthy Let_def)
  obtain ev h2 hrx2 where hr: "host_recv toy_sodium (?h\<lparr>cs_t := (cs_t ?h)\<lparr>k_in := k_out (conn_transport c1)\<rparr>\<rparr>)
      (rx_start (replicate 32 2)) [6] = (ev, h2, hrx2)" by (metis prod_cases3)
  from rekey_ack_race_closes_connection [OF toy_sizes toy_kx_agrees toy_aead_correct inv due toy_generate(2) toy_generate(2) c1 hr, of 1000000001]
  show ?thesis unfolding Let_def using due c1 hr by blast
qed

end
