(* ===== verification/Epx_Text.thy ===== *)
theory Epx_Text
  imports Epx_Types "HOL-Library.AList"
begin

text \<open>
  The text helpers of the file formats: hexadecimal as \<^verbatim>\<open>src/keystore.cpp\<close>, \<^verbatim>\<open>src/registry.cpp\<close> and
  \<^verbatim>\<open>src/credentials.cpp\<close> write it (three identical copies), \<open>join\<close> and \<open>split\<close> of the registry, and the
  parts of the C++ library they use: \<open>std::getline\<close>, \<open>find\<close>/\<open>substr\<close>, decimal output, and the number
  parsers \<open>stoi\<close>, \<open>stol\<close> and \<open>stoull\<close> with their range checks.
\<close>

section \<open>Lines and fields\<close>

definition nl :: char where "nl = CHR 0x0A"

text \<open>All results of \<open>std::getline(in, line, d)\<close> until it fails: the pieces between delimiters, and the
  last piece only if it is not empty.\<close>

function getlines :: "char \<Rightarrow> string \<Rightarrow> string list" where
  "getlines d s = (if s = [] then []
     else takeWhile (\<lambda>c. c \<noteq> d) s # getlines d (tl (dropWhile (\<lambda>c. c \<noteq> d) s)))"
  by pat_completeness auto
termination
proof (relation "measure (\<lambda>(d, s). length s)")
  fix d and s :: string
  assume s: "s \<noteq> []"
  have "length (dropWhile (\<lambda>c. c \<noteq> d) s) \<le> length s" by (rule length_dropWhile_le)
  then have "length (tl (dropWhile (\<lambda>c. c \<noteq> d) s)) < length s" using s by (cases s) auto
  then show "((d, tl (dropWhile (\<lambda>c. c \<noteq> d) s)), d, s) \<in> measure (\<lambda>(d, s). length s)" by simp
qed simp

declare getlines.simps [simp del]

text \<open>\<open>size_t i = s.find(c)\<close> with \<open>s.substr(0, i)\<close> and \<open>s.substr(i + 1)\<close>; \<open>None\<close> is \<open>npos\<close>.\<close>

definition split_at :: "char \<Rightarrow> string \<Rightarrow> (string \<times> string) option" where
  "split_at c s = (if c \<in> set s then Some (takeWhile (\<lambda>x. x \<noteq> c) s, tl (dropWhile (\<lambda>x. x \<noteq> c) s)) else None)"

text \<open>The same with \<open>find_last_of\<close>.\<close>

definition split_last :: "char \<Rightarrow> string \<Rightarrow> (string \<times> string) option" where
  "split_last c s = map_option (\<lambda>(a, b). (rev b, rev a)) (split_at c (rev s))"

lemma getlines_Nil [simp]: "getlines d [] = []"
  by (subst getlines.simps) simp

lemma takeWhile_append_delim: "d \<notin> set l \<Longrightarrow> takeWhile (\<lambda>c. c \<noteq> d) (l @ d # s) = l"
  by (induction l) auto

lemma dropWhile_append_delim: "d \<notin> set l \<Longrightarrow> dropWhile (\<lambda>c. c \<noteq> d) (l @ d # s) = d # s"
  by (induction l) auto

lemma getlines_line [simp]: "d \<notin> set l \<Longrightarrow> getlines d (l @ d # s) = l # getlines d s"
  by (subst getlines.simps) (simp add: takeWhile_append_delim dropWhile_append_delim)

lemma takeWhile_no_delim: "d \<notin> set l \<Longrightarrow> takeWhile (\<lambda>c. c \<noteq> d) l = l"
  by (induction l) auto

lemma dropWhile_no_delim: "d \<notin> set l \<Longrightarrow> dropWhile (\<lambda>c. c \<noteq> d) l = []"
  by (induction l) auto

lemma getlines_last: "d \<notin> set l \<Longrightarrow> l \<noteq> [] \<Longrightarrow> getlines d l = [l]"
  by (subst getlines.simps) (simp add: takeWhile_no_delim dropWhile_no_delim)

lemma getlines_lines: "\<forall>l \<in> set ls. d \<notin> set l \<Longrightarrow> getlines d (concat (map (\<lambda>l. l @ [d]) ls)) = ls"
  by (induction ls) auto

lemma getlines_append_line: "d \<notin> set l \<Longrightarrow> (s = [] \<or> last s = d) \<Longrightarrow> getlines d (s @ l @ [d]) = getlines d s @ [l]"
proof (induction d s rule: getlines.induct)
  case (1 d s)
  show ?case
  proof (cases "s = []")
    case True
    then show ?thesis using getlines_line [of d l "[]"] 1 by simp
  next
    case False
    then have "d \<in> set s" using "1.prems"(2) last_in_set by auto
    then obtain a b where ab: "s = a @ d # b" "d \<notin> set a" by (auto dest: split_list_first)
    have "tl (dropWhile (\<lambda>c. c \<noteq> d) s) = b" by (simp add: ab dropWhile_append_delim)
    moreover have "b = [] \<or> last b = d" using "1.prems"(2) ab False by (cases "b = []") auto
    ultimately have "getlines d (b @ l @ [d]) = getlines d b @ [l]" using "1.IH" [OF False] "1.prems"(1) by simp
    with ab show ?thesis by simp
  qed
qed

lemma split_at_append [simp]: "c \<notin> set k \<Longrightarrow> split_at c (k @ c # v) = Some (k, v)"
  by (simp add: split_at_def takeWhile_append_delim dropWhile_append_delim)

lemma split_last_append [simp]: "c \<notin> set v \<Longrightarrow> split_last c (k @ c # v) = Some (k, v)"
  by (simp add: split_last_def)

section \<open>join and split\<close>

fun join_loop :: "bool \<Rightarrow> string list \<Rightarrow> char \<Rightarrow> string" where
  "join_loop first [] sep = []"
| "join_loop first (x # xs) sep = (if first then [] else [sep]) @ x @ join_loop False xs sep"

definition join :: "string list \<Rightarrow> char \<Rightarrow> string" where
  "join v sep = join_loop True v sep"

definition split :: "string \<Rightarrow> char \<Rightarrow> string list" where
  "split s sep = filter (\<lambda>item. item \<noteq> []) (getlines sep s)"

lemma getlines_join_loop:
  "\<forall>x \<in> set (y # xs). sep \<notin> set x \<and> x \<noteq> [] \<Longrightarrow> getlines sep (y @ join_loop False xs sep) = y # xs"
proof (induction xs arbitrary: y)
  case (Cons x xs)
  then show ?case by simp
qed (simp add: getlines_last)

lemma split_join: "\<forall>x \<in> set xs. sep \<notin> set x \<and> x \<noteq> [] \<Longrightarrow> split (join xs sep) sep = xs"
  by (cases xs) (auto simp: split_def join_def getlines_join_loop)

section \<open>Hexadecimal\<close>

definition hex_digits :: string where "hex_digits = ''0123456789abcdef''"

definition to_hex :: "bytes \<Rightarrow> string" where
  "to_hex dat = concat (map (\<lambda>b. [hex_digits ! unat (drop_bit 4 b), hex_digits ! unat (b AND 0xF)]) dat)"

definition nibble :: "char \<Rightarrow> int" where
  "nibble c = (let n = (of_char c :: int) in
     if of_char (CHR ''0'') \<le> n \<and> n \<le> of_char (CHR ''9'') then n - of_char (CHR ''0'')
     else if of_char (CHR ''a'') \<le> n \<and> n \<le> of_char (CHR ''f'') then n - of_char (CHR ''a'') + 10
     else if of_char (CHR ''A'') \<le> n \<and> n \<le> of_char (CHR ''F'') then n - of_char (CHR ''A'') + 10
     else -1)"

fun from_hex_loop :: "string \<Rightarrow> bytes option" where
  "from_hex_loop [] = Some []"
| "from_hex_loop [c] = None"
| "from_hex_loop (h # l # rest) =
     (let hi = nibble h; lo = nibble l in
      if hi < 0 \<or> lo < 0 then None
      else map_option ((#) (word_of_int (hi * 16 + lo))) (from_hex_loop rest))"

text \<open>\<open>out_len\<close> is the size of the destination array. A refused text may leave part of it overwritten;
  no caller reads the array in that case.\<close>

definition from_hex :: "string \<Rightarrow> nat \<Rightarrow> bytes option" where
  "from_hex hex out_len = (if length hex \<noteq> out_len * 2 then None else from_hex_loop hex)"

lemma length_to_hex [simp]: "length (to_hex b) = 2 * length b"
  by (induction b) (simp_all add: to_hex_def)

lemma to_hex_Cons: "to_hex (b # bs) = hex_digits ! unat (drop_bit 4 b) # hex_digits ! unat (b AND 0xF) # to_hex bs"
  by (simp add: to_hex_def)

lemma hex_digit_all: "i < 16 \<Longrightarrow> nibble (hex_digits ! i) = int i \<and> hex_digits ! i \<in> set hex_digits"
proof -
  assume "i < 16"
  then have "i \<in> set [0 ..< 16]" by simp
  moreover have "\<forall>i \<in> set [0 ..< 16]. nibble (hex_digits ! i) = int i \<and> hex_digits ! i \<in> set hex_digits"
    by (simp add: upt_rec nibble_def hex_digits_def)
  ultimately show ?thesis by blast
qed

lemma u8_nibbles:
  fixes b :: u8
  shows "unat (drop_bit 4 b) < 16" "unat (b AND 0xF) < 16"
    and "(word_of_int (int (unat (drop_bit 4 b)) * 16 + int (unat (b AND 0xF))) :: u8) = b"
proof -
  have u: "unat (drop_bit 4 b) = unat b div 16" by (subst unat_drop_bit_eq) (simp add: drop_bit_eq_div)
  have "b AND 0xF = take_bit 4 b" by (simp add: take_bit_eq_mask mask_eq_exp_minus_1)
  then have m: "unat (b AND 0xF) = unat b mod 16" by (simp add: take_bit_eq_mod unat_mod)
  have "unat b < 256" using unsigned_less [of b] by simp
  then show "unat (drop_bit 4 b) < 16" "unat (b AND 0xF) < 16" by (simp_all add: u m)
  have "int (unat b div 16) * 16 + int (unat b mod 16) = int (unat b)" by presburger
  then show "(word_of_int (int (unat (drop_bit 4 b)) * 16 + int (unat (b AND 0xF))) :: u8) = b"
    by (simp add: u m)
qed

lemma from_hex_to_hex [simp]: "length b = n \<Longrightarrow> from_hex (to_hex b) n = Some b"
proof -
  have "from_hex_loop (to_hex b) = Some b"
  proof (induction b)
    case (Cons x b)
    with hex_digit_all u8_nibbles [of x] show ?case by (simp add: to_hex_Cons)
  qed (simp add: to_hex_def)
  then show "length b = n \<Longrightarrow> from_hex (to_hex b) n = Some b" by (simp add: from_hex_def)
qed

lemma from_hex_loop_length: "from_hex_loop s = Some b \<Longrightarrow> length s = 2 * length b"
  by (induction s arbitrary: b rule: from_hex_loop.induct) (auto simp: Let_def split: if_splits)

lemma from_hex_length: "from_hex s n = Some b \<Longrightarrow> length b = n"
  by (auto simp: from_hex_def dest: from_hex_loop_length split: if_splits)

lemma set_to_hex: "set (to_hex b) \<subseteq> set hex_digits"
  using hex_digit_all u8_nibbles by (induction b) (auto simp: to_hex_Cons to_hex_def)

lemma to_hex_eq_iff: "length a = length b \<Longrightarrow> to_hex a = to_hex b \<longleftrightarrow> a = b"
  by (metis from_hex_to_hex option.inject)

section \<open>Numbers\<close>

text \<open>\<open>operator<<\<close> and \<open>std::to_string\<close> for integers.\<close>

fun dec :: "nat \<Rightarrow> string" where
  "dec n = (if n < 10 then [char_of (48 + n)] else dec (n div 10) @ [char_of (48 + n mod 10)])"

declare dec.simps [simp del]

definition dec_int :: "int \<Rightarrow> string" where
  "dec_int i = (if i < 0 then CHR ''-'' # dec (nat (- i)) else dec (nat i))"

definition is_space :: "char \<Rightarrow> bool" where
  "is_space c \<longleftrightarrow> c \<in> {CHR '' '', CHR 0x09, CHR 0x0A, CHR 0x0B, CHR 0x0C, CHR 0x0D}"

definition is_digit :: "char \<Rightarrow> bool" where
  "is_digit c \<longleftrightarrow> (48 :: nat) \<le> of_char c \<and> (of_char c :: nat) \<le> 57"

definition digits_value :: "string \<Rightarrow> nat" where
  "digits_value ds = foldl (\<lambda>n c. n * 10 + (of_char c - 48)) 0 ds"

text \<open>What \<open>strtol\<close>/\<open>strtoull\<close> in base 10 read: white space, an optional sign, then as many digits as there
  are; what follows is ignored. \<open>None\<close>: no digits (\<open>std::invalid_argument\<close>).\<close>

definition read_number :: "string \<Rightarrow> (bool \<times> nat) option" where
  "read_number s =
     (let s1 = dropWhile is_space s;
          neg = (s1 \<noteq> [] \<and> hd s1 = CHR ''-'');
          s2 = (if s1 \<noteq> [] \<and> (hd s1 = CHR ''-'' \<or> hd s1 = CHR ''+'') then tl s1 else s1);
          ds = takeWhile is_digit s2
      in if ds = [] then None else Some (neg, digits_value ds))"

definition stol :: "string \<Rightarrow> int ex" where
  "stol s = (case read_number s of
       None \<Rightarrow> Throw (InvalidArgument ''stol'')
     | Some (neg, n) \<Rightarrow> let v = (if neg then - int n else int n)
         in if - (2 ^ 63) \<le> v \<and> v < 2 ^ 63 then Ret v else Throw (OutOfRange ''stol''))"

definition stoi :: "string \<Rightarrow> int ex" where
  "stoi s = (case read_number s of
       None \<Rightarrow> Throw (InvalidArgument ''stoi'')
     | Some (neg, n) \<Rightarrow> let v = (if neg then - int n else int n)
         in if - (2 ^ 31) \<le> v \<and> v < 2 ^ 31 then Ret v else Throw (OutOfRange ''stoi''))"

text \<open>\<open>strtoull\<close> negates a value with a minus sign modulo \<open>2 ^ 64\<close>.\<close>

definition stoull :: "string \<Rightarrow> u64 ex" where
  "stoull s = (case read_number s of
       None \<Rightarrow> Throw (InvalidArgument ''stoull'')
     | Some (neg, n) \<Rightarrow> if n < 2 ^ 64 then Ret (if neg then - word_of_nat n else word_of_nat n)
                        else Throw (OutOfRange ''stoull''))"

lemma of_char_digit: "n < 10 \<Longrightarrow> (of_char (char_of (48 + n) :: char) :: nat) = 48 + n"
  by simp

lemma is_digit_dec_digit [simp]: "n < 10 \<Longrightarrow> is_digit (char_of (48 + n :: nat))"
  by (simp add: is_digit_def)

lemma dec_digits: "\<forall>c \<in> set (dec n). is_digit c"
proof (induction n rule: dec.induct)
  case (1 n)
  then show ?case by (subst dec.simps) auto
qed

lemma dec_nonempty [simp]: "dec n \<noteq> []"
  by (subst dec.simps) simp

lemma digits_value_dec [simp]: "digits_value (dec n) = n"
proof (induction n rule: dec.induct)
  case (1 n)
  show ?case
  proof (cases "n < 10")
    case True
    then show ?thesis by (subst dec.simps) (simp add: digits_value_def)
  next
    case False
    with 1 have "digits_value (dec (n div 10)) = n div 10" by simp
    then have "digits_value (dec (n div 10) @ [char_of (48 + n mod 10)]) = n div 10 * 10 + n mod 10"
      by (simp add: digits_value_def)
    with False show ?thesis by (subst dec.simps) simp
  qed
qed

lemma takeWhile_dec: "takeWhile is_digit (dec n) = dec n"
  using dec_digits [of n] by (simp add: takeWhile_eq_all_conv)

lemma is_digit_not_sign: "is_digit c \<Longrightarrow> \<not> is_space c \<and> c \<noteq> CHR ''-'' \<and> c \<noteq> CHR ''+''"
  by (auto simp: is_digit_def is_space_def)

lemma read_number_dec: "read_number (dec n) = Some (False, n)"
proof -
  have "hd (dec n) \<in> set (dec n)" by simp
  with dec_digits have "is_digit (hd (dec n))" by blast
  then have h: "\<not> is_space (hd (dec n))" "hd (dec n) \<noteq> CHR ''-''" "hd (dec n) \<noteq> CHR ''+''"
    using is_digit_not_sign by blast+
  then have "dropWhile is_space (dec n) = dec n" by (simp add: dropWhile_eq_self_iff)
  with h show ?thesis by (simp add: read_number_def Let_def takeWhile_dec)
qed

lemma read_number_neg_dec: "read_number (CHR ''-'' # dec n) = Some (True, n)"
  by (simp add: read_number_def is_space_def Let_def takeWhile_dec)

lemma stoull_dec: "stoull (dec (unat w)) = Ret w"
  using unsigned_less [of w] by (simp add: stoull_def read_number_dec)

lemma stol_dec_int: "- (2 ^ 63) \<le> i \<Longrightarrow> i < 2 ^ 63 \<Longrightarrow> stol (dec_int i) = Ret i"
  by (cases "i < 0") (simp_all add: stol_def dec_int_def read_number_dec read_number_neg_dec Let_def nat_le_iff nat_less_iff)

lemma stoi_dec_int: "- (2 ^ 31) \<le> i \<Longrightarrow> i < 2 ^ 31 \<Longrightarrow> stoi (dec_int i) = Ret i"
  by (cases "i < 0") (simp_all add: stoi_def dec_int_def read_number_dec read_number_neg_dec Let_def nat_le_iff nat_less_iff)

lemma dec_no_char: "\<not> is_digit c \<Longrightarrow> c \<notin> set (dec n)"
  using dec_digits by blast

lemma dec_int_no_char: "\<not> is_digit c \<Longrightarrow> c \<noteq> CHR ''-'' \<Longrightarrow> c \<notin> set (dec_int i)"
  using dec_no_char by (auto simp: dec_int_def)

lemma nl_facts [simp]: "\<not> is_digit nl" "nl \<noteq> CHR ''-''" "nl \<notin> set hex_digits"
  by (simp_all add: nl_def is_digit_def hex_digits_def)

lemma nl_not_in_hex [simp]: "nl \<notin> set (to_hex b)"
  using set_to_hex nl_facts(3) by blast

end
