(* ===== verification/Epx_Credentials.thy ===== *)
theory Epx_Credentials
  imports Epx_Handshake Epx_Text
begin

text \<open>
  Credentials (\<^verbatim>\<open>src/credentials.cpp\<close>, \<^verbatim>\<open>src/credentials.hpp\<close>): the byte string an issuer signs, the text form
  and its parser, the validity check and the scope check. Where \<open>from_hex\<close> refuses a value the parser
  leaves the field unmarked, so that what it may have written into the array is never used.
\<close>

record Credential =
  cr_peer :: PublicKey
  cr_scope :: string
  cr_expires :: u64
  cr_issuer :: PublicKey
  cr_signature :: bytes

definition Credential_init :: Credential where
  "Credential_init = \<lparr>cr_peer = replicate 32 0, cr_scope = [], cr_expires = 0, cr_issuer = replicate 32 0,
     cr_signature = replicate 64 0\<rparr>"

definition signed_bytes :: "PublicKey \<Rightarrow> PublicKey \<Rightarrow> string \<Rightarrow> u64 \<Rightarrow> bytes" where
  "signed_bytes peer issuer scope expires =
     foldl (\<lambda>m i. m @ [ucast (drop_bit (i * 8) expires)])
       (bytes_of_string ''EPX-credential-v1'' @ peer @ issuer) [7, 6, 5, 4, 3, 2, 1, 0]
     @ bytes_of_string scope"

definition serialize :: "Credential \<Rightarrow> string" where
  "serialize c = ''epx-credential-v1'' @ [nl]
     @ ''peer='' @ to_hex (cr_peer c) @ [nl]
     @ ''scope='' @ cr_scope c @ [nl]
     @ ''expires='' @ dec (unat (cr_expires c)) @ [nl]
     @ ''issuer='' @ to_hex (cr_issuer c) @ [nl]
     @ ''sig='' @ to_hex (cr_signature c) @ [nl]"

record parse_state =
  ps_c :: Credential
  have_peer :: bool
  have_scope :: bool
  have_expires :: bool
  have_issuer :: bool
  have_sig :: bool

definition parse_field :: "string \<Rightarrow> string \<Rightarrow> parse_state \<Rightarrow> parse_state ex" where
  "parse_field key val st =
     (let c = ps_c st in
      if key = ''peer'' then
        (case from_hex val 32 of
           Some b \<Rightarrow> Ret (st\<lparr>ps_c := c\<lparr>cr_peer := b\<rparr>, have_peer := True\<rparr>)
         | None \<Rightarrow> Ret (st\<lparr>have_peer := False\<rparr>))
      else if key = ''scope'' then Ret (st\<lparr>ps_c := c\<lparr>cr_scope := val\<rparr>, have_scope := (val \<noteq> [])\<rparr>)
      else if key = ''expires'' then
        ex_bind (stoull val) (\<lambda>n. Ret (st\<lparr>ps_c := c\<lparr>cr_expires := n\<rparr>, have_expires := True\<rparr>))
      else if key = ''issuer'' then
        (case from_hex val 32 of
           Some b \<Rightarrow> Ret (st\<lparr>ps_c := c\<lparr>cr_issuer := b\<rparr>, have_issuer := True\<rparr>)
         | None \<Rightarrow> Ret (st\<lparr>have_issuer := False\<rparr>))
      else if key = ''sig'' then
        (case from_hex val 64 of
           Some b \<Rightarrow> Ret (st\<lparr>ps_c := c\<lparr>cr_signature := b\<rparr>, have_sig := True\<rparr>)
         | None \<Rightarrow> Ret (st\<lparr>have_sig := False\<rparr>))
      else Ret st)"

fun parse_lines :: "string list \<Rightarrow> parse_state \<Rightarrow> parse_state option" where
  "parse_lines [] st = Some st"
| "parse_lines (line # ls) st =
     (case split_at (CHR ''='') line of
        None \<Rightarrow> parse_lines ls st
      | Some (key, val) \<Rightarrow>
          (case parse_field key val st of Throw e \<Rightarrow> None | Ret st1 \<Rightarrow> parse_lines ls st1))"

definition parse :: "string \<Rightarrow> Credential option" where
  "parse text =
     (case getlines nl text of
        [] \<Rightarrow> None
      | line # ls \<Rightarrow>
          if line \<noteq> ''epx-credential-v1'' then None
          else (case parse_lines ls \<lparr>ps_c = Credential_init, have_peer = False, have_scope = False,
                       have_expires = False, have_issuer = False, have_sig = False\<rparr> of
                  None \<Rightarrow> None
                | Some st \<Rightarrow>
                    if \<not> (have_peer st \<and> have_scope st \<and> have_expires st \<and> have_issuer st \<and> have_sig st)
                    then None else Some (ps_c st)))"

definition signature_valid :: "sodium \<Rightarrow> Credential \<Rightarrow> bool" where
  "signature_valid S c =
     verify S (cr_issuer c) (signed_bytes (cr_peer c) (cr_issuer c) (cr_scope c) (cr_expires c)) (cr_signature c)"

definition covers :: "Credential \<Rightarrow> PublicKey \<Rightarrow> string \<Rightarrow> string \<Rightarrow> u64 \<Rightarrow> bool" where
  "covers c peer service endpoint now_unix =
     (if cr_peer c \<noteq> peer then False
      else if cr_expires c \<noteq> 0 \<and> now_unix > cr_expires c then False
      else cr_scope c = service \<or> cr_scope c = service @ ''/'' @ endpoint)"

definition make_credential :: "sodium \<Rightarrow> Identity \<Rightarrow> PublicKey \<Rightarrow> string \<Rightarrow> u64 \<Rightarrow> string" where
  "make_credential S issuer peer scope expires_unix =
     serialize (Credential_init\<lparr>cr_peer := peer, cr_scope := scope, cr_expires := expires_unix,
       cr_issuer := id_public_key issuer,
       cr_signature := sign S (id_secret_key issuer) (signed_bytes peer (id_public_key issuer) scope expires_unix)\<rparr>)"

section \<open>Round trip\<close>

lemma signed_bytes_eq:
  "signed_bytes peer issuer scope expires =
     bytes_of_string ''EPX-credential-v1'' @ peer @ issuer @ put_u64 [] expires @ bytes_of_string scope"
  by (simp add: signed_bytes_def put_u64_eq)

lemma serialize_lines:
  "serialize c = concat (map (\<lambda>l. l @ [nl])
     [''epx-credential-v1'', ''peer='' @ to_hex (cr_peer c), ''scope='' @ cr_scope c,
      ''expires='' @ dec (unat (cr_expires c)), ''issuer='' @ to_hex (cr_issuer c), ''sig='' @ to_hex (cr_signature c)])"
  by (simp add: serialize_def)

lemma split_at_key:
  "CHR ''='' \<notin> set k \<Longrightarrow> split_at (CHR ''='') (k @ CHR ''='' # v) = Some (k, v)"
  by simp

lemma split_at_fields [simp]:
  "split_at (CHR ''='') (CHR ''p'' # CHR ''e'' # CHR ''e'' # CHR ''r'' # CHR ''='' # v) = Some (''peer'', v)"
  "split_at (CHR ''='') (CHR ''s'' # CHR ''c'' # CHR ''o'' # CHR ''p'' # CHR ''e'' # CHR ''='' # v) = Some (''scope'', v)"
  "split_at (CHR ''='') (CHR ''e'' # CHR ''x'' # CHR ''p'' # CHR ''i'' # CHR ''r'' # CHR ''e'' # CHR ''s'' # CHR ''='' # v) = Some (''expires'', v)"
  "split_at (CHR ''='') (CHR ''i'' # CHR ''s'' # CHR ''s'' # CHR ''u'' # CHR ''e'' # CHR ''r'' # CHR ''='' # v) = Some (''issuer'', v)"
  "split_at (CHR ''='') (CHR ''s'' # CHR ''i'' # CHR ''g'' # CHR ''='' # v) = Some (''sig'', v)"
  using split_at_key [of "''peer''"] split_at_key [of "''scope''"] split_at_key [of "''expires''"]
    split_at_key [of "''issuer''"] split_at_key [of "''sig''"] by simp_all

lemma nl_not_in_dec [simp]: "nl \<notin> set (dec n)"
  by (simp add: dec_no_char)

lemma parse_serialize:
  assumes "length (cr_peer c) = 32" "length (cr_issuer c) = 32" "length (cr_signature c) = 64"
    and "cr_scope c \<noteq> []" "nl \<notin> set (cr_scope c)"
  shows "parse (serialize c) = Some c"
proof -
  have "getlines nl (serialize c) = [''epx-credential-v1'', ''peer='' @ to_hex (cr_peer c), ''scope='' @ cr_scope c,
      ''expires='' @ dec (unat (cr_expires c)), ''issuer='' @ to_hex (cr_issuer c), ''sig='' @ to_hex (cr_signature c)]"
    unfolding serialize_lines by (rule getlines_lines) (use assms(5) in \<open>simp add: nl_def [symmetric]\<close>, simp add: nl_def)
  with assms show ?thesis
    by (cases c) (simp add: parse_def parse_field_def Let_def stoull_dec Credential_init_def)
qed


text \<open>What a parsed credential always satisfies.\<close>

lemma parse_field_sizes:
  "parse_field key val st = Ret st' \<Longrightarrow>
   length (cr_peer (ps_c st)) = 32 \<and> length (cr_issuer (ps_c st)) = 32 \<and> length (cr_signature (ps_c st)) = 64
     \<and> (have_scope st \<longrightarrow> cr_scope (ps_c st) \<noteq> []) \<Longrightarrow>
   length (cr_peer (ps_c st')) = 32 \<and> length (cr_issuer (ps_c st')) = 32 \<and> length (cr_signature (ps_c st')) = 64
     \<and> (have_scope st' \<longrightarrow> cr_scope (ps_c st') \<noteq> [])"
  by (auto simp: parse_field_def Let_def ex_bind_eq_Ret_iff dest: from_hex_length split: if_splits option.splits)

lemma parse_lines_sizes:
  "parse_lines ls st = Some st' \<Longrightarrow>
   length (cr_peer (ps_c st)) = 32 \<and> length (cr_issuer (ps_c st)) = 32 \<and> length (cr_signature (ps_c st)) = 64
     \<and> (have_scope st \<longrightarrow> cr_scope (ps_c st) \<noteq> []) \<Longrightarrow>
   length (cr_peer (ps_c st')) = 32 \<and> length (cr_issuer (ps_c st')) = 32 \<and> length (cr_signature (ps_c st')) = 64
     \<and> (have_scope st' \<longrightarrow> cr_scope (ps_c st') \<noteq> [])"
proof (induction ls arbitrary: st)
  case (Cons line ls)
  show ?case
  proof (cases "split_at (CHR ''='') line")
    case None
    with Cons show ?thesis by simp
  next
    case (Some kv)
    obtain key val where kv: "kv = (key, val)" by fastforce
    with Some Cons.prems(1) obtain st1 where "parse_field key val st = Ret st1" "parse_lines ls st1 = Some st'"
      by (auto split: ex.splits)
    with parse_field_sizes [OF this(1) Cons.prems(2)] Cons.IH show ?thesis by blast
  qed
qed simp

lemma parse_sizes:
  "parse text = Some c \<Longrightarrow> length (cr_peer c) = 32 \<and> length (cr_issuer c) = 32 \<and> length (cr_signature c) = 64 \<and> cr_scope c \<noteq> []"
  by (auto simp: parse_def Credential_init_def dest!: parse_lines_sizes split: list.splits if_splits option.splits)

section \<open>Properties\<close>

text \<open>C35: The text of \<open>make_credential\<close> parses back to a credential with a valid signature that covers
  exactly the peer it names, up to its expiry, for the service of its scope or for the one endpoint
  its scope names. (Signatures made with a generated key pair verify.)\<close>

theorem credential_grants:
  assumes "sodium_sizes S" "sign_correct S" "generate_identity S rnd = Ret issuer" "length peer = 32"
    and "scope \<noteq> []" "nl \<notin> set scope"
  shows "\<exists>c. parse (make_credential S issuer peer scope expires) = Some c \<and> signature_valid S c
     \<and> (\<forall>p svc ep now. covers c p svc ep now \<longleftrightarrow>
          p = peer \<and> (expires = 0 \<or> now \<le> expires) \<and> (scope = svc \<or> scope = svc @ ''/'' @ ep))"
proof -
  let ?c = "Credential_init\<lparr>cr_peer := peer, cr_scope := scope, cr_expires := expires, cr_issuer := id_public_key issuer,
       cr_signature := sign S (id_secret_key issuer) (signed_bytes peer (id_public_key issuer) scope expires)\<rparr>"
  obtain sk where kp: "crypto_sign_keypair S rnd = Some (id_public_key issuer, sk)" "id_secret_key issuer = sk"
    using assms(3) by (auto simp: generate_identity_def split: option.splits)
  have sz: "length (id_public_key issuer) = 32" "\<And>m. length (sign S sk m) = 64"
    using assms(1) kp by (auto simp: sodium_sizes_def sign_def)
  have "parse (serialize ?c) = Some ?c" by (rule parse_serialize) (use assms sz kp in auto)
  moreover have "signature_valid S ?c" using assms(2) kp by (simp add: signature_valid_def verify_def sign_def sign_correct_def)
  ultimately show ?thesis by (intro exI [of _ ?c]) (auto simp: make_credential_def covers_def)
qed

theorem credential_grants_witness:
  "\<exists>c. parse (make_credential toy_sodium (toy_identity [7]) (replicate 32 9) ''notes/read'' 100) = Some c
     \<and> signature_valid toy_sodium c \<and> covers c (replicate 32 9) ''notes'' ''read'' 99
     \<and> \<not> covers c (replicate 32 9) ''notes'' ''write'' 99 \<and> \<not> covers c (replicate 32 9) ''notes'' ''read'' 101"
proof -
  have "''notes/read'' \<noteq> []" "nl \<notin> set ''notes/read''" by (simp_all add: nl_def)
  from credential_grants [OF toy_sizes toy_sign_correct toy_generate(1) length_replicate this, of "[7]" 9 100]
  obtain c where "parse (make_credential toy_sodium (toy_identity [7]) (replicate 32 9) ''notes/read'' 100) = Some c"
    "signature_valid toy_sodium c" and cov: "\<And>p svc ep now. covers c p svc ep now \<longleftrightarrow>
       p = replicate 32 9 \<and> ((100 :: u64) = 0 \<or> now \<le> 100) \<and> (''notes/read'' = svc \<or> ''notes/read'' = svc @ ''/'' @ ep)" by blast
  moreover have "covers c (replicate 32 9) ''notes'' ''read'' 99" "\<not> covers c (replicate 32 9) ''notes'' ''write'' 99"
    "\<not> covers c (replicate 32 9) ''notes'' ''read'' 101" unfolding cov by simp_all
  ultimately show ?thesis by blast
qed

text \<open>The signed bytes determine every field of a credential, and they are never the bytes a version 2
  handshake signs: a signature made for one purpose cannot be presented for the other.\<close>

theorem credential_transcript_binds:
  assumes "length p = 32" "length p' = 32" "length i = 32" "length i' = 32"
  shows "(signed_bytes p i s e = signed_bytes p' i' s' e' \<longleftrightarrow> p = p' \<and> i = i' \<and> s = s' \<and> e = e')
    \<and> signed_bytes p i s e \<noteq> hello_signed_bytes_v2 m ci ek n sv
    \<and> signed_bytes p i s e \<noteq> hello_ack_signed_bytes_v2 m v st si c ek n k"
proof -
  have "put_u64 [] e = put_u64 [] e' \<longleftrightarrow> e = e'" by (rule put_u64_inj)
  with assms bytes_of_string_eq_iff [of s s', unfolded bytes_of_string_def] show ?thesis
    by (auto simp: signed_bytes_eq hello_signed_bytes_v2_def hello_ack_signed_bytes_v2_def bytes_of_string_def u8_of_char_def
        dest: append_eq_same_length)
qed

theorem credential_transcript_binds_witness:
  "signed_bytes (replicate 32 1) (replicate 32 2) ''notes'' 0 \<noteq> signed_bytes (replicate 32 1) (replicate 32 2) ''notes'' 5"
  using credential_transcript_binds [of "replicate 32 1" "replicate 32 1" "replicate 32 2" "replicate 32 2" "''notes''" 0 "''notes''" 5] by simp

end
