(* ===== verification/Epx_Files.thy ===== *)
theory Epx_Files
  imports Epx_Text "HOL-Library.Sublist"
begin

text \<open>
  The directories of \<^verbatim>\<open>src/paths_posix.cpp\<close> and the private files of \<^verbatim>\<open>src/keystore.cpp\<close>, over a model of
  the system calls they use. The state of the operating system is a value: the nodes of the file
  system, the calling user, the umask, the environment variables, which paths the system refuses to
  open for writing, create, rename or remove (\<open>os_deny\<close>: missing permissions, full or failing disks), and
  what the next \<open>write\<close> calls return (\<open>os_writes\<close>; once it is used up every write takes all its bytes).
  Paths are resolved to their non-empty components; there are no symbolic links, and no component is
  \<^verbatim>\<open>.\<close> or \<^verbatim>\<open>..\<close>. The modes 0600, 0700 and 0666 of the source are 0x180, 0x1C0 and 0x1B6.
\<close>

section \<open>The operating system\<close>

type_synonym path = "string list"

datatype errno = EEXIST | ENOENT | ENOTDIR | EACCES | ESRCH | EPERM | EINTR | EMFILE | EBADF | EADDRINUSE | ECONNREFUSED

datatype node = File int u32 string | Dir int u32

record os =
  os_nodes :: "(path \<times> node) list"
  os_uid :: int
  os_umask :: u32
  os_cwd :: path
  os_env :: "string \<Rightarrow> string option"
  os_deny :: "path \<Rightarrow> bool"
  os_writes :: "int list"
  os_kill :: "int \<Rightarrow> errno option"

definition strerror :: "errno \<Rightarrow> string" where
  "strerror e = (case e of EEXIST \<Rightarrow> ''File exists'' | ENOENT \<Rightarrow> ''No such file or directory''
     | ENOTDIR \<Rightarrow> ''Not a directory'' | EACCES \<Rightarrow> ''Permission denied'' | ESRCH \<Rightarrow> ''No such process''
     | EPERM \<Rightarrow> ''Operation not permitted'' | EINTR \<Rightarrow> ''Interrupted system call''
     | EMFILE \<Rightarrow> ''Too many open files'' | EBADF \<Rightarrow> ''Bad file descriptor''
     | EADDRINUSE \<Rightarrow> ''Address already in use'' | ECONNREFUSED \<Rightarrow> ''Connection refused'')"

definition slash :: char where "slash = CHR ''/''"

definition resolve :: "os \<Rightarrow> string \<Rightarrow> path" where
  "resolve s p = (if p \<noteq> [] \<and> hd p = slash then split p slash else os_cwd s @ split p slash)"

definition node :: "os \<Rightarrow> path \<Rightarrow> node option" where
  "node s q = map_of (os_nodes s) q"

definition set_node :: "path \<Rightarrow> node \<Rightarrow> os \<Rightarrow> os" where
  "set_node q nd s = s\<lparr>os_nodes := AList.update q nd (os_nodes s)\<rparr>"

definition del_node :: "path \<Rightarrow> os \<Rightarrow> os" where
  "del_node q s = s\<lparr>os_nodes := AList.delete q (os_nodes s)\<rparr>"

definition is_dir :: "os \<Rightarrow> path \<Rightarrow> bool" where
  "is_dir s q = (case node s q of Some (Dir _ _) \<Rightarrow> True | _ \<Rightarrow> False)"

definition is_file :: "os \<Rightarrow> path \<Rightarrow> bool" where
  "is_file s q = (case node s q of Some (File _ _ _) \<Rightarrow> True | _ \<Rightarrow> False)"

text \<open>\<open>mkdir(2)\<close>, \<open>chmod(2)\<close>, \<open>rename(2)\<close> of a file, \<open>remove(3)\<close>, reading a whole file through an
  \<open>std::ifstream\<close> (\<open>None\<close>: it did not open), and \<open>open(2)\<close> for writing with \<open>O_CREAT\<close>.\<close>

definition mkdir :: "string \<Rightarrow> u32 \<Rightarrow> os \<Rightarrow> errno option \<times> os" where
  "mkdir p mode s =
     (let q = resolve s p in
      if node s q \<noteq> None then (Some EEXIST, s)
      else if os_deny s q then (Some EACCES, s)
      else if is_dir s (butlast q) then (None, set_node q (Dir (os_uid s) (mode AND NOT (os_umask s))) s)
      else (Some (if is_file s (butlast q) then ENOTDIR else ENOENT), s))"

definition chmod :: "string \<Rightarrow> u32 \<Rightarrow> os \<Rightarrow> os" where
  "chmod p mode s =
     (let q = resolve s p in
      case node s q of
        Some (Dir ow m) \<Rightarrow> if ow = os_uid s then set_node q (Dir ow mode) s else s
      | Some (File ow m d) \<Rightarrow> if ow = os_uid s then set_node q (File ow mode d) s else s
      | None \<Rightarrow> s)"

definition rename :: "string \<Rightarrow> string \<Rightarrow> os \<Rightarrow> bool \<times> os" where
  "rename old new s =
     (let a = resolve s old; b = resolve s new in
      case node s a of
        Some (File ow m d) \<Rightarrow>
          if os_deny s b \<or> is_dir s b \<or> \<not> is_dir s (butlast b) then (False, s)
          else if a = b then (True, s)
          else (True, set_node b (File ow m d) (del_node a s))
      | _ \<Rightarrow> (False, s))"

definition remove :: "string \<Rightarrow> os \<Rightarrow> bool \<times> os" where
  "remove p s =
     (let q = resolve s p in
      if node s q = None \<or> os_deny s q
         \<or> (is_dir s q \<and> list_ex (\<lambda>(r, _). r \<noteq> q \<and> take (length q) r = q) (os_nodes s)) then (False, s)
      else (True, del_node q s))"

definition read_file :: "string \<Rightarrow> os \<Rightarrow> string option" where
  "read_file p s = (let q = resolve s p in
     if os_deny s q then None
     else case node s q of Some (File ow m d) \<Rightarrow> Some d | _ \<Rightarrow> None)"

definition open_write :: "string \<Rightarrow> bool \<Rightarrow> u32 \<Rightarrow> os \<Rightarrow> os option" where
  "open_write p app mode s =
     (let q = resolve s p in
      if os_deny s q then None
      else case node s q of
        Some (File ow m d) \<Rightarrow> Some (if app then s else set_node q (File ow m []) s)
      | Some (Dir _ _) \<Rightarrow> None
      | None \<Rightarrow> if is_dir s (butlast q)
               then Some (set_node q (File (os_uid s) (mode AND NOT (os_umask s)) []) s) else None)"

text \<open>One \<open>write(2)\<close> of \<open>content\<close> at the end of the open file \<open>q\<close>, and what it returns.\<close>

definition write_call :: "path \<Rightarrow> string \<Rightarrow> os \<Rightarrow> int \<times> os" where
  "write_call q content s =
     (let (n, s1) = (case os_writes s of [] \<Rightarrow> (int (length content), s)
                     | r # rs \<Rightarrow> (min r (int (length content)), s\<lparr>os_writes := rs\<rparr>)) in
      case node s1 q of
        Some (File ow m d) \<Rightarrow> (n, if 0 < n then set_node q (File ow m (d @ take (nat n) content)) s1 else s1)
      | _ \<Rightarrow> (-1, s1))"

lemma write_call_le: "write_call q content s = (n, s') \<Longrightarrow> n \<le> int (length content)"
  by (auto simp: write_call_def Let_def split: list.splits option.splits node.splits prod.splits)

section \<open>Writing files\<close>

function write_loop :: "path \<Rightarrow> string \<Rightarrow> nat \<Rightarrow> os \<Rightarrow> bool \<times> os" where
  "write_loop q content off s =
     (if off < length content then
        (case write_call q (drop off content) s of
           (n, s1) \<Rightarrow> if n \<le> 0 then (False, s1) else write_loop q content (off + nat n) s1)
      else (True, s))"
  by pat_completeness auto
termination by (relation "measure (\<lambda>(q, content, off, s). length content - off)") auto

declare write_loop.simps [simp del]

definition write_private_file :: "string \<Rightarrow> string \<Rightarrow> bool \<Rightarrow> os \<Rightarrow> bool \<times> os" where
  "write_private_file path content app s =
     (case open_write path app 0x180 s of
        None \<Rightarrow> (False, s)
      | Some s1 \<Rightarrow> write_loop (resolve s path) content 0 s1)"

text \<open>\<open>std::ofstream f(path, trunc)\<close>, output of \<open>content\<close>, and its destructor: the file gets the default
  mode, and no failure is reported.\<close>

definition ofstream_write :: "string \<Rightarrow> string \<Rightarrow> os \<Rightarrow> os" where
  "ofstream_write path content s =
     (case open_write path False 0x1B6 s of
        None \<Rightarrow> s
      | Some s1 \<Rightarrow> snd (write_loop (resolve s path) content 0 s1))"

section \<open>Directories\<close>

definition find_from :: "char \<Rightarrow> string \<Rightarrow> nat \<Rightarrow> nat option" where
  "find_from c s pos = (let i = length (takeWhile (\<lambda>x. x \<noteq> c) (drop pos s))
                        in if pos + i < length s then Some (pos + i) else None)"

lemma find_from_ge: "find_from c s pos = Some n \<Longrightarrow> pos \<le> n"
  by (auto simp: find_from_def Let_def split: if_splits)

lemma find_from_ge': "Some n = find_from c s pos \<Longrightarrow> pos \<le> n"
  using find_from_ge by metis

function mkdir_loop :: "string \<Rightarrow> nat \<Rightarrow> os \<Rightarrow> unit ex \<times> os" where
  "mkdir_loop path pos s =
     (if pos < length path then
        (let nxt = find_from slash path (pos + 1);
             cur = (case nxt of None \<Rightarrow> path | Some n \<Rightarrow> take n path);
             (err, s1) = (if cur \<noteq> [] then mkdir cur 0x1C0 s else (None, s))
         in if err \<noteq> None \<and> err \<noteq> Some EEXIST
            then (Throw (RuntimeError (''mkdir failed for '' @ cur @ '': '' @ strerror (the err))), s1)
            else (case nxt of None \<Rightarrow> (Ret (), s1) | Some n \<Rightarrow> mkdir_loop path (n + 1) s1))
      else (Ret (), s))"
  by pat_completeness auto
termination
  by (relation "measure (\<lambda>(path, pos, s). length path - pos)") (auto dest!: find_from_ge')

declare mkdir_loop.simps [simp del]

definition node_owner :: "node \<Rightarrow> int" where
  "node_owner nd = (case nd of File ow _ _ \<Rightarrow> ow | Dir ow _ \<Rightarrow> ow)"

definition node_mode :: "node \<Rightarrow> u32" where
  "node_mode nd = (case nd of File _ m _ \<Rightarrow> m | Dir _ m \<Rightarrow> m)"

definition ensure_private_dir :: "string \<Rightarrow> os \<Rightarrow> unit ex \<times> os" where
  "ensure_private_dir path s =
     (if path = [] \<or> hd path \<noteq> slash then (Throw (RuntimeError (''expected absolute path: '' @ path)), s)
      else case mkdir_loop path 0 s of
        (Throw e, s1) \<Rightarrow> (Throw e, s1)
      | (Ret _, s1) \<Rightarrow>
          (case node s1 (resolve s1 path) of
             None \<Rightarrow> (Ret (), s1)
           | Some nd \<Rightarrow>
               if node_owner nd \<noteq> os_uid s1
               then (Throw (RuntimeError (''refusing to use '' @ path @ '': owned by a different user'')), s1)
               else (Ret (), chmod path 0x1C0 s1)))"

definition runtime_dir :: "os \<Rightarrow> string" where
  "runtime_dir s = (case os_env s ''XDG_RUNTIME_DIR'' of
       Some xdg \<Rightarrow> if xdg \<noteq> [] then xdg @ ''/epx'' else ''/tmp/epx-'' @ dec_int (os_uid s)
     | None \<Rightarrow> ''/tmp/epx-'' @ dec_int (os_uid s))"

definition config_dir :: "os \<Rightarrow> string" where
  "config_dir s = (case os_env s ''HOME'' of
       Some home \<Rightarrow> if home \<noteq> [] then home @ ''/.epx'' else ''/tmp/epx-'' @ dec_int (os_uid s) @ ''/.epx''
     | None \<Rightarrow> ''/tmp/epx-'' @ dec_int (os_uid s) @ ''/.epx'')"


section \<open>The file system as a map\<close>

definition os_rest :: "os \<Rightarrow> os" where
  "os_rest s = s\<lparr>os_nodes := [], os_writes := []\<rparr>"

lemma os_rest_eq:
  assumes "os_rest s' = os_rest s"
  shows "os_uid s' = os_uid s" "os_umask s' = os_umask s" "os_cwd s' = os_cwd s" "os_env s' = os_env s"
    "os_deny s' = os_deny s" "os_kill s' = os_kill s"
  using assms by (cases s; cases s'; simp add: os_rest_def)+

lemma resolve_rest: assumes "os_rest s' = os_rest s" shows "resolve s' = resolve s"
  by (rule ext) (simp add: resolve_def os_rest_eq [OF assms])

lemma dirs_rest:
  assumes "os_rest s' = os_rest s"
  shows "config_dir s' = config_dir s" "runtime_dir s' = runtime_dir s"
  unfolding config_dir_def runtime_dir_def os_rest_eq [OF assms] by (rule refl)+

lemma os_rest_simps [simp]:
  "os_rest (set_node q nd s) = os_rest s" "os_rest (del_node q s) = os_rest s"
  "os_rest (s\<lparr>os_writes := w\<rparr>) = os_rest s"
  by (simp_all add: os_rest_def set_node_def del_node_def)

lemma node_simps [simp]:
  "node (set_node q nd s) = (node s)(q \<mapsto> nd)" "node (del_node q s) = (node s)(q := None)"
  "node (s\<lparr>os_writes := w\<rparr>) = node s"
  by (simp_all add: node_def set_node_def del_node_def update_conv' delete_conv' fun_eq_iff)

lemma os_writes_simps [simp]: "os_writes (set_node q nd s) = os_writes s" "os_writes (del_node q s) = os_writes s"
  by (simp_all add: set_node_def del_node_def)

lemma os_uid_simps [simp]: "os_uid (set_node q nd s) = os_uid s" "os_uid (del_node q s) = os_uid s"
  "os_umask (set_node q nd s) = os_umask s" "os_umask (del_node q s) = os_umask s"
  "os_deny (set_node q nd s) = os_deny s" "os_deny (del_node q s) = os_deny s"
  by (simp_all add: set_node_def del_node_def)

lemma resolve_simps [simp]: "resolve (set_node q nd s) = resolve s" "resolve (del_node q s) = resolve s"
  by (rule resolve_rest; simp)+

lemma is_dir_node: "is_dir s q \<longleftrightarrow> (\<exists>ow m. node s q = Some (Dir ow m))"
  by (auto simp: is_dir_def split: option.splits node.splits)

lemma is_file_node: "is_file s q \<longleftrightarrow> (\<exists>ow m d. node s q = Some (File ow m d))"
  by (auto simp: is_file_def split: option.splits node.splits)

lemma getlines_append_delim: "getlines d (a @ d # b) = getlines d (a @ [d]) @ getlines d b"
proof (induction d a rule: getlines.induct)
  case (1 d a)
  show ?case
  proof (cases "d \<in> set a")
    case True
    then obtain x y where a: "a = x @ d # y" "d \<notin> set x" by (auto dest: split_list_first)
    then have "tl (dropWhile (\<lambda>c. c \<noteq> d) a) = y" by (simp add: dropWhile_append_delim)
    with 1 True a have "getlines d (y @ d # b) = getlines d (y @ [d]) @ getlines d b" by auto
    with a show ?thesis by simp
  next
    case False
    then show ?thesis using getlines_line [OF False, of b] getlines_line [OF False, of "[]"] by simp
  qed
qed

lemma split_snoc_sep [simp]: "split (a @ [sep]) sep = split a sep"
proof (induction sep a rule: getlines.induct)
  case (1 d a)
  show ?case
  proof (cases "d \<in> set a")
    case True
    then obtain x y where a: "a = x @ d # y" "d \<notin> set x" by (auto dest: split_list_first)
    then have "tl (dropWhile (\<lambda>c. c \<noteq> d) a) = y" by (simp add: dropWhile_append_delim)
    with 1 True a have "split (y @ [d]) d = split y d" by auto
    with a show ?thesis by (simp add: split_def)
  next
    case False
    then show ?thesis using getlines_line [OF False, of "[]"] by (cases "a = []") (simp_all add: split_def getlines_last)
  qed
qed

lemma split_append_sep: "split (a @ sep # b) sep = split a sep @ split b sep"
  using split_snoc_sep [of a sep] by (simp add: split_def getlines_append_delim [of sep a b])

lemma split_Nil [simp]: "split [] sep = []"
  by (simp add: split_def)

lemma split_no_sep: "sep \<notin> set a \<Longrightarrow> split a sep = (if a = [] then [] else [a])"
  by (simp add: split_def getlines_last)


section \<open>Writing with a healthy disk\<close>

lemma write_loop_all:
  "os_writes s = [] \<Longrightarrow> node s q = Some (File ow m d) \<Longrightarrow>
   write_loop q content 0 s = (True, if content = [] then s else set_node q (File ow m (d @ content)) s)"
  by (subst write_loop.simps) (simp add: write_call_def write_loop.simps)

text \<open>What a write that succeeds leaves behind: the content of the file, and nothing else changed.\<close>

definition wrote :: "path \<Rightarrow> string \<Rightarrow> os \<Rightarrow> os \<Rightarrow> bool" where
  "wrote q content s s' \<longleftrightarrow> os_rest s' = os_rest s \<and> os_writes s' = os_writes s
     \<and> (\<exists>ow m. node s' = (node s)(q \<mapsto> File ow m content))"

definition writable :: "path \<Rightarrow> os \<Rightarrow> bool" where
  "writable q s \<longleftrightarrow> \<not> os_deny s q \<and> \<not> is_dir s q \<and> is_dir s (butlast q)"

definition file_data :: "os \<Rightarrow> path \<Rightarrow> string" where
  "file_data s q = (case node s q of Some (File _ _ d) \<Rightarrow> d | _ \<Rightarrow> [])"

lemma write_private_file_ok:
  assumes "os_writes s = []" "writable (resolve s p) s"
  shows "\<exists>s'. write_private_file p content app s = (True, s')
           \<and> wrote (resolve s p) ((if app then file_data s (resolve s p) else []) @ content) s s'"
proof (cases "node s (resolve s p)")
  case None
  with assms show ?thesis
    by (auto simp: write_private_file_def open_write_def Let_def writable_def write_loop_all wrote_def file_data_def)
next
  case (Some nd)
  with assms obtain ow m d where "nd = File ow m d" by (cases nd) (auto simp: writable_def is_dir_def)
  with Some assms show ?thesis
    by (auto simp: write_private_file_def open_write_def Let_def writable_def write_loop_all wrote_def file_data_def
        fun_upd_idem_iff intro!: exI)
qed

lemma write_private_file_fails:
  assumes "os_writes s = w # ws" "w \<le> 0" "content \<noteq> []" "writable (resolve s p) s"
  shows "\<exists>s'. write_private_file p content False s = (False, s') \<and> wrote (resolve s p) [] (s\<lparr>os_writes := ws\<rparr>) s'"
proof -
  have "\<exists>ow m. open_write p False 0x180 s = Some (set_node (resolve s p) (File ow m []) s)"
    using assms(4) by (auto simp: open_write_def Let_def writable_def is_dir_node split: option.splits node.splits)
  then obtain ow m where o: "open_write p False 0x180 s = Some (set_node (resolve s p) (File ow m []) s)" by blast
  have "write_loop (resolve s p) content 0 (set_node (resolve s p) (File ow m []) s)
      = (False, (set_node (resolve s p) (File ow m []) s)\<lparr>os_writes := ws\<rparr>)"
    using assms(1-3) by (subst write_loop.simps) (simp add: write_call_def)
  with o show ?thesis by (auto simp: write_private_file_def wrote_def)
qed

lemma ofstream_write_ok:
  assumes "os_writes s = []" "writable (resolve s p) s"
  shows "wrote (resolve s p) content s (ofstream_write p content s)"
proof (cases "node s (resolve s p)")
  case None
  with assms show ?thesis
    by (auto simp: ofstream_write_def open_write_def Let_def writable_def write_loop_all wrote_def)
next
  case (Some nd)
  with assms obtain ow m d where "nd = File ow m d" by (cases nd) (auto simp: writable_def is_dir_def)
  with Some assms show ?thesis
    by (auto simp: ofstream_write_def open_write_def Let_def writable_def write_loop_all wrote_def)
qed

text \<open>Writing a temporary file and renaming it into place.\<close>

lemma rename_after_write:
  assumes w: "wrote (resolve s tmp) content s s1" and "resolve s tmp \<noteq> resolve s p" "writable (resolve s p) s"
    and "writable (resolve s tmp) s"
  shows "\<exists>s2. rename tmp p s1 = (True, s2) \<and> os_rest s2 = os_rest s \<and> os_writes s2 = os_writes s
           \<and> (\<exists>ow m. node s2 = (node s)(resolve s tmp := None, resolve s p \<mapsto> File ow m content))"
proof -
  from w obtain ow m where n: "os_rest s1 = os_rest s" "os_writes s1 = os_writes s"
    "node s1 = (node s)(resolve s tmp \<mapsto> File ow m content)" by (auto simp: wrote_def)
  have "butlast (resolve s p) \<noteq> resolve s tmp" using assms(3,4) by (auto simp: writable_def)
  with n assms(2-4) show ?thesis
    by (auto simp: rename_def Let_def resolve_rest [OF n(1)] os_rest_eq(5) [OF n(1)] writable_def is_dir_def fun_upd_twist
        intro!: exI)
qed

section \<open>Private directories\<close>

text \<open>What creating directories towards \<open>p\<close> may do: create missing prefixes of \<open>p\<close>.\<close>

definition made_dirs :: "path \<Rightarrow> os \<Rightarrow> os \<Rightarrow> bool" where
  "made_dirs p s s' \<longleftrightarrow> os_rest s' = os_rest s \<and> os_writes s' = os_writes s
     \<and> (\<forall>q. node s' q = node s q
          \<or> (node s q = None \<and> prefix q p \<and> node s' q = Some (Dir (os_uid s) (0x1C0 AND NOT (os_umask s)))))"

lemma made_dirs_refl [simp]: "made_dirs p s s"
  by (simp add: made_dirs_def)

lemma made_dirs_trans:
  assumes a: "made_dirs p s s1" and b: "made_dirs p s1 s2"
  shows "made_dirs p s s2"
proof -
  have r: "os_rest s1 = os_rest s" using a by (simp add: made_dirs_def)
  with a b show ?thesis unfolding made_dirs_def os_rest_eq [OF r] by (metis option.distinct(1))
qed

lemma made_dirs_node: "made_dirs p s s' \<Longrightarrow> node s q = Some nd \<Longrightarrow> node s' q = Some nd"
  unfolding made_dirs_def by (metis option.distinct(1))

lemma made_dirs_rest: "made_dirs p s s' \<Longrightarrow> os_rest s' = os_rest s"
  by (simp add: made_dirs_def)

lemma made_dirs_no_file: "made_dirs p s s' \<Longrightarrow> is_file s' q \<Longrightarrow> is_file s q"
  unfolding made_dirs_def is_file_node by (metis node.distinct(1) option.inject)

lemma mkdir_made:
  assumes "mkdir cur 0x1C0 s = (err, s1)" "prefix (resolve s cur) p"
  shows "made_dirs p s s1" and "err = None \<or> err = Some EEXIST \<Longrightarrow> node s1 (resolve s cur) \<noteq> None"
  using assms by (auto simp: mkdir_def Let_def made_dirs_def split: if_splits)

lemma mkdir_succeeds:
  assumes "mkdir cur 0x1C0 s = (err, s1)" "\<not> os_deny s (resolve s cur)" "\<not> is_file s (resolve s cur)"
    "is_dir s (resolve s cur) \<or> is_dir s (butlast (resolve s cur))"
  shows "err = None \<or> err = Some EEXIST" "is_dir s1 (resolve s cur)"
  using assms
  by (auto simp: mkdir_def Let_def is_dir_def is_file_def split: if_splits option.splits node.splits)

text \<open>One turn of the loop: the next directory has at most one component more.\<close>

definition at_sep :: "string \<Rightarrow> nat \<Rightarrow> bool" where
  "at_sep path pos \<longleftrightarrow> path \<noteq> [] \<and> hd path = slash \<and> pos \<le> length path \<and> (pos = 0 \<or> path ! (pos - 1) = slash)"

lemma find_from_Some:
  "find_from c s pos = Some n \<Longrightarrow> pos \<le> n \<and> n < length s \<and> s ! n = c \<and> c \<notin> set (take (n - pos) (drop pos s))"
proof -
  assume f: "find_from c s pos = Some n"
  define t where "t = takeWhile (\<lambda>x. x \<noteq> c) (drop pos s)"
  from f have n: "n = pos + length t" "n < length s" by (auto simp: find_from_def Let_def t_def split: if_splits)
  then have "length t < length (drop pos s)" by simp
  then have "\<not> (drop pos s ! length t \<noteq> c)" unfolding t_def by (rule nth_length_takeWhile)
  moreover have "take (length t) (drop pos s) = t" unfolding t_def by (simp add: takeWhile_eq_take [symmetric])
  moreover have "c \<notin> set t" unfolding t_def by (auto dest: set_takeWhileD)
  ultimately show ?thesis using n by simp
qed

lemma find_from_None: "find_from c s pos = None \<Longrightarrow> c \<notin> set (drop pos s)"
proof -
  assume "find_from c s pos = None"
  then have "length s \<le> pos + length (takeWhile (\<lambda>x. x \<noteq> c) (drop pos s))" by (auto simp: find_from_def Let_def split: if_splits)
  then have "length (drop pos s) \<le> length (takeWhile (\<lambda>x. x \<noteq> c) (drop pos s))" by simp
  then have "takeWhile (\<lambda>x. x \<noteq> c) (drop pos s) = drop pos s" by (metis length_takeWhile_le le_antisym takeWhile_eq_take take_all)
  then show ?thesis by (metis (mono_tags, lifting) set_takeWhileD)
qed

lemma split_take_sep: "at_sep path pos \<Longrightarrow> split (take pos path @ r) slash = split (take pos path) slash @ split r slash"
proof (cases pos)
  case (Suc k)
  assume "at_sep path pos"
  with Suc have "take pos path = take k path @ [slash]" by (auto simp: at_sep_def take_Suc_conv_app_nth)
  then show ?thesis by (simp add: split_append_sep)
qed (simp add: split_def)

lemma split_one:
  assumes "slash \<notin> set r"
  shows "length (split (c # r) slash) \<le> 1"
  using assms split_append_sep [of "[]" slash r] by (cases "c = slash") (auto simp: split_no_sep)

lemma next_segment:
  assumes "pos < length path" and cur: "cur = (case find_from c path (pos + 1) of None \<Rightarrow> path | Some n \<Rightarrow> take n path)"
  shows "\<exists>r. cur = take pos path @ path ! pos # r \<and> c \<notin> set r \<and> (cur = path \<or> (\<exists>b. path = cur @ c # b))"
proof (cases "find_from c path (pos + 1)")
  case None
  then show ?thesis using cur assms(1) find_from_None [OF None] id_take_nth_drop [OF assms(1)] by auto
next
  case (Some n)
  from find_from_Some [OF Some] have n: "pos + 1 \<le> n" "n < length path" "path ! n = c"
    "c \<notin> set (take (n - (pos + 1)) (drop (pos + 1) path))" by auto
  have "take n path = take pos path @ path ! pos # take (n - (pos + 1)) (drop (pos + 1) path)"
    using n assms(1) by (metis Suc_eq_plus1 append.assoc append_Cons append_Nil le_add_diff_inverse take_Suc_conv_app_nth take_add)
  moreover have "path = take n path @ c # drop (Suc n) path" using n id_take_nth_drop [of n path] by simp
  ultimately show ?thesis using n(4) cur Some by auto
qed

lemma loop_turn:
  assumes "at_sep path pos" "pos < length path" and cur: "cur = (case find_from slash path (pos + 1) of None \<Rightarrow> path | Some n \<Rightarrow> take n path)"
  shows "\<exists>e. split cur slash = split (take pos path) slash @ e \<and> length e \<le> 1"
    and "cur \<noteq> []" "hd cur = slash" "prefix (split cur slash) (split path slash)"
    and "find_from slash path (pos + 1) = Some n \<Longrightarrow> at_sep path (n + 1) \<and> split (take (n + 1) path) slash = split cur slash"
    and "find_from slash path (pos + 1) = None \<Longrightarrow> cur = path"
proof -
  show none: "find_from slash path (pos + 1) = None \<Longrightarrow> cur = path" using cur by simp
  from next_segment [OF assms(2) cur] obtain r where r: "cur = take pos path @ path ! pos # r" "slash \<notin> set r"
    and p: "cur = path \<or> (\<exists>b. path = cur @ slash # b)" by blast
  show "\<exists>e. split cur slash = split (take pos path) slash @ e \<and> length e \<le> 1"
    unfolding r(1) split_take_sep [OF assms(1)] using split_one [OF r(2)] by blast
  show "cur \<noteq> []" using r by simp
  from p have "hd cur = hd path" using \<open>cur \<noteq> []\<close> by (metis hd_append2)
  then show "hd cur = slash" using assms(1) by (simp add: at_sep_def)
  show "prefix (split cur slash) (split path slash)" using p by (auto simp: split_append_sep)
  assume Some: "find_from slash path (pos + 1) = Some n"
  from find_from_Some [OF Some] have n: "n < length path" "path ! n = slash" by auto
  then have "take (n + 1) path = cur @ [slash]" using cur Some by (simp add: take_Suc_conv_app_nth)
  with n show "at_sep path (n + 1) \<and> split (take (n + 1) path) slash = split cur slash"
    using assms(1) by (simp add: at_sep_def)
qed


lemma resolve_abs: "p \<noteq> [] \<Longrightarrow> hd p = slash \<Longrightarrow> resolve s p = split p slash"
  by (simp add: resolve_def)

lemma mkdir_loop_turn:
  assumes lt: "pos < length path" and cur: "cur = (case find_from slash path (pos + 1) of None \<Rightarrow> path | Some n \<Rightarrow> take n path)"
    and ne: "cur \<noteq> []" and m: "mkdir cur 0x1C0 s = (err, s1)"
  shows "mkdir_loop path pos s =
        (if err \<noteq> None \<and> err \<noteq> Some EEXIST
         then (Throw (RuntimeError (''mkdir failed for '' @ cur @ '': '' @ strerror (the err))), s1)
         else (case find_from slash path (pos + 1) of None \<Rightarrow> (Ret (), s1) | Some n \<Rightarrow> mkdir_loop path (n + 1) s1))"
  unfolding mkdir_loop.simps [of path pos s] if_P [OF lt] Let_def cur [symmetric] if_P [OF ne] m prod.case by (rule refl)

lemma mkdir_loop_effect_aux:
  assumes "mkdir_loop path pos s = (r, s')" "at_sep path pos"
  shows "made_dirs (split path slash) s s' \<and>
    (r = Ret () \<longrightarrow> pos < length path \<or> node s (split (take pos path) slash) \<noteq> None \<longrightarrow> node s' (split path slash) \<noteq> None)"
  using assms
proof (induction path pos s arbitrary: s' rule: mkdir_loop.induct)
  case (1 path pos s)
  define cur where "cur = (case find_from slash path (pos + 1) of None \<Rightarrow> path | Some n \<Rightarrow> take n path)"
  obtain err s1 where m: "mkdir cur 0x1C0 s = (err, s1)" by fastforce
  {
    assume lt: "pos < length path"
    note turn = loop_turn [OF "1.prems"(2) lt cur_def]
    have res: "resolve s cur = split cur slash" using turn(2,3) by (rule resolve_abs)
    note made = mkdir_made [OF m, unfolded res, OF turn(4)]
    have md: "made_dirs (split path slash) s s1" by (rule made(1))
    note step = mkdir_loop_turn [OF lt cur_def turn(2) m]
    have "made_dirs (split path slash) s s' \<and> (r = Ret () \<longrightarrow> node s' (split path slash) \<noteq> None)"
    proof (cases "err \<noteq> None \<and> err \<noteq> Some EEXIST")
      case True
      with step "1.prems"(1) md show ?thesis by auto
    next
      case ok: False
      then have n1: "node s1 (split cur slash) \<noteq> None" using made(2) by auto
      show ?thesis
      proof (cases "find_from slash path (pos + 1)")
        case None
        with step ok "1.prems"(1) md n1 turn(6) show ?thesis by auto
      next
        case (Some n)
        from turn(5) [OF this] have at: "at_sep path (n + 1)" "split (take (n + 1) path) slash = split cur slash" by auto
        have rec: "mkdir_loop path (n + 1) s1 = (r, s')" using step [unfolded if_not_P [OF ok] Some option.case] "1.prems"(1) by (rule subst)
        have m': "(if cur \<noteq> [] then mkdir cur 0x1C0 s else (None, s)) = (err, s1)" using m turn(2) by simp
        have nok: "\<not> (err \<noteq> None \<and> err \<noteq> Some EEXIST)" using ok by blast
        note IH = "1.IH" [OF lt refl cur_def m' [symmetric] refl nok Some rec at(1)]
        have "made_dirs (split path slash) s1 s'" using IH by blast
        moreover have "r = Ret () \<longrightarrow> node s' (split path slash) \<noteq> None" using IH n1 at(2) by auto
        ultimately show ?thesis using md made_dirs_trans by blast
      qed
    qed
  }
  note main = this
  have fin: "\<not> pos < length path \<Longrightarrow> r = Ret () \<and> s' = s \<and> take pos path = path"
    using "1.prems" by (auto simp: mkdir_loop.simps at_sep_def)
  show ?case using main fin by (cases "pos < length path") auto
qed

lemmas mkdir_loop_effect = mkdir_loop_effect_aux [THEN conjunct1] mkdir_loop_effect_aux [THEN conjunct2, rule_format]

lemma mkdir_loop_succeeds:
  assumes "at_sep path pos" "\<And>q. prefix q (split path slash) \<Longrightarrow> \<not> os_deny s q \<and> \<not> is_file s q"
    and "is_dir s (split (take pos path) slash)"
  shows "fst (mkdir_loop path pos s) = Ret () \<and> is_dir (snd (mkdir_loop path pos s)) (split path slash)"
  using assms
proof (induction path pos s rule: mkdir_loop.induct)
  case (1 path pos s)
  define cur where "cur = (case find_from slash path (pos + 1) of None \<Rightarrow> path | Some n \<Rightarrow> take n path)"
  obtain err s1 where m: "mkdir cur 0x1C0 s = (err, s1)" by fastforce
  show ?case
  proof (cases "pos < length path")
    case False
    then show ?thesis using "1.prems" by (auto simp: mkdir_loop.simps at_sep_def)
  next
    case lt: True
    note turn = loop_turn [OF "1.prems"(1) lt cur_def]
    have res: "resolve s cur = split cur slash" using turn(2,3) by (rule resolve_abs)
    from turn(1) obtain e where e: "split cur slash = split (take pos path) slash @ e" "length e \<le> 1" by blast
    have "is_dir s (split cur slash) \<or> is_dir s (butlast (split cur slash))"
      using e "1.prems"(3) by (cases e) auto
    note ok = mkdir_succeeds [OF m, unfolded res, OF _ _ this]
    have d: "err = None \<or> err = Some EEXIST" "is_dir s1 (split cur slash)" using ok "1.prems"(2) [OF turn(4)] by auto
    have md: "made_dirs (split path slash) s s1" using mkdir_made(1) [OF m, unfolded res, OF turn(4)] .
    have step: "mkdir_loop path pos s = (case find_from slash path (pos + 1) of None \<Rightarrow> (Ret (), s1) | Some n \<Rightarrow> mkdir_loop path (n + 1) s1)"
      using mkdir_loop_turn [OF lt cur_def turn(2) m] d(1) by auto
    show ?thesis
    proof (cases "find_from slash path (pos + 1)")
      case None
      with step d(2) turn(6) show ?thesis by simp
    next
      case (Some n)
      from turn(5) [OF this] have at: "at_sep path (n + 1)" "split (take (n + 1) path) slash = split cur slash" by auto
      have m': "(if cur \<noteq> [] then mkdir cur 0x1C0 s else (None, s)) = (err, s1)" using m turn(2) by simp
      have nok: "\<not> (err \<noteq> None \<and> err \<noteq> Some EEXIST)" using d(1) by blast
      have "\<And>q. prefix q (split path slash) \<Longrightarrow> \<not> os_deny s1 q \<and> \<not> is_file s1 q"
        using "1.prems"(2) made_dirs_no_file [OF md] md [unfolded made_dirs_def, THEN conjunct1, THEN os_rest_eq(5)] by auto
      from "1.IH" [OF lt refl cur_def m' [symmetric] refl nok Some at(1) this] step Some d(2) at(2) show ?thesis by simp
    qed
  qed
qed


lemma chmod_node:
  "node (chmod p m s) q = (if q = resolve s p then (case node s q of
       Some (Dir ow m0) \<Rightarrow> if ow = os_uid s then Some (Dir ow m) else node s q
     | Some (File ow m0 d) \<Rightarrow> if ow = os_uid s then Some (File ow m d) else node s q
     | None \<Rightarrow> None) else node s q)"
  "os_rest (chmod p m s) = os_rest s" "os_writes (chmod p m s) = os_writes s"
  by (auto simp: chmod_def Let_def split: option.splits node.splits)

lemma at_sep_start: "path \<noteq> [] \<Longrightarrow> hd path = slash \<Longrightarrow> at_sep path 0"
  by (simp add: at_sep_def)

lemma ensure_private_dir_cases:
  assumes "ensure_private_dir path s = (r, s')"
  obtains (bad) "s' = s" "\<exists>e. r = Throw e" "\<not> (path \<noteq> [] \<and> hd path = slash)"
  | (made) s1 where "path \<noteq> []" "hd path = slash" "made_dirs (split path slash) s s1" "s' = s1" "\<exists>e. r = Throw e"
  | (finished) s1 nd where "path \<noteq> []" "hd path = slash" "made_dirs (split path slash) s s1" "r = Ret ()"
      "node s1 (split path slash) = Some nd" "node_owner nd = os_uid s" "s' = chmod path 0x1C0 s1"
proof (cases "path = [] \<or> hd path \<noteq> slash")
  case True
  with assms bad show ?thesis by (auto simp: ensure_private_dir_def)
next
  case False
  obtain r1 s1 where m: "mkdir_loop path 0 s = (r1, s1)" by fastforce
  note eff = mkdir_loop_effect [OF m at_sep_start]
  have md: "made_dirs (split path slash) s s1" using eff(1) False by blast
  have u: "os_uid s1 = os_uid s" "resolve s1 path = split path slash"
    using os_rest_eq(1) [OF made_dirs_rest [OF md]] False by (simp_all add: resolve_def)
  show ?thesis
  proof (cases r1)
    case (Throw e)
    with assms False m md show ?thesis by (intro made) (auto simp: ensure_private_dir_def)
  next
    case (Ret x)
    then have "node s1 (split path slash) \<noteq> None" using eff(2) False by auto
    then obtain nd where nd: "node s1 (split path slash) = Some nd" by blast
    show ?thesis
    proof (cases "node_owner nd = os_uid s")
      case True
      with assms False m md Ret nd u show ?thesis by (intro finished) (auto simp: ensure_private_dir_def)
    next
      case False': False
      with assms False m md Ret nd u show ?thesis by (intro made) (auto simp: ensure_private_dir_def)
    qed
  qed
qed


definition demo_os :: os where
  "demo_os = \<lparr>os_nodes = [([], Dir 0 0x1ED), ([''home''], Dir 0 0x1ED), ([''home'', ''u''], Dir 1000 0x1C0)],
     os_uid = 1000, os_umask = 0x12, os_cwd = [], os_env = [''HOME'' \<mapsto> ''/home/u'', ''XDG_RUNTIME_DIR'' \<mapsto> ''/home/u''],
     os_deny = (\<lambda>q. False), os_writes = [], os_kill = (\<lambda>pid. if pid = 42 then None else Some ESRCH)\<rparr>"

lemma demo_os_dir: "fst (ensure_private_dir ''/home/u/.epx'' demo_os) = Ret ()"
  by code_simp



section \<open>A private directory as a map from file names to contents\<close>

definition dir_view :: "string \<Rightarrow> os \<Rightarrow> string \<Rightarrow> string option" where
  "dir_view d s f = (case node s (split d slash @ [f]) of Some (File _ _ c) \<Rightarrow> Some c | _ \<Rightarrow> None)"

text \<open>The system lets the directory \<open>d\<close> be created or used, and files be created in it; \<open>ready\<close>: and
  every write takes all its bytes.\<close>

definition usable_dir :: "string \<Rightarrow> os \<Rightarrow> bool" where
  "usable_dir d s \<longleftrightarrow> d \<noteq> [] \<and> hd d = slash \<and> is_dir s []
     \<and> (\<forall>q. prefix q (split d slash) \<longrightarrow> \<not> os_deny s q \<and> \<not> is_file s q)
     \<and> (\<forall>f. \<not> os_deny s (split d slash @ [f]) \<and> \<not> is_dir s (split d slash @ [f]))
     \<and> (\<forall>nd. node s (split d slash) = Some nd \<longrightarrow> node_owner nd = os_uid s)"

definition ready :: "string \<Rightarrow> os \<Rightarrow> bool" where
  "ready d s \<longleftrightarrow> usable_dir d s \<and> os_writes s = []"

lemma resolve_in: "d \<noteq> [] \<Longrightarrow> hd d = slash \<Longrightarrow> slash \<notin> set f \<Longrightarrow> f \<noteq> [] \<Longrightarrow>
    resolve s (d @ CHR ''/'' # f) = split d slash @ [f]"
  using split_append_sep [of d slash f] by (simp add: resolve_def split_no_sep slash_def)

lemma not_prefix_snoc [simp]: "\<not> prefix (D @ [f]) D"
  by (metis append_self_conv not_Cons_self2 prefix_snocD prefix_order.less_irrefl)

lemma ensure_usable:
  assumes r: "usable_dir d s"
  obtains s1 where "ensure_private_dir d s = (Ret (), s1)" "usable_dir d s1" "is_dir s1 (split d slash)"
    "os_rest s1 = os_rest s" "os_writes s1 = os_writes s" "dir_view d s1 = dir_view d s"
    "\<forall>q. \<not> prefix q (split d slash) \<longrightarrow> node s1 q = node s q"
proof -
  let ?D = "split d slash"
  have d: "d \<noteq> []" "hd d = slash" using r by (auto simp: usable_dir_def)
  obtain r0 s0 where m: "mkdir_loop d 0 s = (r0, s0)" by fastforce
  have "fst (mkdir_loop d 0 s) = Ret () \<and> is_dir (snd (mkdir_loop d 0 s)) ?D"
    using mkdir_loop_succeeds [OF at_sep_start [OF d], of s] r by (simp add: usable_dir_def)
  with m have ok: "r0 = Ret ()" "is_dir s0 ?D" by auto
  have md: "made_dirs ?D s s0" by (rule mkdir_loop_effect(1) [OF m at_sep_start [OF d]])
  note rest = os_rest_eq [OF made_dirs_rest [OF md]]
  obtain ow mo where nd: "node s0 ?D = Some (Dir ow mo)" using ok(2) by (auto simp: is_dir_node)
  have ow: "ow = os_uid s" using md nd r unfolding made_dirs_def usable_dir_def
    by (metis node.inject(2) node.simps(6) node_owner_def option.inject)
  have e: "ensure_private_dir d s = (Ret (), chmod d 0x1C0 s0)"
    using d m ok nd ow rest(1) by (simp add: ensure_private_dir_def resolve_abs node_owner_def)
  define s1 where "s1 = chmod d 0x1C0 s0"
  have n1: "node s1 q = (if q = ?D then Some (Dir ow 0x1C0) else node s0 q)" for q
    using nd ow rest(1) by (simp add: s1_def chmod_node resolve_abs [OF d])
  have r1: "os_rest s1 = os_rest s" "os_writes s1 = os_writes s" using md by (simp_all add: s1_def chmod_node made_dirs_def)
  have out: "node s1 q = node s q" if "\<not> prefix q ?D" for q using md that n1 unfolding made_dirs_def by (metis prefix_order.refl)
  have f1: "\<not> is_file s1 q" if "prefix q ?D" for q
    using r made_dirs_no_file [OF md, of q] that n1 [of q] by (auto simp: usable_dir_def is_file_def)
  have "is_dir s1 []" using r made_dirs_node [OF md] n1 [of "[]"] unfolding usable_dir_def is_dir_node by metis
  then have "usable_dir d s1"
    using r os_rest_eq [OF r1(1)] f1 out ow n1 [of ?D]
    unfolding usable_dir_def is_dir_def is_file_def by (auto simp: node_owner_def)
  moreover have "dir_view d s1 = dir_view d s" using out by (simp add: dir_view_def fun_eq_iff)
  moreover have "is_dir s1 ?D" by (simp add: is_dir_def n1)
  ultimately show thesis using that e r1 out by (simp add: s1_def)
qed

lemma ensure_ready:
  assumes "ready d s"
  obtains s1 where "ensure_private_dir d s = (Ret (), s1)" "ready d s1" "is_dir s1 (split d slash)"
    "os_rest s1 = os_rest s" "dir_view d s1 = dir_view d s"
    "\<forall>q. \<not> prefix q (split d slash) \<longrightarrow> node s1 q = node s q"
proof -
  have u: "usable_dir d s" "os_writes s = []" using assms by (simp_all add: ready_def)
  obtain s1 where "ensure_private_dir d s = (Ret (), s1)" "usable_dir d s1" "is_dir s1 (split d slash)"
    "os_rest s1 = os_rest s" "os_writes s1 = os_writes s" "dir_view d s1 = dir_view d s"
    "\<forall>q. \<not> prefix q (split d slash) \<longrightarrow> node s1 q = node s q" by (rule ensure_usable [OF u(1)])
  with u(2) that show thesis by (simp add: ready_def)
qed

lemma read_file_view:
  "usable_dir d s \<Longrightarrow> slash \<notin> set f \<Longrightarrow> f \<noteq> [] \<Longrightarrow> read_file (d @ CHR ''/'' # f) s = dir_view d s f"
  by (auto simp: read_file_def usable_dir_def resolve_in dir_view_def Let_def split: option.splits node.splits)

lemma usable_writable: "usable_dir d s \<Longrightarrow> is_dir s (split d slash) \<Longrightarrow> writable (split d slash @ [f]) s"
  by (auto simp: usable_dir_def writable_def)

lemma usable_file_change:
  assumes "usable_dir d s" "os_rest s' = os_rest s"
    and "\<And>q. q \<notin> (\<lambda>f. split d slash @ [f]) ` F \<Longrightarrow> node s' q = node s q"
    and "\<And>f. \<not> is_dir s' (split d slash @ [f])"
  shows "usable_dir d s'"
proof -
  have p: "node s' q = node s q" if "prefix q (split d slash)" for q
  proof (rule assms(3))
    show "q \<notin> (\<lambda>f. split d slash @ [f]) ` F" using that by auto
  qed
  have "node s' [] = node s []" by (rule p) simp
  with p assms(1,4) os_rest_eq [OF assms(2)] show ?thesis
    unfolding usable_dir_def is_dir_def is_file_def by auto
qed

text \<open>Replacing a file through a temporary one, and appending to a file.\<close>

lemma replace_file:
  assumes r: "usable_dir d s" and f: "slash \<notin> set f" "f \<noteq> []" and dir: "is_dir s (split d slash)"
    and w: "wrote (split d slash @ [f @ ''.tmp'']) content s s1"
  obtains s2 where "rename (d @ CHR ''/'' # f @ ''.tmp'') (d @ CHR ''/'' # f) s1 = (True, s2)" "usable_dir d s2" "os_rest s2 = os_rest s" "os_writes s2 = os_writes s"
    "dir_view d s2 = (dir_view d s)(f @ ''.tmp'' := None, f \<mapsto> content)"
proof -
  let ?D = "split d slash"
  have d: "d \<noteq> []" "hd d = slash" using r by (auto simp: usable_dir_def)
  have sl: "slash \<notin> set (f @ ''.tmp'')" using f by (simp add: slash_def)
  have res: "resolve s (d @ CHR ''/'' # f @ ''.tmp'') = ?D @ [f @ ''.tmp'']" "resolve s (d @ CHR ''/'' # f) = ?D @ [f]"
    using resolve_in [OF d sl] resolve_in [OF d f] by auto
  from rename_after_write [of s "d @ CHR ''/'' # f @ ''.tmp''" content s1 "d @ CHR ''/'' # f", unfolded res, OF w _ usable_writable usable_writable, OF _ r dir r dir]
  obtain s2 ow m where s2: "rename (d @ CHR ''/'' # f @ ''.tmp'') (d @ CHR ''/'' # f) s1 = (True, s2)" "os_rest s2 = os_rest s"
    "os_writes s2 = os_writes s" "node s2 = (node s)(?D @ [f @ ''.tmp''] := None, ?D @ [f] \<mapsto> File ow m content)" by auto
  have "usable_dir d s2"
    by (rule usable_file_change [OF r s2(2), where F = "{f, f @ ''.tmp''}"]) (use r s2 in \<open>auto simp: usable_dir_def is_dir_def\<close>)
  with that s2 show thesis by (auto simp: dir_view_def fun_eq_iff)
qed

lemma private_replace:
  assumes r: "ready d s" and f: "slash \<notin> set f" "f \<noteq> []" and dir: "is_dir s (split d slash)"
  obtains s1 s2 where "write_private_file (d @ CHR ''/'' # f @ ''.tmp'') content False s = (True, s1)"
    "rename (d @ CHR ''/'' # f @ ''.tmp'') (d @ CHR ''/'' # f) s1 = (True, s2)" "ready d s2" "os_rest s2 = os_rest s"
    "dir_view d s2 = (dir_view d s)(f @ ''.tmp'' := None, f \<mapsto> content)"
proof -
  have u: "usable_dir d s" using r by (simp add: ready_def)
  have sl: "slash \<notin> set (f @ ''.tmp'')" "f @ ''.tmp'' \<noteq> []" using f by (simp_all add: slash_def)
  have res: "resolve s (d @ CHR ''/'' # f @ ''.tmp'') = split d slash @ [f @ ''.tmp'']"
    using u resolve_in [OF _ _ sl] by (simp add: usable_dir_def)
  have "os_writes s = []" using r by (simp add: ready_def)
  from write_private_file_ok [of s "d @ CHR ''/'' # f @ ''.tmp''" content False, unfolded res, OF this usable_writable [OF u dir]]
  obtain s1 where s1: "write_private_file (d @ CHR ''/'' # f @ ''.tmp'') content False s = (True, s1)"
    "wrote (split d slash @ [f @ ''.tmp'']) content s s1" by auto
  have "os_writes s = []" using r by (simp add: ready_def)
  with replace_file [OF u f dir s1(2)] that [OF s1(1)] show thesis by (auto simp: ready_def)
qed

lemma ofstream_replace:
  assumes r: "ready d s" and f: "slash \<notin> set f" "f \<noteq> []" and dir: "is_dir s (split d slash)"
  obtains s2 where "rename (d @ CHR ''/'' # f @ ''.tmp'') (d @ CHR ''/'' # f) (ofstream_write (d @ CHR ''/'' # f @ ''.tmp'') content s) = (True, s2)"
    "ready d s2" "os_rest s2 = os_rest s" "dir_view d s2 = (dir_view d s)(f @ ''.tmp'' := None, f \<mapsto> content)"
proof -
  have u: "usable_dir d s" using r by (simp add: ready_def)
  have sl: "slash \<notin> set (f @ ''.tmp'')" "f @ ''.tmp'' \<noteq> []" using f by (simp_all add: slash_def)
  have res: "resolve s (d @ CHR ''/'' # f @ ''.tmp'') = split d slash @ [f @ ''.tmp'']"
    using u resolve_in [OF _ _ sl] by (simp add: usable_dir_def)
  have "os_writes s = []" using r by (simp add: ready_def)
  from ofstream_write_ok [of s "d @ CHR ''/'' # f @ ''.tmp''" content, unfolded res, OF this usable_writable [OF u dir]]
  have w: "wrote (split d slash @ [f @ ''.tmp'']) content s (ofstream_write (d @ CHR ''/'' # f @ ''.tmp'') content s)" .
  show thesis by (rule replace_file [OF u f dir w]) (use that \<open>os_writes s = []\<close> in \<open>auto simp: ready_def\<close>)
qed

lemma append_file:
  assumes r: "ready d s" and f: "slash \<notin> set f" "f \<noteq> []" and dir: "is_dir s (split d slash)"
  obtains s1 where "write_private_file (d @ CHR ''/'' # f) content True s = (True, s1)" "ready d s1" "os_rest s1 = os_rest s"
    "dir_view d s1 = (dir_view d s)(f \<mapsto> (case dir_view d s f of None \<Rightarrow> [] | Some c \<Rightarrow> c) @ content)"
proof -
  let ?D = "split d slash"
  have u: "usable_dir d s" using r by (simp add: ready_def)
  then have d: "d \<noteq> []" "hd d = slash" by (auto simp: usable_dir_def)
  have res: "resolve s (d @ CHR ''/'' # f) = ?D @ [f]" using resolve_in [OF d f] .
  have "os_writes s = []" using r by (simp add: ready_def)
  from write_private_file_ok [of s "d @ CHR ''/'' # f" content True, unfolded res, OF this usable_writable [OF u dir]]
  obtain s1 ow m where s1: "write_private_file (d @ CHR ''/'' # f) content True s = (True, s1)" "os_rest s1 = os_rest s"
    "os_writes s1 = os_writes s" "node s1 = (node s)(?D @ [f] \<mapsto> File ow m (file_data s (?D @ [f]) @ content))"
    by (auto simp: wrote_def)
  have "usable_dir d s1"
    by (rule usable_file_change [OF u s1(2), where F = "{f}"]) (use u s1 in \<open>auto simp: usable_dir_def is_dir_def\<close>)
  then have "ready d s1" using s1(3) r by (simp add: ready_def)
  with that s1 show thesis by (auto simp: dir_view_def file_data_def fun_eq_iff split: option.splits node.splits)
qed


text \<open>A fresh home directory is ready for any store below \<^verbatim>\<open>.epx\<close>.\<close>

lemma demo_usable:
  assumes "split d slash = ''home'' # ''u'' # x # xs" "d \<noteq> []" "hd d = slash"
  shows "usable_dir d (demo_os\<lparr>os_writes := w\<rparr>)"
proof -
  have n: "node (demo_os\<lparr>os_writes := w\<rparr>) q = (if q = [] then Some (Dir 0 0x1ED) else if q = [''home''] then Some (Dir 0 0x1ED)
      else if q = [''home'', ''u''] then Some (Dir 1000 0x1C0) else None)" for q
    by (simp add: demo_os_def node_def)
  then show ?thesis using assms by (auto simp: usable_dir_def is_dir_def is_file_def demo_os_def)
qed

lemma demo_ready:
  assumes "split d slash = ''home'' # ''u'' # x # xs" "d \<noteq> []" "hd d = slash"
  shows "ready d demo_os" "\<And>f. dir_view d demo_os f = None"
proof -
  have "demo_os\<lparr>os_writes := []\<rparr> = demo_os" by (simp add: demo_os_def)
  with demo_usable [OF assms, of "[]"] show "ready d demo_os" by (simp add: ready_def demo_os_def)
  show "\<And>f. dir_view d demo_os f = None" using assms(1) by (simp add: dir_view_def demo_os_def node_def)
qed

section \<open>Stores\<close>

text \<open>What the key store and the registry promise their callers: a value stored under a key is what is
  read under that key, until another value is stored there, and other keys are not affected. \<open>ok\<close> are
  the states in which storing works, \<open>key\<close> and \<open>val\<close> the keys and values the format can represent.\<close>

locale named_store =
  fixes put :: "'k \<Rightarrow> 'v \<Rightarrow> 's \<Rightarrow> 's"
    and get :: "'k \<Rightarrow> 's \<Rightarrow> 'v option"
    and ok :: "'s \<Rightarrow> bool"
    and key :: "'k \<Rightarrow> bool"
    and val :: "'k \<Rightarrow> 'v \<Rightarrow> bool"
  assumes put_ok: "ok s \<Longrightarrow> key k \<Longrightarrow> val k v \<Longrightarrow> ok (put k v s)"
    and get_same: "ok s \<Longrightarrow> key k \<Longrightarrow> val k v \<Longrightarrow> get k (put k v s) = Some v"
    and get_other: "ok s \<Longrightarrow> key k \<Longrightarrow> val k v \<Longrightarrow> key k' \<Longrightarrow> k' \<noteq> k \<Longrightarrow> get k' (put k v s) = get k' s"
begin

lemma puts_ok:
  "ok s \<Longrightarrow> \<forall>(k, v) \<in> set kvs. key k \<and> val k v \<Longrightarrow> ok (fold (\<lambda>(k, v). put k v) kvs s)"
  by (induction kvs arbitrary: s) (auto simp: put_ok)

text \<open>After any sequence of stores the contents are those of a map updated by the same sequence.\<close>

lemma history:
  "ok s \<Longrightarrow> \<forall>(k, v) \<in> set kvs. key k \<and> val k v \<Longrightarrow> key k0 \<Longrightarrow>
   get k0 (fold (\<lambda>(k, v). put k v) kvs s) = (case map_of (rev kvs) k0 of Some v \<Rightarrow> Some v | None \<Rightarrow> get k0 s)"
proof (induction kvs rule: rev_induct)
  case (snoc kv kvs)
  obtain k v where kv: "kv = (k, v)" by fastforce
  have "ok (fold (\<lambda>(k, v). put k v) kvs s)" using snoc.prems by (intro puts_ok) auto
  with snoc kv show ?case by (cases "k0 = k") (simp_all add: get_same get_other)
qed simp

end

end
