(* ===== verification/Epx_Keystore.thy ===== *)
theory Epx_Keystore
  imports Epx_Files Epx_Handshake
begin

text \<open>
  The key store (\<^verbatim>\<open>src/keystore.cpp\<close>): a program's own identity, the server key a client pinned per
  service, the client keys a host remembers, and the persisted answers to access prompts. All four
  live in private directories below \<open>config_dir\<close>.
\<close>

definition identities_dir :: "os \<Rightarrow> string" where
  "identities_dir s = config_dir s @ ''/identities''"

definition peers_dir :: "os \<Rightarrow> string" where
  "peers_dir s = config_dir s @ ''/known_peers''"

definition identity_of_file :: "string \<Rightarrow> Identity option" where
  "identity_of_file content =
     (case getlines nl content of
        pk_hex # sk_hex # _ \<Rightarrow>
          (case from_hex pk_hex 32 of None \<Rightarrow> None
           | Some pk \<Rightarrow> (case from_hex sk_hex 64 of None \<Rightarrow> None
                         | Some sk \<Rightarrow> Some \<lparr>id_public_key = pk, id_secret_key = sk\<rparr>))
      | _ \<Rightarrow> None)"

definition load_or_create_identity :: "sodium \<Rightarrow> bytes \<Rightarrow> string \<Rightarrow> os \<Rightarrow> Identity ex \<times> os" where
  "load_or_create_identity S rnd app_name s =
     (case ensure_private_dir (identities_dir s) s of
        (Throw e, s1) \<Rightarrow> (Throw e, s1)
      | (Ret _, s1) \<Rightarrow>
          (let path = identities_dir s1 @ ''/'' @ app_name @ ''.key'' in
           case Option.bind (read_file path s1) identity_of_file of
             Some ident \<Rightarrow> (Ret ident, s1)
           | None \<Rightarrow>
               (case generate_identity S rnd of
                  Throw e \<Rightarrow> (Throw e, s1)
                | Ret ident \<Rightarrow>
                    (let tmp = path @ ''.tmp'';
                         content = to_hex (id_public_key ident) @ [nl] @ to_hex (id_secret_key ident) @ [nl]
                     in case write_private_file tmp content False s1 of
                          (False, s2) \<Rightarrow> (Throw (RuntimeError (''could not write identity file: '' @ tmp)), s2)
                        | (True, s2) \<Rightarrow> (Ret ident, snd (rename tmp path s2))))))"

text \<open>\<open>epx::load_or_create_identity\<close> of \<^verbatim>\<open>src/identity.cpp\<close>; the flag tells whether libsodium is initialised.\<close>

definition init_and_load_identity :: "sodium \<Rightarrow> bytes \<Rightarrow> string \<Rightarrow> bool \<times> os \<Rightarrow> Identity ex \<times> bool \<times> os" where
  "init_and_load_identity S rnd app_name st =
     (case ensure_sodium_init S (fst st) of
        (flag, Throw e) \<Rightarrow> (Throw e, flag, snd st)
      | (flag, Ret _) \<Rightarrow> (case load_or_create_identity S rnd app_name (snd st) of (r, s1) \<Rightarrow> (r, flag, s1)))"

definition load_pinned_peer :: "string \<Rightarrow> os \<Rightarrow> PublicKey option" where
  "load_pinned_peer service_name s =
     (case read_file (peers_dir s @ ''/'' @ service_name @ ''.peer'') s of
        None \<Rightarrow> None
      | Some content \<Rightarrow> (case getlines nl content of [] \<Rightarrow> None | hex # _ \<Rightarrow> from_hex hex 32))"

definition pin_peer :: "string \<Rightarrow> PublicKey \<Rightarrow> os \<Rightarrow> unit ex \<times> os" where
  "pin_peer service_name pk s =
     (case ensure_private_dir (peers_dir s) s of
        (Throw e, s1) \<Rightarrow> (Throw e, s1)
      | (Ret _, s1) \<Rightarrow>
          (let path = peers_dir s1 @ ''/'' @ service_name @ ''.peer'';
               tmp = path @ ''.tmp'';
               (_, s2) = write_private_file tmp (to_hex pk @ [nl]) False s1;
               (_, s3) = rename tmp path s2
           in (Ret (), s3)))"

definition known_clients_dir :: "os \<Rightarrow> string" where
  "known_clients_dir s = config_dir s @ ''/known_clients''"

definition known_clients_path :: "string \<Rightarrow> os \<Rightarrow> string" where
  "known_clients_path host_service_name s = known_clients_dir s @ ''/'' @ host_service_name @ ''.list''"

definition authz_dir :: "os \<Rightarrow> string" where
  "authz_dir s = config_dir s @ ''/authz''"

definition authz_path :: "string \<Rightarrow> os \<Rightarrow> string" where
  "authz_path service s = authz_dir s @ ''/'' @ service @ ''.decisions''"

text \<open>What one line of the decision file says about \<open>want\<close> and \<open>endpoint\<close>.\<close>

definition authz_line :: "string \<Rightarrow> string \<Rightarrow> bool option \<Rightarrow> string \<Rightarrow> bool option" where
  "authz_line want endpoint decision line =
     (case split_at (CHR '' '') line of
        None \<Rightarrow> decision
      | Some (hex, rest) \<Rightarrow>
          (case split_at (CHR '' '') rest of
             None \<Rightarrow> decision
           | Some (verdict, ep) \<Rightarrow>
               if hex \<noteq> want then decision
               else if ep \<noteq> endpoint then decision
               else if verdict = ''allow'' then Some True
               else if verdict = ''deny'' then Some False
               else decision))"

definition load_authz_decision :: "string \<Rightarrow> PublicKey \<Rightarrow> string \<Rightarrow> os \<Rightarrow> bool option" where
  "load_authz_decision host_service_name peer_pk endpoint s =
     (case read_file (authz_path host_service_name s) s of
        None \<Rightarrow> None
      | Some content \<Rightarrow> foldl (authz_line (to_hex peer_pk) endpoint) None (getlines nl content))"

definition save_authz_decision :: "string \<Rightarrow> PublicKey \<Rightarrow> string \<Rightarrow> bool \<Rightarrow> os \<Rightarrow> unit ex \<times> os" where
  "save_authz_decision host_service_name peer_pk endpoint allow s =
     (case ensure_private_dir (authz_dir s) s of
        (Throw e, s1) \<Rightarrow> (Throw e, s1)
      | (Ret _, s1) \<Rightarrow>
          (let line = to_hex peer_pk @ (if allow then '' allow '' else '' deny '') @ endpoint @ [nl]
           in (Ret (), snd (write_private_file (authz_path host_service_name s1) line True s1))))"

definition is_known_client :: "string \<Rightarrow> PublicKey \<Rightarrow> os \<Rightarrow> bool" where
  "is_known_client host_service_name client_pk s =
     (case read_file (known_clients_path host_service_name s) s of
        None \<Rightarrow> False
      | Some content \<Rightarrow> list_ex (\<lambda>line. line = to_hex client_pk) (getlines nl content))"

definition remember_client :: "string \<Rightarrow> PublicKey \<Rightarrow> os \<Rightarrow> unit ex \<times> os" where
  "remember_client host_service_name client_pk s =
     (if is_known_client host_service_name client_pk s then (Ret (), s)
      else case ensure_private_dir (known_clients_dir s) s of
        (Throw e, s1) \<Rightarrow> (Throw e, s1)
      | (Ret _, s1) \<Rightarrow>
          (Ret (), snd (write_private_file (known_clients_path host_service_name s1) (to_hex client_pk @ [nl]) True s1)))"


section \<open>The operations as updates of a directory\<close>

lemma store_dirs_rest:
  assumes "os_rest s' = os_rest s"
  shows "identities_dir s' = identities_dir s" "peers_dir s' = peers_dir s" "known_clients_dir s' = known_clients_dir s"
    "authz_dir s' = authz_dir s"
  by (simp_all add: identities_dir_def peers_dir_def known_clients_dir_def authz_dir_def dirs_rest [OF assms])

lemma pin_peer_view:
  assumes r: "ready (peers_dir s) s" and k: "slash \<notin> set svc"
  obtains s' where "pin_peer svc pk s = (Ret (), s')" "ready (peers_dir s) s'" "os_rest s' = os_rest s"
    "dir_view (peers_dir s) s' = (dir_view (peers_dir s) s)(svc @ ''.peer'' @ ''.tmp'' := None, svc @ ''.peer'' \<mapsto> to_hex pk @ [nl])"
proof -
  from ensure_ready [OF r] obtain s1 where s1: "ensure_private_dir (peers_dir s) s = (Ret (), s1)" "ready (peers_dir s) s1"
    "is_dir s1 (split (peers_dir s) slash)" "os_rest s1 = os_rest s" "dir_view (peers_dir s) s1 = dir_view (peers_dir s) s" by blast
  have f: "slash \<notin> set (svc @ ''.peer'')" "svc @ ''.peer'' \<noteq> []" using k by (simp_all add: slash_def)
  from private_replace [OF s1(2) f s1(3), of "to_hex pk @ [nl]"] obtain s2 s3 where
    "write_private_file (peers_dir s @ CHR ''/'' # (svc @ ''.peer'') @ ''.tmp'') (to_hex pk @ [nl]) False s1 = (True, s2)"
    "rename (peers_dir s @ CHR ''/'' # (svc @ ''.peer'') @ ''.tmp'') (peers_dir s @ CHR ''/'' # (svc @ ''.peer'')) s2 = (True, s3)"
    "ready (peers_dir s) s3" "os_rest s3 = os_rest s1"
    "dir_view (peers_dir s) s3 = (dir_view (peers_dir s) s1)((svc @ ''.peer'') @ ''.tmp'' := None, svc @ ''.peer'' \<mapsto> to_hex pk @ [nl])" by blast
  with that s1 store_dirs_rest(2) [OF s1(4)] show thesis by (simp add: pin_peer_def)
qed

lemma load_pinned_peer_view:
  assumes "usable_dir (peers_dir s) s" "slash \<notin> set svc"
  shows "load_pinned_peer svc s = (case dir_view (peers_dir s) s (svc @ ''.peer'') of
      None \<Rightarrow> None | Some content \<Rightarrow> (case getlines nl content of [] \<Rightarrow> None | hex # _ \<Rightarrow> from_hex hex 32))"
  using read_file_view [OF assms(1), of "svc @ ''.peer''"] assms(2) by (simp add: load_pinned_peer_def slash_def)

lemma suffix_names_differ [simp]: "a @ ''.peer'' \<noteq> b @ ''.peer.tmp''" "a @ ''.key'' \<noteq> b @ ''.key.tmp''" "a @ ''.entry'' \<noteq> b @ ''.entry.tmp''"
  by (auto simp: dest!: arg_cong [of _ _ last])

lemma pin_peer_failed_write:
  assumes u: "usable_dir (peers_dir s) s" and k: "slash \<notin> set svc" and w: "os_writes s = w # ws" "w \<le> 0"
  obtains s' where "pin_peer svc pk s = (Ret (), s')" "usable_dir (peers_dir s') s'" "dir_view (peers_dir s') s' (svc @ ''.peer'') = Some []"
proof -
  let ?d = "peers_dir s" and ?f = "svc @ ''.peer''"
  from ensure_usable [OF u] obtain s1 where s1: "ensure_private_dir ?d s = (Ret (), s1)" "usable_dir ?d s1"
    "is_dir s1 (split ?d slash)" "os_rest s1 = os_rest s" "os_writes s1 = os_writes s" by metis
  have f: "slash \<notin> set ?f" "?f \<noteq> []" and sl: "slash \<notin> set (?f @ ''.tmp'')" "?f @ ''.tmp'' \<noteq> []"
    using k by (simp_all add: slash_def)
  have res: "resolve s1 (?d @ CHR ''/'' # ?f @ ''.tmp'') = split ?d slash @ [?f @ ''.tmp'']"
    using s1(2) resolve_in [OF _ _ sl] by (simp add: usable_dir_def)
  let ?b = "s1\<lparr>os_writes := ws\<rparr>"
  have b: "usable_dir ?d ?b" "is_dir ?b (split ?d slash)"
    using usable_file_change [OF s1(2), of ?b "{}"] s1(2,3) by (simp_all add: usable_dir_def is_dir_def)
  from write_private_file_fails [of s1 w ws "to_hex pk @ [nl]" "?d @ CHR ''/'' # ?f @ ''.tmp''", unfolded res,
      OF _ w(2) _ usable_writable [OF s1(2,3)]] w(1) s1(5)
  obtain s2 where s2: "write_private_file (?d @ CHR ''/'' # ?f @ ''.tmp'') (to_hex pk @ [nl]) False s1 = (False, s2)"
    "wrote (split ?d slash @ [?f @ ''.tmp'']) [] ?b s2" by auto
  from replace_file [OF b(1) f b(2) s2(2)] obtain s3 where
    s3: "rename (?d @ CHR ''/'' # ?f @ ''.tmp'') (?d @ CHR ''/'' # ?f) s2 = (True, s3)" "usable_dir ?d s3" "os_rest s3 = os_rest ?b"
    "dir_view ?d s3 = (dir_view ?d ?b)(?f @ ''.tmp'' := None, ?f \<mapsto> [])" by metis
  have d: "peers_dir s1 = ?d" "peers_dir s3 = ?d" using store_dirs_rest(2) [of s1 s] store_dirs_rest(2) [of s3 s] s1(4) s3(3) by simp_all
  have "pin_peer svc pk s = (Ret (), s3)" using s1(1) s2(1) s3(1) d(1) by (simp add: pin_peer_def)
  with that s3 d(2) show thesis by simp
qed

interpretation pins: named_store "\<lambda>svc pk s. snd (pin_peer svc pk s)" load_pinned_peer "\<lambda>s. ready (peers_dir s) s"
  "\<lambda>svc. slash \<notin> set svc" "\<lambda>svc pk. length pk = 32"
proof unfold_locales
  fix s svc and pk :: PublicKey
  assume r: "ready (peers_dir s) s" and k: "slash \<notin> set svc" and l: "length pk = 32"
  from pin_peer_view [OF r k] obtain s' where s': "pin_peer svc pk s = (Ret (), s')" "ready (peers_dir s) s'" "os_rest s' = os_rest s"
    "dir_view (peers_dir s) s' = (dir_view (peers_dir s) s)(svc @ ''.peer'' @ ''.tmp'' := None, svc @ ''.peer'' \<mapsto> to_hex pk @ [nl])" by blast
  have d: "peers_dir s' = peers_dir s" by (rule store_dirs_rest(2) [OF s'(3)])
  show "ready (peers_dir (snd (pin_peer svc pk s))) (snd (pin_peer svc pk s))" using s' d by simp
  show "load_pinned_peer svc (snd (pin_peer svc pk s)) = Some pk"
    using load_pinned_peer_view [of s' svc] s' d k l ready_def [of "peers_dir s" s'] getlines_line [of nl "to_hex pk" "[]"] by simp
  fix svc'
  assume k': "slash \<notin> set svc'" and ne: "svc' \<noteq> svc"
  show "load_pinned_peer svc' (snd (pin_peer svc pk s)) = load_pinned_peer svc' s"
    using load_pinned_peer_view [of s' svc'] load_pinned_peer_view [of s svc'] s' d k' r ne by (simp add: ready_def)
qed


text \<open>Files made of whole lines, as every successful append leaves them.\<close>

definition lines_ok :: "string \<Rightarrow> os \<Rightarrow> bool" where
  "lines_ok d s \<longleftrightarrow> ready d s \<and> (\<forall>f c. dir_view d s f = Some c \<longrightarrow> c = [] \<or> last c = nl)"

definition file_lines :: "string \<Rightarrow> os \<Rightarrow> string \<Rightarrow> string list" where
  "file_lines d s f = (case dir_view d s f of None \<Rightarrow> [] | Some c \<Rightarrow> getlines nl c)"

lemma append_line:
  assumes l: "lines_ok d s" and f: "slash \<notin> set f" "f \<noteq> []" and nl: "nl \<notin> set line"
  obtains s1 s2 where "ensure_private_dir d s = (Ret (), s1)" "os_rest s1 = os_rest s"
    "write_private_file (d @ CHR ''/'' # f) (line @ [nl]) True s1 = (True, s2)" "lines_ok d s2" "os_rest s2 = os_rest s"
    "file_lines d s2 = (file_lines d s)(f := file_lines d s f @ [line])"
proof -
  have r: "ready d s" using l by (simp add: lines_ok_def)
  from ensure_ready [OF r] obtain s1 where s1: "ensure_private_dir d s = (Ret (), s1)" "ready d s1"
    "is_dir s1 (split d slash)" "os_rest s1 = os_rest s" "dir_view d s1 = dir_view d s" by blast
  from append_file [OF s1(2) f s1(3), of "line @ [nl]"] obtain s2 where
    s2: "write_private_file (d @ CHR ''/'' # f) (line @ [nl]) True s1 = (True, s2)" "ready d s2" "os_rest s2 = os_rest s1"
    "dir_view d s2 = (dir_view d s1)(f \<mapsto> (case dir_view d s1 f of None \<Rightarrow> [] | Some c \<Rightarrow> c) @ line @ [nl])" by blast
  have "lines_ok d s2" using s2 s1(5) l by (auto simp: lines_ok_def split: option.splits)
  moreover have "file_lines d s2 = (file_lines d s)(f := file_lines d s f @ [line])"
    using s2(4) s1(5) l getlines_append_line [OF nl] getlines_append_line [OF nl, of "[]"]
    by (auto simp: file_lines_def lines_ok_def fun_eq_iff split: option.splits)
  ultimately show thesis using that s1(1,4) s2(1,3) by simp
qed

lemma file_lines_read:
  assumes "lines_ok d s" "slash \<notin> set f" "f \<noteq> []"
  shows "(case read_file (d @ CHR ''/'' # f) s of None \<Rightarrow> [] | Some c \<Rightarrow> getlines nl c) = file_lines d s f"
  using assms read_file_view [of d s f] by (simp add: lines_ok_def ready_def file_lines_def)

lemma no_space_hex [simp]: "CHR '' '' \<notin> set (to_hex b)"
  using set_to_hex by (auto simp: hex_digits_def)

lemma authz_line_saved:
  "authz_line want ep d (to_hex pk @ (if allow then '' allow '' else '' deny '') @ ep') =
     (if to_hex pk = want \<and> ep' = ep then Some allow else d)"
proof -
  have "split_at (CHR '' '') (''allow'' @ CHR '' '' # ep') = Some (''allow'', ep')"
    "split_at (CHR '' '') (''deny'' @ CHR '' '' # ep') = Some (''deny'', ep')" by (intro split_at_append, simp)+
  then show ?thesis by (auto simp: authz_line_def)
qed

lemma load_authz_lines:
  assumes "lines_ok (authz_dir s) s" "slash \<notin> set svc"
  shows "load_authz_decision svc pk ep s = foldl (authz_line (to_hex pk) ep) None (file_lines (authz_dir s) s (svc @ ''.decisions''))"
proof -
  have "slash \<notin> set (svc @ ''.decisions'')" "svc @ ''.decisions'' \<noteq> []" using assms(2) by (simp_all add: slash_def)
  from file_lines_read [OF assms(1) this] show ?thesis
    by (cases "read_file (authz_dir s @ CHR ''/'' # svc @ ''.decisions'') s") (simp_all add: load_authz_decision_def authz_path_def)
qed

lemma save_authz_lines:
  assumes l: "lines_ok (authz_dir s) s" and k: "slash \<notin> set svc" and nl: "nl \<notin> set ep"
  obtains s' where "save_authz_decision svc pk ep allow s = (Ret (), s')" "lines_ok (authz_dir s) s'" "os_rest s' = os_rest s"
    "file_lines (authz_dir s) s' = (file_lines (authz_dir s) s)
       (svc @ ''.decisions'' := file_lines (authz_dir s) s (svc @ ''.decisions'') @ [to_hex pk @ (if allow then '' allow '' else '' deny '') @ ep])"
proof -
  have f: "slash \<notin> set (svc @ ''.decisions'')" "svc @ ''.decisions'' \<noteq> []" using k by (simp_all add: slash_def)
  let ?line = "to_hex pk @ (if allow then '' allow '' else '' deny '') @ ep"
  have "nl \<notin> set ?line" using nl by (simp add: nl_def) (simp add: nl_def [symmetric])
  from append_line [OF l f this] obtain s1 s2 where s: "ensure_private_dir (authz_dir s) s = (Ret (), s1)" "os_rest s1 = os_rest s"
    "write_private_file (authz_dir s @ CHR ''/'' # svc @ ''.decisions'') (?line @ [nl]) True s1 = (True, s2)"
    "lines_ok (authz_dir s) s2" "os_rest s2 = os_rest s"
    "file_lines (authz_dir s) s2 = (file_lines (authz_dir s) s)(svc @ ''.decisions'' := file_lines (authz_dir s) s (svc @ ''.decisions'') @ [?line])" by blast
  have "save_authz_decision svc pk ep allow s = (Ret (), s2)"
    using s(1,3) store_dirs_rest(4) [OF s(2)] by (cases allow) (simp_all add: save_authz_decision_def authz_path_def)
  with that s(4-6) show thesis by blast
qed

interpretation authz: named_store "\<lambda>(svc, pk, ep) allow s. snd (save_authz_decision svc pk ep allow s)"
  "\<lambda>(svc, pk, ep). load_authz_decision svc pk ep" "\<lambda>s. lines_ok (authz_dir s) s"
  "\<lambda>(svc, pk, ep). slash \<notin> set svc \<and> length pk = 32 \<and> nl \<notin> set ep" "\<lambda>_ allow. True"
proof (unfold_locales, goal_cases)
  case (1 s k v)
  obtain svc pk ep where [simp]: "k = (svc, pk, ep)" by (cases k) auto
  from 1 save_authz_lines [of s svc ep pk v] obtain s' where "save_authz_decision svc pk ep v s = (Ret (), s')"
    "lines_ok (authz_dir s) s'" "os_rest s' = os_rest s" by auto
  then show ?case using store_dirs_rest(4) [of s' s] by simp
next
  case (2 s k v)
  obtain svc pk ep where [simp]: "k = (svc, pk, ep)" by (cases k) auto
  from 2 save_authz_lines [of s svc ep pk v] obtain s' where s': "save_authz_decision svc pk ep v s = (Ret (), s')"
    "lines_ok (authz_dir s) s'" "os_rest s' = os_rest s" "file_lines (authz_dir s) s' = (file_lines (authz_dir s) s)
       (svc @ ''.decisions'' := file_lines (authz_dir s) s (svc @ ''.decisions'') @ [to_hex pk @ (if v then '' allow '' else '' deny '') @ ep])" by auto
  then show ?case using 2 store_dirs_rest(4) [of s' s] load_authz_lines [of s' svc pk ep] by (simp add: authz_line_saved)
next
  case (3 s k v k')
  obtain svc pk ep where [simp]: "k = (svc, pk, ep)" by (cases k) auto
  obtain svc' pk' ep' where [simp]: "k' = (svc', pk', ep')" by (cases k') auto
  from 3 save_authz_lines [of s svc ep pk v] obtain s' where s': "save_authz_decision svc pk ep v s = (Ret (), s')"
    "lines_ok (authz_dir s) s'" "os_rest s' = os_rest s" "file_lines (authz_dir s) s' = (file_lines (authz_dir s) s)
       (svc @ ''.decisions'' := file_lines (authz_dir s) s (svc @ ''.decisions'') @ [to_hex pk @ (if v then '' allow '' else '' deny '') @ ep])" by auto
  then show ?case using 3 store_dirs_rest(4) [of s' s] load_authz_lines [of s' svc' pk' ep'] load_authz_lines [of s svc' pk' ep']
    by (auto simp: authz_line_saved to_hex_eq_iff)
qed


lemma is_known_lines:
  assumes "lines_ok (known_clients_dir s) s" "slash \<notin> set svc"
  shows "is_known_client svc pk s \<longleftrightarrow> to_hex pk \<in> set (file_lines (known_clients_dir s) s (svc @ ''.list''))"
proof -
  have "slash \<notin> set (svc @ ''.list'')" "svc @ ''.list'' \<noteq> []" using assms(2) by (simp_all add: slash_def)
  from file_lines_read [OF assms(1) this] show ?thesis
    by (cases "read_file (known_clients_dir s @ CHR ''/'' # svc @ ''.list'') s")
      (auto simp: is_known_client_def known_clients_path_def list_ex_iff)
qed

lemma remember_client_lines:
  assumes l: "lines_ok (known_clients_dir s) s" and k: "slash \<notin> set svc"
  obtains s' where "remember_client svc pk s = (Ret (), s')" "lines_ok (known_clients_dir s) s'" "os_rest s' = os_rest s"
    "set (file_lines (known_clients_dir s) s' (svc @ ''.list'')) = insert (to_hex pk) (set (file_lines (known_clients_dir s) s (svc @ ''.list'')))"
    "\<forall>f. f \<noteq> svc @ ''.list'' \<longrightarrow> file_lines (known_clients_dir s) s' f = file_lines (known_clients_dir s) s f"
proof (cases "is_known_client svc pk s")
  case True
  with that [of s] l is_known_lines [OF l k] show thesis by (auto simp: remember_client_def)
next
  case False
  have f: "slash \<notin> set (svc @ ''.list'')" "svc @ ''.list'' \<noteq> []" using k by (simp_all add: slash_def)
  from append_line [OF l f nl_not_in_hex] obtain s1 s2 where s: "ensure_private_dir (known_clients_dir s) s = (Ret (), s1)" "os_rest s1 = os_rest s"
    "write_private_file (known_clients_dir s @ CHR ''/'' # svc @ ''.list'') (to_hex pk @ [nl]) True s1 = (True, s2)"
    "lines_ok (known_clients_dir s) s2" "os_rest s2 = os_rest s"
    "file_lines (known_clients_dir s) s2 = (file_lines (known_clients_dir s) s)(svc @ ''.list'' := file_lines (known_clients_dir s) s (svc @ ''.list'') @ [to_hex pk])" by blast
  have "remember_client svc pk s = (Ret (), s2)"
    using False s(1,3) store_dirs_rest(3) [OF s(2)] by (simp add: remember_client_def known_clients_path_def)
  with that s(4-6) show thesis by simp
qed

interpretation clients: named_store "\<lambda>(svc, pk) (_ :: unit) s. snd (remember_client svc pk s)"
  "\<lambda>(svc, pk) s. if is_known_client svc pk s then Some () else None" "\<lambda>s. lines_ok (known_clients_dir s) s"
  "\<lambda>(svc, pk). slash \<notin> set svc \<and> length pk = 32" "\<lambda>_ _. True"
proof (unfold_locales, goal_cases)
  case (1 s k v)
  obtain svc pk where [simp]: "k = (svc, pk)" by (cases k) auto
  have pre: "lines_ok (known_clients_dir s) s" "slash \<notin> set svc" using 1 by auto
  obtain s' where s': "remember_client svc pk s = (Ret (), s')"
    "lines_ok (known_clients_dir s) s'" "os_rest s' = os_rest s"
    "set (file_lines (known_clients_dir s) s' (svc @ ''.list'')) = insert (to_hex pk) (set (file_lines (known_clients_dir s) s (svc @ ''.list'')))"
    "\<forall>f. f \<noteq> svc @ ''.list'' \<longrightarrow> file_lines (known_clients_dir s) s' f = file_lines (known_clients_dir s) s f"
    by (rule remember_client_lines [OF pre, of pk])
  show ?case using s'(1-3) store_dirs_rest(3) [of s' s] by simp
next
  case (2 s k v)
  obtain svc pk where [simp]: "k = (svc, pk)" by (cases k) auto
  have pre: "lines_ok (known_clients_dir s) s" "slash \<notin> set svc" using 2 by auto
  obtain s' where s': "remember_client svc pk s = (Ret (), s')"
    "lines_ok (known_clients_dir s) s'" "os_rest s' = os_rest s"
    "set (file_lines (known_clients_dir s) s' (svc @ ''.list'')) = insert (to_hex pk) (set (file_lines (known_clients_dir s) s (svc @ ''.list'')))"
    "\<forall>f. f \<noteq> svc @ ''.list'' \<longrightarrow> file_lines (known_clients_dir s) s' f = file_lines (known_clients_dir s) s f"
    by (rule remember_client_lines [OF pre, of pk])
  show ?case using 2 s'(1-4) store_dirs_rest(3) [of s' s] is_known_lines [of s' svc pk] by simp
next
  case (3 s k v k')
  obtain svc pk where [simp]: "k = (svc, pk)" by (cases k) auto
  obtain svc' pk' where [simp]: "k' = (svc', pk')" by (cases k') auto
  have pre: "lines_ok (known_clients_dir s) s" "slash \<notin> set svc" using 3 by auto
  obtain s' where s': "remember_client svc pk s = (Ret (), s')"
    "lines_ok (known_clients_dir s) s'" "os_rest s' = os_rest s"
    "set (file_lines (known_clients_dir s) s' (svc @ ''.list'')) = insert (to_hex pk) (set (file_lines (known_clients_dir s) s (svc @ ''.list'')))"
    "\<forall>f. f \<noteq> svc @ ''.list'' \<longrightarrow> file_lines (known_clients_dir s) s' f = file_lines (known_clients_dir s) s f"
    by (rule remember_client_lines [OF pre, of pk])
  have "known_clients_dir s' = known_clients_dir s" by (rule store_dirs_rest(3) [OF s'(3)])
  then have "is_known_client svc' pk' s' \<longleftrightarrow> is_known_client svc' pk' s"
    using 3 s'(2,4) s'(5) [THEN spec, of "svc' @ ''.list''"] is_known_lines [of s' svc' pk'] is_known_lines [of s svc' pk']
    by (cases "svc' = svc") (simp_all add: to_hex_eq_iff)
  then show ?case using s'(1) by simp
qed

section \<open>Identities\<close>

lemma identity_of_file_content:
  "length pk = 32 \<Longrightarrow> length sk = 64 \<Longrightarrow>
   identity_of_file (to_hex pk @ [nl] @ to_hex sk @ [nl]) = Some \<lparr>id_public_key = pk, id_secret_key = sk\<rparr>"
  using getlines_line [of nl "to_hex sk" "[]"] by (simp add: identity_of_file_def)

lemma load_or_create_view:
  assumes r: "ready (identities_dir s) s" and k: "slash \<notin> set app" and z: "sodium_sizes S"
    and g: "generate_identity S rnd = Ret new"
  obtains ident s' where "load_or_create_identity S rnd app s = (Ret ident, s')" "ready (identities_dir s) s'" "os_rest s' = os_rest s"
    "Option.bind (dir_view (identities_dir s) s' (app @ ''.key'')) identity_of_file = Some ident"
    "Option.bind (dir_view (identities_dir s) s (app @ ''.key'')) identity_of_file = Some ident
      \<or> (Option.bind (dir_view (identities_dir s) s (app @ ''.key'')) identity_of_file = None \<and> ident = new)"
proof -
  let ?d = "identities_dir s" and ?f = "app @ ''.key''"
  from ensure_ready [OF r] obtain s1 where s1: "ensure_private_dir ?d s = (Ret (), s1)" "ready ?d s1"
    "is_dir s1 (split ?d slash)" "os_rest s1 = os_rest s" "dir_view ?d s1 = dir_view ?d s" by blast
  have f: "slash \<notin> set ?f" "?f \<noteq> []" using k by (simp_all add: slash_def)
  have rd: "read_file (?d @ CHR ''/'' # ?f) s1 = dir_view ?d s ?f" using read_file_view [OF _ f] s1(2,5) by (simp add: ready_def)
  have d1: "identities_dir s1 = ?d" by (rule store_dirs_rest(1) [OF s1(4)])
  show thesis
  proof (cases "Option.bind (dir_view ?d s ?f) identity_of_file")
    case (Some ident)
    with s1 rd d1 have "load_or_create_identity S rnd app s = (Ret ident, s1)" by (simp add: load_or_create_identity_def Let_def)
    with that [of ident s1] s1 Some show thesis by simp
  next
    case None
    let ?c = "to_hex (id_public_key new) @ [nl] @ to_hex (id_secret_key new) @ [nl]"
    from private_replace [OF s1(2) f s1(3), of ?c] obtain s2 s3 where
      s3: "write_private_file (?d @ CHR ''/'' # ?f @ ''.tmp'') ?c False s1 = (True, s2)"
      "rename (?d @ CHR ''/'' # ?f @ ''.tmp'') (?d @ CHR ''/'' # ?f) s2 = (True, s3)" "ready ?d s3" "os_rest s3 = os_rest s1"
      "dir_view ?d s3 = (dir_view ?d s1)(?f @ ''.tmp'' := None, ?f \<mapsto> ?c)" by blast
    have "load_or_create_identity S rnd app s = (Ret new, s3)"
      using s1 rd d1 None g s3(1,2) by (simp add: load_or_create_identity_def Let_def)
    moreover have "length (id_public_key new) = 32" "length (id_secret_key new) = 64"
      using z g by (auto simp: sodium_sizes_def generate_identity_def split: option.splits)
    ultimately show thesis using that [of new s3] s3 s1(4) None
      by (simp add: identity_of_file_content [simplified])
  qed
qed

lemma demo_dirs:
  "identities_dir demo_os = ''/home/u/.epx/identities''" "peers_dir demo_os = ''/home/u/.epx/known_peers''"
  "known_clients_dir demo_os = ''/home/u/.epx/known_clients''" "authz_dir demo_os = ''/home/u/.epx/authz''"
  by code_simp+

lemma demo_split:
  "split ''/home/u/.epx/identities'' slash = [''home'', ''u'', ''.epx'', ''identities'']"
  "split ''/home/u/.epx/known_peers'' slash = [''home'', ''u'', ''.epx'', ''known_peers'']"
  "split ''/home/u/.epx/known_clients'' slash = [''home'', ''u'', ''.epx'', ''known_clients'']"
  "split ''/home/u/.epx/authz'' slash = [''home'', ''u'', ''.epx'', ''authz'']"
  by code_simp+

lemma demo_store_ready:
  "ready (identities_dir demo_os) demo_os" "ready (peers_dir demo_os) demo_os"
  "lines_ok (known_clients_dir demo_os) demo_os" "lines_ok (authz_dir demo_os) demo_os"
  unfolding demo_dirs lines_ok_def
  using demo_ready [OF demo_split(1)] demo_ready [OF demo_split(2)] demo_ready [OF demo_split(3)] demo_ready [OF demo_split(4)]
  by (simp_all add: slash_def)

section \<open>Properties\<close>

text \<open>C30: A program keeps its identity. While its directory can be used, \<open>load_or_create_identity\<close> returns
  an identity, and a later call returns the same one, whatever random bytes it could draw.\<close>

theorem identity_is_stable:
  assumes "ready (identities_dir s) s" "slash \<notin> set app" "sodium_sizes S"
    and "generate_identity S rnd = Ret new" "generate_identity S rnd' = Ret new'"
  shows "\<exists>ident s' s''. load_or_create_identity S rnd app s = (Ret ident, s')
     \<and> load_or_create_identity S rnd' app s' = (Ret ident, s'')"
proof -
  from load_or_create_view [OF assms(1-4)] obtain ident s' where s': "load_or_create_identity S rnd app s = (Ret ident, s')"
    "ready (identities_dir s) s'" "os_rest s' = os_rest s"
    "Option.bind (dir_view (identities_dir s) s' (app @ ''.key'')) identity_of_file = Some ident" by blast
  have d: "identities_dir s' = identities_dir s" by (rule store_dirs_rest(1) [OF s'(3)])
  have "ready (identities_dir s') s'" using s'(2) d by simp
  from load_or_create_view [OF this assms(2,3,5)] obtain ident' s'' where
    "load_or_create_identity S rnd' app s' = (Ret ident', s'')"
    "Option.bind (dir_view (identities_dir s') s' (app @ ''.key'')) identity_of_file = Some ident'
      \<or> (Option.bind (dir_view (identities_dir s') s' (app @ ''.key'')) identity_of_file = None \<and> ident' = new')" by blast
  with s'(1,4) d show ?thesis by auto
qed

theorem identity_is_stable_witness:
  "\<exists>ident s' s''. load_or_create_identity toy_sodium [1] ''app'' demo_os = (Ret ident, s')
     \<and> load_or_create_identity toy_sodium [2] ''app'' s' = (Ret ident, s'')"
  using identity_is_stable [OF demo_store_ready(1) _ toy_sizes toy_generate(1) toy_generate(1), of "''app''"] by (simp add: slash_def)

text \<open>C28: The trust store is a faithful map. After any sequence of \<open>pin_peer\<close> calls, \<open>load_pinned_peer\<close>
  returns the key pinned last for that service, or what it returned before if none was; after any
  sequence of \<open>remember_client\<close> calls exactly the clients remembered (or known before) are known.\<close>

theorem trust_store_remembers:
  assumes "ready (peers_dir s) s" "lines_ok (known_clients_dir s) s" "slash \<notin> set svc" "length pk = 32"
    and "\<forall>(svc, pk) \<in> set kvs. slash \<notin> set svc \<and> length pk = 32"
  shows "load_pinned_peer svc (fold (\<lambda>(svc, pk) s. snd (pin_peer svc pk s)) kvs s)
      = (case map_of (rev kvs) svc of Some pk \<Rightarrow> Some pk | None \<Rightarrow> load_pinned_peer svc s)
    \<and> (is_known_client svc pk (fold (\<lambda>(svc, pk) s. snd (remember_client svc pk s)) kvs s)
      \<longleftrightarrow> (svc, pk) \<in> set kvs \<or> is_known_client svc pk s)"
proof
  show "load_pinned_peer svc (fold (\<lambda>(svc, pk) s. snd (pin_peer svc pk s)) kvs s)
      = (case map_of (rev kvs) svc of Some pk \<Rightarrow> Some pk | None \<Rightarrow> load_pinned_peer svc s)"
    using pins.history [of s kvs svc] assms by simp
  have "fold (\<lambda>(k, v) s. case k of (svc, pk) \<Rightarrow> snd (remember_client svc pk s)) (map (\<lambda>k. (k, ())) kvs) s
      = fold (\<lambda>(svc, pk) s. snd (remember_client svc pk s)) kvs s" for s
    by (induction kvs arbitrary: s) auto
  moreover have "map_of (rev (map (\<lambda>k. (k, ())) kvs)) (svc, pk) = (if (svc, pk) \<in> set kvs then Some () else None)"
    by (induction kvs rule: rev_induct) auto
  ultimately show "is_known_client svc pk (fold (\<lambda>(svc, pk) s. snd (remember_client svc pk s)) kvs s)
      \<longleftrightarrow> (svc, pk) \<in> set kvs \<or> is_known_client svc pk s"
    using clients.history [of s "map (\<lambda>k. (k, ())) kvs" "(svc, pk)"] assms
    by (auto simp: case_prod_beta' split: if_splits)
qed

theorem trust_store_remembers_witness:
  "load_pinned_peer ''a'' (fold (\<lambda>(svc, pk) s. snd (pin_peer svc pk s)) [(''a'', replicate 32 1), (''b'', replicate 32 2)] demo_os)
     = Some (replicate 32 1)
   \<and> is_known_client ''b'' (replicate 32 2)
       (fold (\<lambda>(svc, pk) s. snd (remember_client svc pk s)) [(''a'', replicate 32 1), (''b'', replicate 32 2)] demo_os)"
  using trust_store_remembers [OF demo_store_ready(2,3), of "''a''" "replicate 32 1" "[(''a'', replicate 32 1), (''b'', replicate 32 2)]"]
    trust_store_remembers [OF demo_store_ready(2,3), of "''b''" "replicate 32 2" "[(''a'', replicate 32 1), (''b'', replicate 32 2)]"]
  by (simp add: slash_def)

text \<open>The persisted prompt decisions are a faithful map: after any sequence of decisions, the last one
  for a service, peer and endpoint is what is loaded for it, whatever was decided for others.\<close>

theorem last_decision_wins:
  assumes "lines_ok (authz_dir s) s" "slash \<notin> set svc" "length pk = 32" "nl \<notin> set ep"
    and "\<forall>((svc, pk, ep), allow) \<in> set ds. slash \<notin> set svc \<and> length pk = 32 \<and> nl \<notin> set ep"
  shows "load_authz_decision svc pk ep (fold (\<lambda>((svc, pk, ep), allow) s. snd (save_authz_decision svc pk ep allow s)) ds s)
     = (case map_of (rev ds) (svc, pk, ep) of Some allow \<Rightarrow> Some allow | None \<Rightarrow> load_authz_decision svc pk ep s)"
  using authz.history [of s ds "(svc, pk, ep)"] assms by (auto simp: case_prod_unfold split: option.splits)


theorem last_decision_wins_witness:
  "load_authz_decision ''a'' (replicate 32 1) ''del all'' (fold (\<lambda>((svc, pk, ep), allow) s. snd (save_authz_decision svc pk ep allow s))
     [((''a'', replicate 32 1, ''del all''), True), ((''a'', replicate 32 1, ''del all''), False), ((''a'', replicate 32 1, ''x''), True)] demo_os)
   = Some False"
  using last_decision_wins [OF demo_store_ready(4), of "''a''" "replicate 32 1" "''del all''"
      "[((''a'', replicate 32 1, ''del all''), True), ((''a'', replicate 32 1, ''del all''), False), ((''a'', replicate 32 1, ''x''), True)]"]
  by (simp add: slash_def nl_def)

text \<open>A failed write while pinning goes unnoticed. If the first \<open>write\<close> of \<open>pin_peer\<close> fails, it still
  returns normally, having put an empty file in the place of the pin: the key is not pinned, and
  any earlier pin of that service is gone.\<close>

theorem failed_write_pins_nothing:
  assumes "usable_dir (peers_dir s) s" "slash \<notin> set svc" "os_writes s = w # ws" "w \<le> 0"
  shows "fst (pin_peer svc pk s) = Ret () \<and> load_pinned_peer svc (snd (pin_peer svc pk s)) = None"
  by (rule pin_peer_failed_write [OF assms, of pk]) (simp_all add: load_pinned_peer_view [OF _ assms(2)])


theorem failed_write_pins_nothing_witness:
  "fst (pin_peer ''a'' [1] (demo_os\<lparr>os_writes := [0]\<rparr>)) = Ret ()
   \<and> load_pinned_peer ''a'' (snd (pin_peer ''a'' [1] (demo_os\<lparr>os_writes := [0]\<rparr>))) = None"
proof (rule failed_write_pins_nothing [where w = 0 and ws = "[]"])
  have "peers_dir (demo_os\<lparr>os_writes := [0]\<rparr>) = peers_dir demo_os" by (rule store_dirs_rest) simp
  then show "usable_dir (peers_dir (demo_os\<lparr>os_writes := [0]\<rparr>)) (demo_os\<lparr>os_writes := [0]\<rparr>)"
    unfolding demo_dirs using demo_usable [OF demo_split(2)] by (simp add: slash_def demo_dirs)
qed (simp_all add: slash_def)

end
