(* ===== verification/Epx_Registry.thy ===== *)
theory Epx_Registry
  imports Epx_Keystore "HOL-Library.Char_ord" "HOL-Library.List_Lexorder"
begin

text \<open>
  Service discovery (\<^verbatim>\<open>src/registry.cpp\<close>): entries are small files in the private directory
  \<^verbatim>\<open>registry\<close> below \<open>runtime_dir\<close>. A lookup also removes the entry of a host that is no longer running.
  The order in which a directory is listed is the order of \<open>os_nodes\<close>; strings are ordered as byte strings.
\<close>

record Entry =
  en_version :: u8
  en_service_name :: string
  en_address :: string
  en_identity_pubkey :: PublicKey
  en_pid :: int
  en_endpoints :: "string list"
  en_description :: string

definition Entry_init :: Entry where
  "Entry_init = \<lparr>en_version = 1, en_service_name = [], en_address = [], en_identity_pubkey = replicate 32 0,
     en_pid = -1, en_endpoints = [], en_description = []\<rparr>"

definition registry_dir :: "os \<Rightarrow> string" where
  "registry_dir s = runtime_dir s @ ''/registry''"

definition entry_path :: "string \<Rightarrow> os \<Rightarrow> string" where
  "entry_path service_name s = registry_dir s @ ''/'' @ service_name @ ''.entry''"

text \<open>\<open>pid_t\<close> has 32 bits.\<close>

definition pid_t :: "int \<Rightarrow> int" where
  "pid_t pid = sint (word_of_int pid :: 32 word)"

definition pid_is_alive :: "int \<Rightarrow> os \<Rightarrow> bool" where
  "pid_is_alive pid s =
     (if pid \<le> 0 then False
      else case os_kill s (pid_t pid) of None \<Rightarrow> True | Some e \<Rightarrow> e \<noteq> ESRCH)"

definition entry_text :: "Entry \<Rightarrow> string" where
  "entry_text e =
     ''version='' @ dec (unat (en_version e)) @ [nl]
     @ ''service='' @ en_service_name e @ [nl]
     @ ''address='' @ en_address e @ [nl]
     @ ''pubkey='' @ to_hex (en_identity_pubkey e) @ [nl]
     @ ''pid='' @ dec_int (en_pid e) @ [nl]
     @ ''endpoints='' @ join (en_endpoints e) (CHR '','') @ [nl]
     @ ''description='' @ en_description e @ [nl]"

definition publish :: "Entry \<Rightarrow> os \<Rightarrow> unit ex \<times> os" where
  "publish e s =
     (case ensure_private_dir (registry_dir s) s of
        (Throw x, s1) \<Rightarrow> (Throw x, s1)
      | (Ret _, s1) \<Rightarrow>
          (let path = entry_path (en_service_name e) s1;
               tmp = path @ ''.tmp'';
               s2 = ofstream_write tmp (entry_text e) s1;
               (_, s3) = rename tmp path s2
           in (Ret (), s3)))"

definition unpublish :: "string \<Rightarrow> os \<Rightarrow> os" where
  "unpublish service_name s = snd (remove (entry_path service_name s) s)"

definition entry_field :: "string \<Rightarrow> string \<Rightarrow> Entry \<Rightarrow> Entry option" where
  "entry_field key val e =
     (if key = ''version'' then (case stoi val of Ret v \<Rightarrow> Some (e\<lparr>en_version := word_of_int v\<rparr>) | Throw _ \<Rightarrow> None)
      else if key = ''service'' then Some e
      else if key = ''address'' then Some (e\<lparr>en_address := val\<rparr>)
      else if key = ''pubkey'' then (case from_hex val 32 of Some b \<Rightarrow> Some (e\<lparr>en_identity_pubkey := b\<rparr>) | None \<Rightarrow> None)
      else if key = ''pid'' then (case stol val of Ret v \<Rightarrow> Some (e\<lparr>en_pid := v\<rparr>) | Throw _ \<Rightarrow> None)
      else if key = ''endpoints'' then Some (e\<lparr>en_endpoints := split val (CHR '','')\<rparr>)
      else if key = ''description'' then Some (e\<lparr>en_description := val\<rparr>)
      else Some e)"

fun entry_lines :: "string list \<Rightarrow> Entry \<Rightarrow> Entry option" where
  "entry_lines [] e = Some e"
| "entry_lines (line # ls) e =
     (case split_at (CHR ''='') line of
        None \<Rightarrow> entry_lines ls e
      | Some (key, val) \<Rightarrow>
          (case entry_field key val e of None \<Rightarrow> None | Some e1 \<Rightarrow> entry_lines ls e1))"

definition lookup :: "string \<Rightarrow> os \<Rightarrow> Entry option \<times> os" where
  "lookup service_name s =
     (case read_file (entry_path service_name s) s of
        None \<Rightarrow> (None, s)
      | Some content \<Rightarrow>
          (case entry_lines (getlines nl content) (Entry_init\<lparr>en_service_name := service_name\<rparr>) of
             None \<Rightarrow> (None, s)
           | Some e \<Rightarrow>
               if \<not> pid_is_alive (en_pid e) s then (None, unpublish service_name s)
               else (Some e, s)))"

text \<open>\<open>path::extension\<close> and \<open>path::stem\<close>: the name is split at its last dot, unless that is its first
  character.\<close>

definition has_extension :: "string \<Rightarrow> string \<Rightarrow> string option" where
  "has_extension ext f = (case split_last (CHR ''.'') f of
       Some (stem, e) \<Rightarrow> if e = ext \<and> stem \<noteq> [] then Some stem else None
     | None \<Rightarrow> None)"

definition dir_names :: "string \<Rightarrow> os \<Rightarrow> string list" where
  "dir_names d s = (let D = resolve s d in
     map (\<lambda>(q, _). last q) (filter (\<lambda>(q, _). q \<noteq> [] \<and> butlast q = D) (os_nodes s)))"

fun list_loop :: "string list \<Rightarrow> string list \<Rightarrow> os \<Rightarrow> string list \<times> os" where
  "list_loop [] names s = (names, s)"
| "list_loop (f # fs) names s =
     (case has_extension ''entry'' f of
        None \<Rightarrow> list_loop fs names s
      | Some name \<Rightarrow>
          (case lookup name s of
             (Some _, s1) \<Rightarrow> list_loop fs (names @ [name]) s1
           | (None, s1) \<Rightarrow> list_loop fs names s1))"

definition list_services :: "os \<Rightarrow> string list \<times> os" where
  "list_services s = (case list_loop (dir_names (registry_dir s) s) [] s of (names, s1) \<Rightarrow> (sort names, s1))"

definition kind_of_string :: "string \<Rightarrow> EndpointKind" where
  "kind_of_string kind =
     (if kind = ''receive'' then KReceive
      else if kind = ''send'' then KSend
      else if kind = ''stream_receive'' then KStreamReceive
      else if kind = ''stream_send'' then KStreamSend
      else if kind = ''topic'' then KTopic
      else KReceive)"

definition describe_endpoint :: "string \<Rightarrow> DescribedEndpoint" where
  "describe_endpoint ep =
     (case split_last (CHR '':'') ep of
        None \<Rightarrow> \<lparr>de_name = ep, de_kind = kind_of_string ''receive''\<rparr>
      | Some (name, kind) \<Rightarrow> \<lparr>de_name = name, de_kind = kind_of_string kind\<rparr>)"

definition describe :: "string \<Rightarrow> os \<Rightarrow> ServiceDescription option \<times> os" where
  "describe service_name s =
     (case lookup service_name s of
        (None, s1) \<Rightarrow> (None, s1)
      | (Some e, s1) \<Rightarrow>
          (Some \<lparr>sd_service_name = en_service_name e, sd_description = en_description e, sd_pid = en_pid e,
             sd_identity_pubkey = en_identity_pubkey e, sd_endpoints = map describe_endpoint (en_endpoints e)\<rparr>, s1))"

text \<open>\<open>kind_to_string\<close> of \<^verbatim>\<open>src/host.cpp\<close>, the writer of the endpoint list.\<close>

definition kind_to_string :: "EndpointKind \<Rightarrow> string" where
  "kind_to_string k = (case k of KReceive \<Rightarrow> ''receive'' | KSend \<Rightarrow> ''send'' | KStreamReceive \<Rightarrow> ''stream_receive''
     | KStreamSend \<Rightarrow> ''stream_send'' | KTopic \<Rightarrow> ''topic'')"


section \<open>The entry format\<close>

definition entry_ok :: "Entry \<Rightarrow> bool" where
  "entry_ok e \<longleftrightarrow> nl \<notin> set (en_service_name e) \<and> nl \<notin> set (en_address e) \<and> nl \<notin> set (en_description e)
     \<and> length (en_identity_pubkey e) = 32 \<and> - (2 ^ 63) \<le> en_pid e \<and> en_pid e < 2 ^ 63
     \<and> (\<forall>x \<in> set (en_endpoints e). x \<noteq> [] \<and> nl \<notin> set x \<and> CHR '','' \<notin> set x)"

lemma entry_split_at [simp]:
  "split_at (CHR ''='') (CHR ''v'' # CHR ''e'' # CHR ''r'' # CHR ''s'' # CHR ''i'' # CHR ''o'' # CHR ''n'' # CHR ''='' # v) = Some (''version'', v)"
  "split_at (CHR ''='') (CHR ''s'' # CHR ''e'' # CHR ''r'' # CHR ''v'' # CHR ''i'' # CHR ''c'' # CHR ''e'' # CHR ''='' # v) = Some (''service'', v)"
  "split_at (CHR ''='') (CHR ''a'' # CHR ''d'' # CHR ''d'' # CHR ''r'' # CHR ''e'' # CHR ''s'' # CHR ''s'' # CHR ''='' # v) = Some (''address'', v)"
  "split_at (CHR ''='') (CHR ''p'' # CHR ''u'' # CHR ''b'' # CHR ''k'' # CHR ''e'' # CHR ''y'' # CHR ''='' # v) = Some (''pubkey'', v)"
  "split_at (CHR ''='') (CHR ''p'' # CHR ''i'' # CHR ''d'' # CHR ''='' # v) = Some (''pid'', v)"
  "split_at (CHR ''='') (CHR ''e'' # CHR ''n'' # CHR ''d'' # CHR ''p'' # CHR ''o'' # CHR ''i'' # CHR ''n'' # CHR ''t'' # CHR ''s'' # CHR ''='' # v) = Some (''endpoints'', v)"
  "split_at (CHR ''='') (CHR ''d'' # CHR ''e'' # CHR ''s'' # CHR ''c'' # CHR ''r'' # CHR ''i'' # CHR ''p'' # CHR ''t'' # CHR ''i'' # CHR ''o'' # CHR ''n'' # CHR ''='' # v) = Some (''description'', v)"
  using split_at_append [of "CHR ''=''" "''version''"] split_at_append [of "CHR ''=''" "''service''"]
    split_at_append [of "CHR ''=''" "''address''"] split_at_append [of "CHR ''=''" "''pubkey''"]
    split_at_append [of "CHR ''=''" "''pid''"] split_at_append [of "CHR ''=''" "''endpoints''"]
    split_at_append [of "CHR ''=''" "''description''"] by simp_all

lemma set_join_loop: "set (join_loop b xs c) \<subseteq> insert c (\<Union> (set ` set xs))"
  by (induction xs arbitrary: b) auto

lemma stoi_dec_u8: "stoi (dec (unat (v :: u8))) = Ret (int (unat v))"
proof -
  have "stoi (dec n) = Ret (int n)" if "n < 256" for n using that by (simp add: stoi_def read_number_dec)
  moreover have "unat v < 256" using unsigned_less [of v] by simp
  ultimately show ?thesis by blast
qed

lemma entry_text_lines:
  "entry_text e = concat (map (\<lambda>l. l @ [nl])
     [''version='' @ dec (unat (en_version e)), ''service='' @ en_service_name e, ''address='' @ en_address e,
      ''pubkey='' @ to_hex (en_identity_pubkey e), ''pid='' @ dec_int (en_pid e),
      ''endpoints='' @ join (en_endpoints e) (CHR '',''), ''description='' @ en_description e])"
  by (simp add: entry_text_def)

lemma getlines_whole_lines: "\<forall>l \<in> set ls. d \<notin> set l \<Longrightarrow> getlines d (concat (map (\<lambda>l. l @ [d]) ls)) = ls"
  by (induction ls) auto

lemma entry_roundtrip:
  assumes "entry_ok e"
  shows "entry_lines (getlines nl (entry_text e)) (Entry_init\<lparr>en_service_name := en_service_name e\<rparr>) = Some e"
proof -
  have j: "nl \<notin> set (join (en_endpoints e) (CHR '',''))"
    using assms set_join_loop [of True "en_endpoints e" "CHR '',''"] by (auto simp: entry_ok_def join_def nl_def)
  have "getlines nl (entry_text e) = [''version='' @ dec (unat (en_version e)), ''service='' @ en_service_name e, ''address='' @ en_address e,
      ''pubkey='' @ to_hex (en_identity_pubkey e), ''pid='' @ dec_int (en_pid e),
      ''endpoints='' @ join (en_endpoints e) (CHR '',''), ''description='' @ en_description e]"
    unfolding entry_text_lines
    by (rule getlines_whole_lines)
      (use assms j in \<open>simp add: entry_ok_def nl_def [symmetric] dec_no_char dec_int_no_char\<close>, simp add: nl_def)
  moreover have "split (join (en_endpoints e) (CHR '','')) (CHR '','') = en_endpoints e"
    by (rule split_join) (use assms in \<open>auto simp: entry_ok_def\<close>)
  ultimately show ?thesis using assms
    by (cases e) (simp add: entry_field_def entry_ok_def Entry_init_def stoi_dec_u8 stol_dec_int)
qed

section \<open>The operations as updates of the registry directory\<close>

lemma registry_dir_rest: "os_rest s' = os_rest s \<Longrightarrow> registry_dir s' = registry_dir s"
  unfolding registry_dir_def by (drule dirs_rest(2)) simp

lemma pid_is_alive_rest: "os_kill s' = os_kill s \<Longrightarrow> pid_is_alive pid s' = pid_is_alive pid s"
  by (simp add: pid_is_alive_def)

lemma entry_file: "slash \<notin> set svc \<Longrightarrow> slash \<notin> set (svc @ ''.entry'')" "svc @ ''.entry'' \<noteq> []"
  by (simp_all add: slash_def)

lemma publish_view:
  assumes r: "ready (registry_dir s) s" and k: "slash \<notin> set (en_service_name e)"
  obtains s' where "publish e s = (Ret (), s')" "ready (registry_dir s) s'" "os_rest s' = os_rest s"
    "dir_view (registry_dir s) s' = (dir_view (registry_dir s) s)
       (en_service_name e @ ''.entry'' @ ''.tmp'' := None, en_service_name e @ ''.entry'' \<mapsto> entry_text e)"
proof -
  let ?d = "registry_dir s" and ?f = "en_service_name e @ ''.entry''"
  from ensure_ready [OF r] obtain s1 where s1: "ensure_private_dir ?d s = (Ret (), s1)" "ready ?d s1"
    "is_dir s1 (split ?d slash)" "os_rest s1 = os_rest s" "dir_view ?d s1 = dir_view ?d s" by metis
  from ofstream_replace [OF s1(2) entry_file(1) [OF k] entry_file(2) s1(3), of "entry_text e"] obtain s3 where
    s3: "rename (?d @ CHR ''/'' # ?f @ ''.tmp'') (?d @ CHR ''/'' # ?f) (ofstream_write (?d @ CHR ''/'' # ?f @ ''.tmp'') (entry_text e) s1) = (True, s3)"
    "ready ?d s3" "os_rest s3 = os_rest s1" "dir_view ?d s3 = (dir_view ?d s1)(?f @ ''.tmp'' := None, ?f \<mapsto> entry_text e)" by metis
  have "publish e s = (Ret (), s3)" using s1(1) s3(1) registry_dir_rest [OF s1(4)] by (simp add: publish_def entry_path_def Let_def)
  with that s3 s1(4,5) show thesis by simp
qed

lemma lookup_view:
  assumes "usable_dir (registry_dir s) s" "slash \<notin> set svc"
  shows "lookup svc s = (case dir_view (registry_dir s) s (svc @ ''.entry'') of
        None \<Rightarrow> (None, s)
      | Some content \<Rightarrow>
          (case entry_lines (getlines nl content) (Entry_init\<lparr>en_service_name := svc\<rparr>) of
             None \<Rightarrow> (None, s)
           | Some e \<Rightarrow> if \<not> pid_is_alive (en_pid e) s then (None, unpublish svc s) else (Some e, s)))"
  using read_file_view [OF assms(1) entry_file(1) [OF assms(2)] entry_file(2)] by (simp add: lookup_def entry_path_def)

lemma unpublish_view:
  assumes u: "usable_dir (registry_dir s) s" and k: "slash \<notin> set svc"
  shows "usable_dir (registry_dir s) (unpublish svc s)" "os_rest (unpublish svc s) = os_rest s"
    "os_writes (unpublish svc s) = os_writes s"
    "dir_view (registry_dir s) (unpublish svc s) = (dir_view (registry_dir s) s)(svc @ ''.entry'' := None)"
proof -
  let ?q = "split (registry_dir s) slash @ [svc @ ''.entry'']"
  have d: "registry_dir s \<noteq> []" "hd (registry_dir s) = slash" using u by (auto simp: usable_dir_def)
  have res: "resolve s (entry_path svc s) = ?q"
    using resolve_in [OF d entry_file(1) [OF k] entry_file(2)] by (simp add: entry_path_def)
  have nd: "\<not> is_dir s ?q" "\<not> os_deny s ?q" using u by (auto simp: usable_dir_def)
  have eq: "unpublish svc s = (if node s ?q = None then s else del_node ?q s)"
    using nd by (simp add: unpublish_def remove_def Let_def res)
  have n: "node (unpublish svc s) = (node s)(?q := None)" by (auto simp: eq)
  show r: "os_rest (unpublish svc s) = os_rest s" "os_writes (unpublish svc s) = os_writes s" by (simp_all add: eq)
  show "usable_dir (registry_dir s) (unpublish svc s)"
    by (rule usable_file_change [OF u r(1), where F = "{svc @ ''.entry''}"]) (use u n in \<open>auto simp: usable_dir_def is_dir_def\<close>)
  show "dir_view (registry_dir s) (unpublish svc s) = (dir_view (registry_dir s) s)(svc @ ''.entry'' := None)"
    by (auto simp: dir_view_def n fun_eq_iff)
qed

interpretation entries: named_store "\<lambda>svc e s. snd (publish e s)" "\<lambda>svc s. fst (lookup svc s)"
  "\<lambda>s. ready (registry_dir s) s \<and> os_kill s = K" "\<lambda>svc. slash \<notin> set svc"
  "\<lambda>svc e. entry_ok e \<and> en_service_name e = svc \<and> (\<forall>s. os_kill s = K \<longrightarrow> pid_is_alive (en_pid e) s)" for K
proof (unfold_locales, goal_cases)
  case (1 s k v)
  then have pre: "ready (registry_dir s) s" "slash \<notin> set (en_service_name v)" by auto
  obtain s' where s': "publish v s = (Ret (), s')" "ready (registry_dir s) s'" "os_rest s' = os_rest s"
    using publish_view [OF pre] by metis
  then show ?case using 1 os_rest_eq(6) [OF s'(3)] registry_dir_rest [OF s'(3)] by simp
next
  case (2 s k v)
  then have pre: "ready (registry_dir s) s" "slash \<notin> set (en_service_name v)" by auto
  obtain s' where s': "publish v s = (Ret (), s')" "ready (registry_dir s) s'" "os_rest s' = os_rest s"
    "dir_view (registry_dir s) s' = (dir_view (registry_dir s) s)
       (en_service_name v @ ''.entry'' @ ''.tmp'' := None, en_service_name v @ ''.entry'' \<mapsto> entry_text v)"
    using publish_view [OF pre] by metis
  have "registry_dir s' = registry_dir s" "os_kill s' = K" using 2 os_rest_eq(6) [OF s'(3)] registry_dir_rest [OF s'(3)] by auto
  moreover have "entry_lines (getlines nl (entry_text v)) (Entry_init\<lparr>en_service_name := k\<rparr>) = Some v"
    using 2 entry_roundtrip [of v] by auto
  ultimately show ?case using 2 s' lookup_view [of s' k] by (simp add: ready_def)
next
  case (3 s k v k')
  then have pre: "ready (registry_dir s) s" "slash \<notin> set (en_service_name v)" by auto
  obtain s' where s': "publish v s = (Ret (), s')" "ready (registry_dir s) s'" "os_rest s' = os_rest s"
    "dir_view (registry_dir s) s' = (dir_view (registry_dir s) s)
       (en_service_name v @ ''.entry'' @ ''.tmp'' := None, en_service_name v @ ''.entry'' \<mapsto> entry_text v)"
    using publish_view [OF pre] by metis
  have d: "registry_dir s' = registry_dir s" "os_kill s' = os_kill s" using os_rest_eq(6) [OF s'(3)] registry_dir_rest [OF s'(3)] by auto
  have "fst (lookup k' s') = fst (lookup k' s)"
    using 3 s'(2,4) d lookup_view [of s' k'] lookup_view [of s k'] pid_is_alive_rest [OF d(2)]
    by (auto simp: ready_def split: option.splits)
  with s'(1) show ?case by simp
qed


section \<open>Listing\<close>

lemma lookup_effect:
  assumes u: "usable_dir (registry_dir s) s" and k: "slash \<notin> set svc" and l: "lookup svc s = (r, s')"
  shows "usable_dir (registry_dir s') s'" "os_rest s' = os_rest s"
    "dir_view (registry_dir s') s' = dir_view (registry_dir s) s
       \<or> r = None \<and> dir_view (registry_dir s') s' = (dir_view (registry_dir s) s)(svc @ ''.entry'' := None)"
proof -
  have cases: "s' = s \<or> r = None \<and> s' = unpublish svc s"
    using l lookup_view [OF u k] by (auto split: option.splits if_splits)
  show r: "os_rest s' = os_rest s" using cases unpublish_view(2) [OF u k] by auto
  show "usable_dir (registry_dir s') s'" using cases unpublish_view(1) [OF u k] u registry_dir_rest [OF r] by auto
  show "dir_view (registry_dir s') s' = dir_view (registry_dir s) s
       \<or> r = None \<and> dir_view (registry_dir s') s' = (dir_view (registry_dir s) s)(svc @ ''.entry'' := None)"
    using cases unpublish_view(4) [OF u k] registry_dir_rest [OF r] by auto
qed

lemma lookup_same:
  assumes "usable_dir (registry_dir s) s" "usable_dir (registry_dir s') s'" "slash \<notin> set svc" "os_rest s' = os_rest s"
    and "dir_view (registry_dir s') s' (svc @ ''.entry'') = dir_view (registry_dir s) s (svc @ ''.entry'')"
  shows "fst (lookup svc s') = fst (lookup svc s)"
  using lookup_view [OF assms(1,3)] lookup_view [OF assms(2,3)] assms(5) pid_is_alive_rest [OF os_rest_eq(6) [OF assms(4)]]
  by (auto split: option.splits)

lemma has_extension_iff: "has_extension ext f = Some n \<Longrightarrow> f = n @ CHR ''.'' # ext \<and> n \<noteq> []"
proof -
  assume a: "has_extension ext f = Some n"
  then have "split_last (CHR ''.'') f = Some (n, ext)" "n \<noteq> []" by (auto simp: has_extension_def split: option.splits if_splits)
  then obtain a b where s: "split_at (CHR ''.'') (rev f) = Some (a, b)" "n = rev b" "ext = rev a" by (auto simp: split_last_def)
  then have "CHR ''.'' \<in> set (rev f)" by (auto simp: split_at_def split: if_splits)
  then obtain x y where xy: "rev f = x @ CHR ''.'' # y" "CHR ''.'' \<notin> set x" by (metis split_list_first)
  with s have "a = x" "b = y" by auto
  with s xy have "f = n @ CHR ''.'' # ext" by (metis append.assoc append_Cons append_Nil rev_append rev_rev_ident rev.simps(2))
  with \<open>n \<noteq> []\<close> show ?thesis by simp
qed

lemma has_extension_snoc: "CHR ''.'' \<notin> set ext \<Longrightarrow> n \<noteq> [] \<Longrightarrow> has_extension ext (n @ CHR ''.'' # ext) = Some n"
  by (simp add: has_extension_def)

lemma list_loop_names:
  assumes "usable_dir (registry_dir s) s" "distinct fs" "\<forall>f \<in> set fs. slash \<notin> set f"
    and "list_loop fs acc s = (names, s')"
  shows "names = acc @ filter (\<lambda>n. fst (lookup n s) \<noteq> None) (List.map_filter (has_extension ''entry'') fs)"
  using assms
proof (induction fs arbitrary: acc s)
  case (Cons f fs)
  show ?case
  proof (cases "has_extension ''entry'' f")
    case None
    with Cons show ?thesis by (auto simp: List.map_filter_def)
  next
    case (Some n)
    have f: "f = n @ ''.entry''" using has_extension_iff [OF Some] by simp
    have k: "slash \<notin> set n" using Cons.prems(3) f by simp
    obtain r s1 where l: "lookup n s = (r, s1)" by fastforce
    note eff = lookup_effect [OF Cons.prems(1) k l]
    have same: "fst (lookup m s1) = fst (lookup m s)" if "m @ ''.entry'' \<in> set fs" for m
    proof (rule lookup_same [OF Cons.prems(1) eff(1) _ eff(2)])
      show "slash \<notin> set m" using Cons.prems(3) that by auto
      have "m @ ''.entry'' \<noteq> f" using that Cons.prems(2) by auto
      then show "dir_view (registry_dir s1) s1 (m @ ''.entry'') = dir_view (registry_dir s) s (m @ ''.entry'')"
        using eff(3) f by auto
    qed
    have "list_loop fs (acc @ (if r = None then [] else [n])) s1 = (names, s')"
      using Cons.prems(4) Some l by (cases r) auto
    from Cons.IH [OF eff(1) _ _ this] have "names = (acc @ (if r = None then [] else [n])) @ filter (\<lambda>n. fst (lookup n s1) \<noteq> None) (List.map_filter (has_extension ''entry'') fs)"
      using Cons.prems(2,3) by simp
    moreover have "filter (\<lambda>n. fst (lookup n s1) \<noteq> None) (List.map_filter (has_extension ''entry'') fs)
        = filter (\<lambda>n. fst (lookup n s) \<noteq> None) (List.map_filter (has_extension ''entry'') fs)"
    proof (rule filter_cong [OF refl])
      fix m
      assume "m \<in> set (List.map_filter (has_extension ''entry'') fs)"
      then obtain g where "g \<in> set fs" "has_extension ''entry'' g = Some m" by (auto simp: List.map_filter_def)
      then have "m @ ''.entry'' \<in> set fs" using has_extension_iff [of "''entry''" g m] by auto
      then show "(fst (lookup m s1) \<noteq> None) = (fst (lookup m s) \<noteq> None)" using same by simp
    qed
    ultimately show ?thesis using Some l by (auto simp: List.map_filter_def)
  qed
qed (simp add: List.map_filter_def)


text \<open>Every path is listed once, and no component contains a slash.\<close>

definition paths_wf :: "os \<Rightarrow> bool" where
  "paths_wf s \<longleftrightarrow> distinct (map fst (os_nodes s)) \<and> (\<forall>(q, nd) \<in> set (os_nodes s). \<forall>c \<in> set q. slash \<notin> set c)"

lemma dir_names_facts:
  assumes w: "paths_wf s" and d: "d \<noteq> []" "hd d = slash"
  shows "distinct (dir_names d s)" "\<forall>f \<in> set (dir_names d s). slash \<notin> set f"
    "f \<in> set (dir_names d s) \<longleftrightarrow> node s (split d slash @ [f]) \<noteq> None"
proof -
  let ?D = "split d slash"
  have sn: "q \<noteq> [] \<and> butlast q = ?D \<and> last q = f \<longleftrightarrow> q = ?D @ [f]" for q :: path and f
    by (metis append_butlast_last_id butlast_snoc last_snoc snoc_eq_iff_butlast)
  have "f \<in> set (dir_names d s) \<longleftrightarrow> (\<exists>q nd. (q, nd) \<in> set (os_nodes s) \<and> (q \<noteq> [] \<and> butlast q = ?D \<and> last q = f))" for f
    by (auto simp: dir_names_def Let_def resolve_abs [OF d])
  then have mem: "f \<in> set (dir_names d s) \<longleftrightarrow> (\<exists>nd. (?D @ [f], nd) \<in> set (os_nodes s))" for f unfolding sn by auto
  show "f \<in> set (dir_names d s) \<longleftrightarrow> node s (?D @ [f]) \<noteq> None" unfolding mem by (auto simp: node_def map_of_eq_None_iff intro: rev_image_eqI)
  have "slash \<notin> set f" if "f \<in> set (dir_names d s)" for f
  proof -
    from that obtain nd where "(?D @ [f], nd) \<in> set (os_nodes s)" unfolding mem ..
    with w have "\<forall>c \<in> set (?D @ [f]). slash \<notin> set c" unfolding paths_wf_def by blast
    then show ?thesis by simp
  qed
  then show "\<forall>f \<in> set (dir_names d s). slash \<notin> set f" by blast
  have "inj_on (\<lambda>(q, nd). last q) (set (filter (\<lambda>(q, nd). q \<noteq> [] \<and> butlast q = ?D) (os_nodes s)))"
  proof (rule inj_onI)
    fix x y
    assume x: "x \<in> set (filter (\<lambda>(q, nd). q \<noteq> [] \<and> butlast q = ?D) (os_nodes s))"
      and y: "y \<in> set (filter (\<lambda>(q, nd). q \<noteq> [] \<and> butlast q = ?D) (os_nodes s))"
      and l: "(\<lambda>(q, nd). last q) x = (\<lambda>(q, nd). last q) y"
    obtain q nd q' nd' where [simp]: "x = (q, nd)" "y = (q', nd')" by (cases x, cases y) auto
    from x y l have "q = q'" by simp (metis append_butlast_last_id)
    with x y w show "x = y" by (auto simp: paths_wf_def dest: eq_key_imp_eq_value)
  qed
  moreover have "distinct (os_nodes s)" using w distinct_map by (auto simp: paths_wf_def)
  ultimately show "distinct (dir_names d s)" unfolding dir_names_def Let_def resolve_abs [OF d] by (simp add: distinct_map)
qed

lemma listed_services:
  assumes u: "usable_dir (registry_dir s) s" and w: "paths_wf s"
  shows "sorted (fst (list_services s)) \<and> distinct (fst (list_services s))
    \<and> set (fst (list_services s)) = {n. n \<noteq> [] \<and> slash \<notin> set n \<and> fst (lookup n s) \<noteq> None}"
proof -
  have d: "registry_dir s \<noteq> []" "hd (registry_dir s) = slash" using u by (auto simp: usable_dir_def)
  note dn = dir_names_facts [OF w d]
  let ?fs = "dir_names (registry_dir s) s"
  obtain names s' where l: "list_loop ?fs [] s = (names, s')" by fastforce
  then have ls: "fst (list_services s) = sort names" by (simp add: list_services_def)
  have nm: "names = filter (\<lambda>n. fst (lookup n s) \<noteq> None) (List.map_filter (has_extension ''entry'') ?fs)"
    using list_loop_names [OF u dn(1,2) l] by simp
  have mf: "n \<in> set (List.map_filter (has_extension ''entry'') fs) \<longleftrightarrow> n \<noteq> [] \<and> n @ ''.entry'' \<in> set fs" for n fs
  proof
    assume "n \<in> set (List.map_filter (has_extension ''entry'') fs)"
    then obtain g where "g \<in> set fs" "has_extension ''entry'' g = Some n" by (auto simp: List.map_filter_def)
    then show "n \<noteq> [] \<and> n @ ''.entry'' \<in> set fs" using has_extension_iff [of "''entry''" g n] by auto
  next
    assume a: "n \<noteq> [] \<and> n @ ''.entry'' \<in> set fs"
    then have "has_extension ''entry'' (n @ ''.entry'') = Some n" using has_extension_snoc [of "''entry''" n] by simp
    with a show "n \<in> set (List.map_filter (has_extension ''entry'') fs)" by (force simp: List.map_filter_def)
  qed
  have "distinct fs \<Longrightarrow> distinct (List.map_filter (has_extension ''entry'') fs)" for fs
  proof (induction fs)
    case (Cons f fs)
    then show ?case
    proof (cases "has_extension ''entry'' f")
      case (Some n)
      then have "f = n @ ''.entry''" using has_extension_iff by fastforce
      then have "n \<notin> set (List.map_filter (has_extension ''entry'') fs)" using Cons.prems mf by auto
      with Cons Some show ?thesis by (simp add: List.map_filter_def)
    qed (simp add: List.map_filter_def)
  qed (simp add: List.map_filter_def)
  then have "distinct names" using nm dn(1) by simp
  moreover have "set names = {n. n \<noteq> [] \<and> slash \<notin> set n \<and> fst (lookup n s) \<noteq> None}"
  proof (rule set_eqI)
    fix n
    have "n @ ''.entry'' \<in> set ?fs \<longleftrightarrow> slash \<notin> set n \<and> node s (split (registry_dir s) slash @ [n @ ''.entry'']) \<noteq> None"
      using dn(2) dn(3) [of "n @ ''.entry''"] by auto
    moreover have "fst (lookup n s) \<noteq> None \<Longrightarrow> slash \<notin> set n \<Longrightarrow> node s (split (registry_dir s) slash @ [n @ ''.entry'']) \<noteq> None"
      using lookup_view [OF u, of n] by (auto simp: dir_view_def split: option.splits)
    ultimately show "n \<in> set names \<longleftrightarrow> n \<in> {n. n \<noteq> [] \<and> slash \<notin> set n \<and> fst (lookup n s) \<noteq> None}"
      using nm mf by auto
  qed
  ultimately show ?thesis using ls by auto
qed

text \<open>The enumeration leaves live entries alone.\<close>

lemma lookup_live_stays:
  assumes "usable_dir (registry_dir s) s" "slash \<notin> set n" "slash \<notin> set m" "lookup n s = (r, s1)" "fst (lookup m s) \<noteq> None"
  shows "fst (lookup m s1) = fst (lookup m s)"
proof (cases "m = n")
  case True
  with assms(4,5) have "s1 = s" by (auto simp: lookup_def split: option.splits if_splits)
  then show ?thesis by simp
next
  case False
  note eff = lookup_effect [OF assms(1,2,4)]
  show ?thesis using lookup_same [OF assms(1) eff(1) assms(3) eff(2)] eff(3) False by auto
qed

lemma list_loop_live_stays:
  assumes "usable_dir (registry_dir s) s" "\<forall>f \<in> set fs. slash \<notin> set f" "slash \<notin> set m" "list_loop fs acc s = (names, s')" "fst (lookup m s) \<noteq> None"
  shows "fst (lookup m s') = fst (lookup m s)"
  using assms
proof (induction fs arbitrary: acc s)
  case (Cons f fs)
  show ?case
  proof (cases "has_extension ''entry'' f")
    case (Some n)
    have k: "slash \<notin> set n" using Cons.prems(2) has_extension_iff [OF Some] by simp
    obtain r s1 where l: "lookup n s = (r, s1)" by fastforce
    have same: "fst (lookup m s1) = fst (lookup m s)" by (rule lookup_live_stays [OF Cons.prems(1) k Cons.prems(3) l Cons.prems(5)])
    have "list_loop fs (acc @ (if r = None then [] else [n])) s1 = (names, s')" using Cons.prems(4) Some l by (cases r) auto
    from Cons.IH [OF lookup_effect(1) [OF Cons.prems(1) k l] _ Cons.prems(3) this] Cons.prems(2,5) same show ?thesis by simp
  qed (use Cons in auto)
qed simp

definition demo_entry :: Entry where
  "demo_entry = \<lparr>en_version = 1, en_service_name = ''notes'', en_address = ''/run/notes.sock'', en_identity_pubkey = replicate 32 7,
     en_pid = 42, en_endpoints = [''read:receive'', ''feed:topic''], en_description = ''a demo''\<rparr>"

lemma demo_registry: "registry_dir demo_os = ''/home/u/epx/registry''"
  "split ''/home/u/epx/registry'' slash = [''home'', ''u'', ''epx'', ''registry'']"
  by code_simp+

lemma demo_registry_ready: "ready (registry_dir demo_os) demo_os"
  unfolding demo_registry by (rule demo_ready(1) [OF demo_registry(2)]) (simp_all add: slash_def)

lemma demo_entry_ok: "entry_ok demo_entry" "slash \<notin> set (en_service_name demo_entry)"
    "pid_is_alive (en_pid demo_entry) demo_os"
  by (simp_all add: entry_ok_def demo_entry_def nl_def slash_def pid_is_alive_def demo_os_def pid_t_def)

text \<open>What is published is what \<open>describe\<close> reports, every endpoint with its kind.\<close>

lemma describe_published:
  assumes r: "ready (registry_dir s) s" and k: "slash \<notin> set (en_service_name e)" and ok: "entry_ok e"
    and a: "pid_is_alive (en_pid e) s" and ep: "en_endpoints e = map (\<lambda>(n, kd). n @ '':'' @ kind_to_string kd) eps"
  shows "fst (describe (en_service_name e) (snd (publish e s))) =
     Some \<lparr>sd_service_name = en_service_name e, sd_description = en_description e, sd_pid = en_pid e,
       sd_identity_pubkey = en_identity_pubkey e, sd_endpoints = map (\<lambda>(n, kd). \<lparr>de_name = n, de_kind = kd\<rparr>) eps\<rparr>"
proof -
  have "\<forall>s'. os_kill s' = os_kill s \<longrightarrow> pid_is_alive (en_pid e) s'" using a pid_is_alive_rest by blast
  with entries.get_same [of s "os_kill s" "en_service_name e" e] r k ok
  have l: "fst (lookup (en_service_name e) (snd (publish e s))) = Some e" by simp
  have kd: "kind_of_string (kind_to_string kd) = kd" "CHR '':'' \<notin> set (kind_to_string kd)" for kd
    by (cases kd; simp add: kind_of_string_def kind_to_string_def)+
  have "describe_endpoint (n @ '':'' @ kind_to_string kd) = \<lparr>de_name = n, de_kind = kd\<rparr>" for n kd
    using split_last_append [OF kd(2), of n kd] kd(1) [of kd] by (simp add: describe_endpoint_def)
  with l ep show ?thesis by (cases "lookup (en_service_name e) (snd (publish e s))") (auto simp: describe_def)
qed

section \<open>Properties\<close>

text \<open>C31: The registry is a faithful map. After any sequence of publications by live hosts, looking a service
  up returns the entry published last for it, every field unchanged, or what it returned before.\<close>

theorem registry_remembers:
  assumes "ready (registry_dir s) s" "slash \<notin> set svc"
    and "\<forall>e \<in> set es. slash \<notin> set (en_service_name e) \<and> entry_ok e \<and> pid_is_alive (en_pid e) s"
  shows "fst (lookup svc (fold (\<lambda>e s. snd (publish e s)) es s))
     = (case map_of (rev (map (\<lambda>e. (en_service_name e, e)) es)) svc of Some e \<Rightarrow> Some e | None \<Rightarrow> fst (lookup svc s))"
proof -
  have f: "fold (\<lambda>(k, v) s. snd (publish v s)) (map (\<lambda>e. (en_service_name e, e)) es) s = fold (\<lambda>e s. snd (publish e s)) es s" for s
    by (induction es arbitrary: s) auto
  have v: "\<forall>(k, v) \<in> set (map (\<lambda>e. (en_service_name e, e)) es). slash \<notin> set k
      \<and> entry_ok v \<and> en_service_name v = k \<and> (\<forall>s'. os_kill s' = os_kill s \<longrightarrow> pid_is_alive (en_pid v) s')"
  proof clarsimp
    fix e assume "e \<in> set es"
    with assms(3) have "slash \<notin> set (en_service_name e) \<and> entry_ok e \<and> pid_is_alive (en_pid e) s" by blast
    then show "slash \<notin> set (en_service_name e) \<and> entry_ok e \<and> (\<forall>s'. os_kill s' = os_kill s \<longrightarrow> pid_is_alive (en_pid e) s')"
      using pid_is_alive_rest by blast
  qed
  have "ready (registry_dir s) s \<and> os_kill s = os_kill s" using assms(1) by simp
  from entries.history [OF this v assms(2)] show ?thesis unfolding f .
qed

theorem registry_remembers_witness:
  "fst (lookup ''notes'' (fold (\<lambda>e s. snd (publish e s)) [demo_entry\<lparr>en_address := ''/old''\<rparr>, demo_entry] demo_os)) = Some demo_entry"
proof -
  have "\<forall>e \<in> set [demo_entry\<lparr>en_address := ''/old''\<rparr>, demo_entry]. slash \<notin> set (en_service_name e) \<and> entry_ok e \<and> pid_is_alive (en_pid e) demo_os"
    using demo_entry_ok by (auto simp: entry_ok_def nl_def)
  from registry_remembers [OF demo_registry_ready _ this, of "''notes''"] show ?thesis by (simp add: slash_def demo_entry_def)
qed

text \<open>Enumeration reports exactly the services that can be looked up, in order and once each, and an entry
  whose process is gone is removed by the lookup that finds it.\<close>

theorem live_services_listed:
  assumes u: "usable_dir (registry_dir s) s" and w: "paths_wf s"
  shows "sorted (fst (list_services s)) \<and> distinct (fst (list_services s))
    \<and> set (fst (list_services s)) = {n. n \<noteq> [] \<and> slash \<notin> set n \<and> fst (lookup n s) \<noteq> None}
    \<and> (\<forall>n c e. slash \<notin> set n \<and> dir_view (registry_dir s) s (n @ ''.entry'') = Some c
         \<and> entry_lines (getlines nl c) (Entry_init\<lparr>en_service_name := n\<rparr>) = Some e \<and> \<not> pid_is_alive (en_pid e) s \<longrightarrow>
         fst (lookup n s) = None \<and> dir_view (registry_dir s) (snd (lookup n s)) (n @ ''.entry'') = None)"
proof -
  have "fst (lookup n s) = None \<and> dir_view (registry_dir s) (snd (lookup n s)) (n @ ''.entry'') = None"
    if "slash \<notin> set n" "dir_view (registry_dir s) s (n @ ''.entry'') = Some c"
      "entry_lines (getlines nl c) (Entry_init\<lparr>en_service_name := n\<rparr>) = Some e" "\<not> pid_is_alive (en_pid e) s" for n c e
    using that lookup_view [OF u that(1)] unpublish_view(4) [OF u that(1)] by simp
  with listed_services [OF assms] show ?thesis by auto
qed

theorem live_services_listed_witness:
  "sorted (fst (list_services demo_os)) \<and> set (fst (list_services demo_os)) = {n. n \<noteq> [] \<and> slash \<notin> set n \<and> fst (lookup n demo_os) \<noteq> None}"
proof -
  have "paths_wf demo_os" by (simp add: paths_wf_def demo_os_def slash_def)
  from live_services_listed [OF _ this] demo_registry_ready show ?thesis by (simp add: ready_def)
qed

text \<open>A registry entry is created with the default mode, 0666 without the bits of the umask: under the usual
  umask others may read the file, and only the directory keeps them out.\<close>

theorem entry_has_default_mode:
  assumes r: "ready (registry_dir s) s" and k: "slash \<notin> set (en_service_name e)"
    and n: "node s (split (registry_dir s) slash @ [en_service_name e @ ''.entry.tmp'']) = None"
  shows "node (snd (publish e s)) (split (registry_dir s) slash @ [en_service_name e @ ''.entry'']) =
     Some (File (os_uid s) (0x1B6 AND NOT (os_umask s)) (entry_text e))"
proof -
  let ?d = "registry_dir s" and ?f = "en_service_name e @ ''.entry''" and ?m = "0x1B6 AND NOT (os_umask s)"
  let ?D = "split ?d slash" and ?t = "en_service_name e @ ''.entry.tmp''"
  from ensure_ready [OF r] obtain s1 where s1: "ensure_private_dir ?d s = (Ret (), s1)" "ready ?d s1"
    "is_dir s1 ?D" "os_rest s1 = os_rest s" "\<forall>q. \<not> prefix q ?D \<longrightarrow> node s1 q = node s q" by metis
  have u: "usable_dir ?d s1" "os_writes s1 = []" using s1(2) by (auto simp: ready_def)
  have d: "?d \<noteq> []" "hd ?d = slash" using u(1) by (auto simp: usable_dir_def)
  have sl: "slash \<notin> set ?t" "?t \<noteq> []" using k by (simp_all add: slash_def)
  have res: "resolve s1 (?d @ CHR ''/'' # ?t) = ?D @ [?t]" "resolve s1 (?d @ CHR ''/'' # ?f) = ?D @ [?f]"
    using resolve_in [OF d sl] resolve_in [OF d entry_file(1) [OF k] entry_file(2)] by blast+
  have wt: "writable (?D @ [?t]) s1" "writable (?D @ [?f]) s1" using usable_writable [OF u(1) s1(3)] by auto
  have n1: "node s1 (?D @ [?t]) = None" using s1(5) n by simp
  let ?s2 = "set_node (?D @ [?t]) (File (os_uid s) ?m (entry_text e)) (set_node (?D @ [?t]) (File (os_uid s) ?m []) s1)"
  have "entry_text e \<noteq> []" by (simp add: entry_text_def)
  then have o: "ofstream_write (?d @ CHR ''/'' # ?t) (entry_text e) s1 = ?s2"
    using n1 wt(1) u(2) os_rest_eq(1,2) [OF s1(4)]
    by (simp add: ofstream_write_def open_write_def Let_def res writable_def write_loop_all)
  have "node (snd (rename (?d @ CHR ''/'' # ?t) (?d @ CHR ''/'' # ?f) ?s2)) (?D @ [?f]) = Some (File (os_uid s) ?m (entry_text e))"
    using wt s1(3) by (auto simp: rename_def Let_def res writable_def is_dir_def)
  moreover have "snd (publish e s) = snd (rename (?d @ CHR ''/'' # ?t) (?d @ CHR ''/'' # ?f) ?s2)"
    using s1(1) o registry_dir_rest [OF s1(4)] by (simp add: publish_def entry_path_def Let_def case_prod_beta)
  ultimately show ?thesis by simp
qed

theorem entry_has_default_mode_witness:
  "node (snd (publish demo_entry demo_os)) [''home'', ''u'', ''epx'', ''registry'', ''notes.entry''] = Some (File 1000 0x1A4 (entry_text demo_entry))"
proof -
  have "node demo_os (split (registry_dir demo_os) slash @ [en_service_name demo_entry @ ''.entry.tmp'']) = None"
    by (simp add: demo_registry demo_os_def node_def)
  note m = entry_has_default_mode [OF demo_registry_ready demo_entry_ok(2) this]
  have "os_uid demo_os = 1000" "0x1B6 AND NOT (os_umask demo_os) = 0x1A4" "en_service_name demo_entry = ''notes''"
    by (simp_all add: demo_os_def demo_entry_def)
  with m show ?thesis by (simp add: demo_registry)
qed

end
