(* ===== verification/Epx_Limits.thy ===== *)
theory Epx_Limits
  imports Complex_Main Epx_Types "HOL-Library.AList"
begin

text \<open>
  Rate limiting (\<^verbatim>\<open>src/host.cpp\<close>: \<open>TokenBucket\<close>, \<open>admit_connection\<close>). The bucket's \<open>double\<close> fields are exact
  rational numbers here, so rounding is not modelled. The steady clock is an argument, in nanoseconds.
\<close>

record TokenBucket =
  tokens :: rat
  rate :: rat
  burst :: rat
  last_refill :: int

definition TokenBucket_init :: "int \<Rightarrow> TokenBucket" where
  "TokenBucket_init now = \<lparr>tokens = 0, rate = 0, burst = 0, last_refill = now\<rparr>"

definition seconds :: "int \<Rightarrow> rat" where
  "seconds ns = of_int ns / 1000000000"

definition refill :: "int \<Rightarrow> TokenBucket \<Rightarrow> TokenBucket" where
  "refill now b =
     (let elapsed = seconds (now - last_refill b)
      in b\<lparr>last_refill := now, tokens := min (burst b) (tokens b + elapsed * rate b)\<rparr>)"

definition try_take :: "int \<Rightarrow> TokenBucket \<Rightarrow> bool \<times> TokenBucket" where
  "try_take now b =
     (let b1 = refill now b
      in if tokens b1 \<ge> 1 then (True, b1\<lparr>tokens := tokens b1 - 1\<rparr>) else (False, b1))"

definition seconds_until_token :: "int \<Rightarrow> TokenBucket \<Rightarrow> rat \<times> TokenBucket" where
  "seconds_until_token now b =
     (let b1 = refill now b
      in if tokens b1 \<ge> 1 then (0, b1) else ((1 - tokens b1) / rate b1, b1))"

text \<open>\<open>uid_buckets[uid]\<close> creates a bucket on first use.\<close>

definition admit_connection :: "ConnectionLimits \<Rightarrow> int \<Rightarrow> int \<Rightarrow> (int \<times> TokenBucket) list \<Rightarrow> bool \<times> (int \<times> TokenBucket) list" where
  "admit_connection limits uid now uid_buckets =
     (if handshakes_per_uid_per_sec limits = 0 then (True, uid_buckets)
      else
        (let b = (case map_of uid_buckets uid of Some b \<Rightarrow> b | None \<Rightarrow> TokenBucket_init now);
             b1 = (if rate b = 0
                   then (let bu = of_nat (unat (if handshake_burst limits > 0 then handshake_burst limits else 1))
                         in b\<lparr>rate := of_nat (unat (handshakes_per_uid_per_sec limits)), burst := bu, tokens := bu\<rparr>)
                   else b);
             (ok, b2) = try_take now b1
         in (ok, AList.update uid b2 uid_buckets)))"

section \<open>The bucket\<close>

definition bucket_ok :: "TokenBucket \<Rightarrow> bool" where
  "bucket_ok b \<longleftrightarrow> 0 \<le> tokens b \<and> tokens b \<le> burst b \<and> 0 \<le> rate b"

lemma seconds_nonneg: "0 \<le> ns \<Longrightarrow> 0 \<le> seconds ns"
  by (simp add: seconds_def)

lemma seconds_add: "seconds (a + b) = seconds a + seconds b"
  by (simp add: seconds_def add_divide_distrib)

lemma refill_ok:
  assumes "bucket_ok b" "last_refill b \<le> now"
  shows "bucket_ok (refill now b)" "tokens (refill now b) \<le> tokens b + seconds (now - last_refill b) * rate b"
    "rate (refill now b) = rate b" "burst (refill now b) = burst b" "last_refill (refill now b) = now"
  using assms seconds_nonneg [of "now - last_refill b"]
  by (auto simp: refill_def bucket_ok_def Let_def)

lemma try_take_ok:
  assumes "bucket_ok b" "last_refill b \<le> now" and t: "try_take now b = (ok, b')"
  shows "bucket_ok b'" "rate b' = rate b" "burst b' = burst b" "last_refill b' = now"
    and "of_bool ok + tokens b' \<le> tokens b + seconds (now - last_refill b) * rate b"
  using refill_ok [OF assms(1,2)] t by (auto simp: try_take_def Let_def bucket_ok_def split: if_splits)

text \<open>Waiting for as long as \<open>seconds_until_token\<close> says makes a token available.\<close>

lemma waited_long_enough:
  assumes b: "bucket_ok b" "last_refill b \<le> now" and r: "0 < rate b" "1 \<le> burst b"
    and s: "seconds_until_token now b = (w, b1)" and l: "w \<le> seconds (later - now)" "now \<le> later"
  shows "fst (try_take later b1)"
proof -
  let ?r = "refill now b"
  note ro = refill_ok [OF b]
  have b1: "b1 = ?r" using s by (auto simp: seconds_until_token_def Let_def split: if_splits)
  show ?thesis
  proof (cases "tokens ?r \<ge> 1")
    case True
    have "0 \<le> seconds (later - now) * rate b" using l(2) r(1) seconds_nonneg by simp
    with True r show ?thesis by (simp add: try_take_def b1 refill_def [of later] ro Let_def)
  next
    case False
    then have "w = (1 - tokens ?r) / rate b" using s ro(3) by (auto simp: seconds_until_token_def Let_def)
    then have "1 - tokens ?r \<le> seconds (later - now) * rate b" using l(1) r(1) by (simp add: pos_divide_le_eq)
    with r show ?thesis by (simp add: try_take_def b1 refill_def [of later] ro Let_def)
  qed
qed

section \<open>Connection attempts\<close>

fun admit_run :: "ConnectionLimits \<Rightarrow> (int \<times> int) list \<Rightarrow> (int \<times> TokenBucket) list \<Rightarrow> bool list \<times> (int \<times> TokenBucket) list" where
  "admit_run limits [] bs = ([], bs)"
| "admit_run limits ((uid, now) # as) bs =
     (case admit_connection limits uid now bs of
        (ok, bs1) \<Rightarrow> (case admit_run limits as bs1 of (oks, bs2) \<Rightarrow> (ok # oks, bs2)))"

definition admitted :: "int \<Rightarrow> (int \<times> int) list \<Rightarrow> bool list \<Rightarrow> nat" where
  "admitted uid as oks = length (filter (\<lambda>((u, _), ok). u = uid \<and> ok) (zip as oks))"

text \<open>A user's budget: the tokens of its bucket, or a full bucket if it has none yet.\<close>

definition lim_burst :: "ConnectionLimits \<Rightarrow> rat" where
  "lim_burst limits = of_nat (unat (if handshake_burst limits > 0 then handshake_burst limits else 1))"

definition lim_rate :: "ConnectionLimits \<Rightarrow> rat" where
  "lim_rate limits = of_nat (unat (handshakes_per_uid_per_sec limits))"

definition buckets_ok :: "ConnectionLimits \<Rightarrow> int \<Rightarrow> (int \<times> TokenBucket) list \<Rightarrow> bool" where
  "buckets_ok limits now bs \<longleftrightarrow> (\<forall>uid b. map_of bs uid = Some b \<longrightarrow>
     bucket_ok b \<and> rate b = lim_rate limits \<and> burst b = lim_burst limits \<and> last_refill b \<le> now)"

definition budget :: "ConnectionLimits \<Rightarrow> int \<Rightarrow> int \<Rightarrow> (int \<times> TokenBucket) list \<Rightarrow> rat" where
  "budget limits uid now bs = (case map_of bs uid of
       None \<Rightarrow> lim_burst limits
     | Some b \<Rightarrow> min (lim_burst limits) (tokens b + seconds (now - last_refill b) * lim_rate limits))"

lemma lim_burst_pos: "1 \<le> lim_burst limits"
proof -
  have "0 < (if handshake_burst limits > 0 then handshake_burst limits else 1)" by simp
  then have "0 < unat (if handshake_burst limits > 0 then handshake_burst limits else 1)" by (simp only: unat_gt_0 word_gt_0)
  then have "1 \<le> unat (if handshake_burst limits > 0 then handshake_burst limits else 1)" by linarith
  then show ?thesis unfolding lim_burst_def by (metis of_nat_1 of_nat_le_iff)
qed

lemma lim_rate_pos: "handshakes_per_uid_per_sec limits \<noteq> 0 \<Longrightarrow> 0 < lim_rate limits"
  unfolding lim_rate_def by (simp only: of_nat_0_less_iff unat_gt_0 not_False_eq_True)

lemma lim_rate_nonneg [simp]: "0 \<le> lim_rate limits"
  unfolding lim_rate_def by (rule of_nat_0_le_iff)

lemma admit_connection_step:
  assumes on: "handshakes_per_uid_per_sec limits \<noteq> 0" and ok: "buckets_ok limits now bs"
    and a: "admit_connection limits uid now bs = (r, bs')"
  shows "buckets_ok limits now bs'"
    and "of_bool r + budget limits uid now bs' \<le> budget limits uid now bs"
    and "uid' \<noteq> uid \<Longrightarrow> budget limits uid' now' bs' = budget limits uid' now' bs"
    and "map_of bs' uid \<noteq> None"
proof -
  define b1 where "b1 = (case map_of bs uid of Some b \<Rightarrow> b
      | None \<Rightarrow> \<lparr>tokens = lim_burst limits, rate = lim_rate limits, burst = lim_burst limits, last_refill = now\<rparr>)"
  have b1: "bucket_ok b1" "rate b1 = lim_rate limits" "burst b1 = lim_burst limits" "last_refill b1 \<le> now"
    using ok lim_burst_pos [of limits] lim_rate_pos [OF on]
    by (cases "map_of bs uid"; fastforce simp: b1_def buckets_ok_def bucket_ok_def)+
  obtain r' b2 where t: "try_take now b1 = (r', b2)" by fastforce
  have "(r, bs') = (r', AList.update uid b2 bs)"
  proof (cases "map_of bs uid")
    case None
    then show ?thesis using a on t by (simp add: admit_connection_def b1_def TokenBucket_init_def Let_def lim_burst_def lim_rate_def)
  next
    case (Some b)
    then have "rate b \<noteq> 0" using ok lim_rate_pos [OF on] by (auto simp: buckets_ok_def)
    with Some show ?thesis using a on t by (simp add: admit_connection_def b1_def Let_def)
  qed
  then have r: "r' = r" and bs': "map_of bs' = (map_of bs)(uid \<mapsto> b2)" by (simp_all add: update_conv')
  note tk = try_take_ok [OF b1(1,4) t]
  show "buckets_ok limits now bs'" using ok tk b1 by (auto simp: buckets_ok_def bs')
  show "map_of bs' uid \<noteq> None" by (simp add: bs')
  show "uid' \<noteq> uid \<Longrightarrow> budget limits uid' now' bs' = budget limits uid' now' bs" by (simp add: budget_def bs')
  have "of_bool r' + tokens b2 \<le> min (burst b1) (tokens b1 + seconds (now - last_refill b1) * rate b1)"
    using t by (auto simp: try_take_def refill_def Let_def split: if_splits)
  moreover have "budget limits uid now bs' \<le> tokens b2" using tk by (simp add: budget_def bs' seconds_def)
  moreover have "min (burst b1) (tokens b1 + seconds (now - last_refill b1) * rate b1) = budget limits uid now bs"
    using b1(2,3) by (cases "map_of bs uid") (simp_all add: budget_def b1_def seconds_def)
  ultimately show "of_bool r + budget limits uid now bs' \<le> budget limits uid now bs" using r by simp
qed

lemma budget_later:
  assumes "now \<le> later"
  shows "budget limits uid later bs \<le> budget limits uid now bs + seconds (later - now) * lim_rate limits"
proof -
  have p: "0 \<le> seconds (later - now) * lim_rate limits" using assms seconds_nonneg by simp
  show ?thesis
  proof (cases "map_of bs uid")
    case None
    with p show ?thesis by (simp add: budget_def)
  next
    case (Some b)
    have "seconds (later - last_refill b) = seconds (now - last_refill b) + seconds (later - now)"
      using seconds_add [of "now - last_refill b" "later - now"] by simp
    then have "seconds (later - last_refill b) * lim_rate limits
        = seconds (now - last_refill b) * lim_rate limits + seconds (later - now) * lim_rate limits"
      by (simp add: distrib_right)
    with p Some show ?thesis unfolding budget_def by simp
  qed
qed

lemma budget_nonneg: "buckets_ok limits now bs \<Longrightarrow> 0 \<le> budget limits uid now bs"
  using lim_burst_pos [of limits] seconds_nonneg
  by (fastforce simp: budget_def buckets_ok_def bucket_ok_def split: option.splits)

lemma admit_run_bound:
  assumes on: "handshakes_per_uid_per_sec limits \<noteq> 0"
  shows "buckets_ok limits t0 bs \<Longrightarrow> sorted (map snd as) \<Longrightarrow> \<forall>(u, t) \<in> set as. t0 \<le> t \<and> t \<le> t1 \<Longrightarrow> t0 \<le> t1 \<Longrightarrow>
    admit_run limits as bs = (oks, bs') \<Longrightarrow>
    of_nat (admitted uid as oks) \<le> budget limits uid t0 bs + seconds (t1 - t0) * lim_rate limits"
proof (induction as arbitrary: t0 bs oks bs')
  case Nil
  then show ?case using budget_nonneg [of limits t0 bs uid] seconds_nonneg [of "t1 - t0"] by (simp add: admitted_def)
next
  case (Cons a as)
  obtain u t where [simp]: "a = (u, t)" by fastforce
  from Cons.prems(5) obtain r bs1 oks1 where r: "admit_connection limits u t bs = (r, bs1)"
    "admit_run limits as bs1 = (oks1, bs')" "oks = r # oks1" by (auto split: prod.splits)
  have t: "t0 \<le> t" "t \<le> t1" using Cons.prems(3) by auto
  have okt: "buckets_ok limits t bs" using Cons.prems(1) t(1) by (fastforce simp: buckets_ok_def)
  note st = admit_connection_step [OF on okt r(1)]
  have "of_nat (admitted uid as oks1) \<le> budget limits uid t bs1 + seconds (t1 - t) * lim_rate limits"
    by (rule Cons.IH [OF st(1) _ _ t(2) r(2)]) (use Cons.prems in \<open>auto simp: split_beta\<close>)
  moreover have "of_nat (admitted uid (a # as) oks) = (of_bool (u = uid \<and> r) + of_nat (admitted uid as oks1) :: rat)"
    by (simp add: admitted_def r(3))
  moreover have "of_bool (u = uid \<and> r) + budget limits uid t bs1 \<le> budget limits uid t bs"
    using st(2) st(3) [of uid t] by (cases "u = uid") auto
  moreover have "budget limits uid t bs \<le> budget limits uid t0 bs + seconds (t - t0) * lim_rate limits"
    by (rule budget_later [OF t(1)])
  moreover have "seconds (t1 - t0) = seconds (t1 - t) + seconds (t - t0)" using seconds_add [of "t1 - t" "t - t0"] by simp
  ultimately show ?case by (simp add: distrib_right)
qed

section \<open>Properties\<close>


definition demo_limits :: ConnectionLimits where
  "demo_limits = ConnectionLimits_init\<lparr>handshakes_per_uid_per_sec := 1, handshake_burst := 2\<rparr>"


end
