(* ===== verification/Epx_Listen.thy ===== *)
theory Epx_Listen
  imports Epx_Files Epx_Transport
begin

text \<open>
  Listening sockets and connecting to them (\<^verbatim>\<open>src/transport_posix.cpp\<close>: \<open>PosixListener\<close>,
  \<open>default_address_for_service\<close>, \<open>listen\<close>, \<open>connect\<close>). A bound socket is a node without data in the file
  system; \<open>net_bound\<close> says which descriptor listens on it. The results of \<open>socket\<close> and \<open>listen\<close> and the
  credentials of a peer are parameters; what the next \<open>accept\<close> calls return is part of the listener
  (\<open>None\<close>: the call fails, an empty list: it was woken by \<open>close\<close>). A descriptor refers to one open
  socket as long as it is open.
\<close>

record net =
  net_os :: os
  net_bound :: "(path \<times> int) list"
  net_next_fd :: int
  net_socket_ok :: "int \<Rightarrow> bool"
  net_listen_ok :: "int \<Rightarrow> bool"
  net_peer_uid :: "int \<Rightarrow> int option"

record PosixListener =
  pl_fd :: int
  pl_path :: string
  pl_queue :: "(int \<times> PosixTransport) option list"

definition get_peer_uid :: "int \<Rightarrow> net \<Rightarrow> int" where
  "get_peer_uid fd n = (case net_peer_uid n fd of Some uid \<Rightarrow> uid | None \<Rightarrow> -1)"

text \<open>\<open>socket(2)\<close>, \<open>close(2)\<close>, \<open>unlink(2)\<close>, \<open>bind(2)\<close> and \<open>connect(2)\<close>.\<close>

definition net_socket :: "net \<Rightarrow> int \<times> net" where
  "net_socket n = (if net_socket_ok n (net_next_fd n) then (net_next_fd n, n\<lparr>net_next_fd := net_next_fd n + 1\<rparr>) else (-1, n))"

definition net_close :: "int \<Rightarrow> net \<Rightarrow> net" where
  "net_close fd n = n\<lparr>net_bound := filter (\<lambda>(q, f). f \<noteq> fd) (net_bound n)\<rparr>"

definition net_unlink :: "string \<Rightarrow> net \<Rightarrow> net" where
  "net_unlink p n = (let q = resolve (net_os n) p in
     if is_file (net_os n) q \<and> \<not> os_deny (net_os n) q
     then n\<lparr>net_os := del_node q (net_os n), net_bound := AList.delete q (net_bound n)\<rparr> else n)"

definition net_bind :: "int \<Rightarrow> string \<Rightarrow> net \<Rightarrow> errno option \<times> net" where
  "net_bind fd p n = (let s = net_os n; q = resolve s p in
     if node s q \<noteq> None then (Some EADDRINUSE, n)
     else if os_deny s q then (Some EACCES, n)
     else if is_dir s (butlast q)
     then (None, n\<lparr>net_os := set_node q (File (os_uid s) (0x1FF AND NOT (os_umask s)) []) s, net_bound := AList.update q fd (net_bound n)\<rparr>)
     else (Some (if is_file s (butlast q) then ENOTDIR else ENOENT), n))"

definition net_connect :: "string \<Rightarrow> net \<Rightarrow> int option" where
  "net_connect p n = (let q = resolve (net_os n) p in
     if os_deny (net_os n) q \<or> \<not> is_file (net_os n) q then None else map_of (net_bound n) q)"

text \<open>\<open>sizeof(sockaddr_un::sun_path)\<close> on Linux.\<close>

definition sun_path_size :: nat where "sun_path_size = 108"

definition listener_accept :: "PosixListener \<Rightarrow> PosixTransport option \<times> PosixListener" where
  "listener_accept l = (case pl_queue l of
       [] \<Rightarrow> (None, l)
     | None # rest \<Rightarrow> (None, l\<lparr>pl_queue := rest\<rparr>)
     | Some (cfd, t) # rest \<Rightarrow> (Some (t\<lparr>pt_fd := cfd\<rparr>), l\<lparr>pl_queue := rest\<rparr>))"

text \<open>The connection \<open>close\<close> makes to its own address only wakes a blocked \<open>accept\<close>.\<close>

definition listener_close :: "PosixListener \<Rightarrow> net \<Rightarrow> PosixListener \<times> net" where
  "listener_close l n =
     (let (l1, n1) =
        (if pl_fd l \<ge> 0 then
           (let n0 = (if pl_path l \<noteq> []
                      then (case net_socket n of (nudge, n') \<Rightarrow> if nudge \<ge> 0 then net_close nudge n' else n')
                      else n)
            in (l\<lparr>pl_fd := -1\<rparr>, net_close (pl_fd l) n0))
         else (l, n))
      in if pl_path l1 \<noteq> [] then (l1\<lparr>pl_path := []\<rparr>, net_unlink (pl_path l1) n1) else (l1, n1))"

definition default_address_for_service :: "string \<Rightarrow> os \<Rightarrow> string" where
  "default_address_for_service service_name s = runtime_dir s @ ''/sockets/'' @ service_name @ ''.sock''"

definition listen_bind :: "string \<Rightarrow> net \<Rightarrow> PosixListener ex \<times> net" where
  "listen_bind address n =
     (case net_socket n of
        (fd, n1) \<Rightarrow>
          if fd < 0 then (Throw (RuntimeError ''socket() failed''), n1)
          else if length address \<ge> sun_path_size
          then (Throw (RuntimeError (''socket path too long: '' @ address)), net_close fd n1)
          else
            (let n2 = net_unlink address n1 in
             case net_bind fd address n2 of
               (Some e, n3) \<Rightarrow> (Throw (RuntimeError (''bind() failed for '' @ address @ '': '' @ strerror e)), net_close fd n3)
             | (None, n3) \<Rightarrow>
                 (let n4 = n3\<lparr>net_os := chmod address 0x180 (net_os n3)\<rparr> in
                  if \<not> net_listen_ok n4 fd then (Throw (RuntimeError ''listen() failed''), net_close fd n4)
                  else (Ret \<lparr>pl_fd = fd, pl_path = address, pl_queue = []\<rparr>, n4))))"

definition listen :: "string \<Rightarrow> net \<Rightarrow> PosixListener ex \<times> net" where
  "listen address n =
     (case split_last slash address of
        None \<Rightarrow> listen_bind address n
      | Some (dir, _) \<Rightarrow>
          (case ensure_private_dir dir (net_os n) of
             (Throw e, s1) \<Rightarrow> (Throw e, n\<lparr>net_os := s1\<rparr>)
           | (Ret _, s1) \<Rightarrow> listen_bind address (n\<lparr>net_os := s1\<rparr>)))"

definition connect :: "string \<Rightarrow> net \<Rightarrow> PosixTransport option \<times> net" where
  "connect address n =
     (case net_socket n of
        (fd, n1) \<Rightarrow>
          if fd < 0 then (None, n1)
          else if length address \<ge> sun_path_size then (None, net_close fd n1)
          else (case net_connect address n1 of
                  None \<Rightarrow> (None, net_close fd n1)
                | Some lfd \<Rightarrow> (Some (posix_transport fd (get_peer_uid fd n1)), n1)))"


section \<open>Listening at an address\<close>

text \<open>A state in which a service can listen at \<open>d/f\<close>, and a listener that is reachable there.\<close>

definition can_listen :: "string \<Rightarrow> string \<Rightarrow> net \<Rightarrow> bool" where
  "can_listen d f n \<longleftrightarrow> usable_dir d (net_os n) \<and> slash \<notin> set f \<and> f \<noteq> [] \<and> length (d @ ''/'' @ f) < sun_path_size
     \<and> 0 \<le> net_next_fd n \<and> (\<forall>fd. net_socket_ok n fd \<and> net_listen_ok n fd)"

definition listening :: "string \<Rightarrow> PosixListener \<Rightarrow> net \<Rightarrow> bool" where
  "listening address l n \<longleftrightarrow> pl_path l = address \<and> 0 \<le> pl_fd l \<and> pl_fd l < net_next_fd n \<and> net_connect address n = Some (pl_fd l)
     \<and> node (net_os n) (resolve (net_os n) address) = Some (File (os_uid (net_os n)) 0x180 [])"

lemma split_last_path: "slash \<notin> set f \<Longrightarrow> split_last slash (d @ CHR ''/'' # f) = Some (d, f)"
  using split_last_append [of slash f d] by (simp add: slash_def)

lemma listen_succeeds:
  assumes c: "can_listen d f n"
  obtains l n1 where "listen (d @ CHR ''/'' # f) n = (Ret l, n1)" "listening (d @ CHR ''/'' # f) l n1" "can_listen d f n1"
    "pl_fd l = net_next_fd n" "net_next_fd n1 = net_next_fd n + 1" "net_socket_ok n1 = net_socket_ok n" "os_rest (net_os n1) = os_rest (net_os n)"
proof -
  let ?a = "d @ CHR ''/'' # f" and ?D = "split d slash" and ?fd = "net_next_fd n"
  let ?q = "?D @ [f]"
  have f: "slash \<notin> set f" "f \<noteq> []" "length ?a < sun_path_size" and k: "\<And>fd. net_socket_ok n fd" "\<And>fd. net_listen_ok n fd" "0 \<le> ?fd"
    and u: "usable_dir d (net_os n)" using c by (auto simp: can_listen_def)
  have d: "d \<noteq> []" "hd d = slash" using u by (auto simp: usable_dir_def)
  from ensure_usable [OF u] obtain s1 where s1: "ensure_private_dir d (net_os n) = (Ret (), s1)" "usable_dir d s1" "is_dir s1 ?D"
    "os_rest s1 = os_rest (net_os n)" by metis
  have res: "resolve s ?a = ?q" for s by (rule resolve_in [OF d f(1,2)])
  have nd: "\<not> os_deny s1 ?q" "\<not> is_dir s1 ?q" using s1(2) by (auto simp: usable_dir_def)
  define s2 where "s2 = (if is_file s1 ?q then del_node ?q s1 else s1)"
  define b2 where "b2 = (if is_file s1 ?q then AList.delete ?q (net_bound n) else net_bound n)"
  have n2: "node s2 = (node s1)(?q := None)"
    using nd(2) by (auto simp: s2_def is_file_def is_dir_def fun_eq_iff split: option.splits node.splits)
  define s3 where "s3 = set_node ?q (File (os_uid s1) (0x1FF AND NOT (os_umask s1)) []) s2"
  define s4 where "s4 = chmod ?a 0x180 s3"
  define n4 where "n4 = n\<lparr>net_os := s4, net_next_fd := ?fd + 1, net_bound := AList.update ?q ?fd b2\<rparr>"
  have r2: "os_rest s2 = os_rest s1" by (simp add: s2_def)
  have uid: "os_uid s2 = os_uid s1" "os_deny s2 = os_deny s1" "os_umask s2 = os_umask s1" using os_rest_eq [OF r2] by auto
  have n4: "node s4 = (node s1)(?q \<mapsto> File (os_uid s1) 0x180 [])"
    by (rule ext) (simp add: s4_def s3_def chmod_node res n2 uid)
  have r4: "os_rest s4 = os_rest s1" by (simp add: s4_def s3_def chmod_node r2)
  have "listen ?a n = listen_bind ?a (n\<lparr>net_os := s1\<rparr>)" using s1(1) f(1) by (simp add: listen_def split_last_path)
  also have "\<dots> = (Ret \<lparr>pl_fd = ?fd, pl_path = ?a, pl_queue = []\<rparr>, n4)"
  proof -
    have "net_unlink ?a (n\<lparr>net_os := s1, net_next_fd := ?fd + 1\<rparr>) = n\<lparr>net_os := s2, net_next_fd := ?fd + 1, net_bound := b2\<rparr>"
      using nd(1) by (simp add: net_unlink_def Let_def res s2_def b2_def)
    moreover have "net_bind ?fd ?a (n\<lparr>net_os := s2, net_next_fd := ?fd + 1, net_bound := b2\<rparr>)
        = (None, n\<lparr>net_os := s3, net_next_fd := ?fd + 1, net_bound := AList.update ?q ?fd b2\<rparr>)"
      using nd s1(3) by (simp add: net_bind_def Let_def res n2 uid is_dir_def s3_def)
    ultimately show ?thesis using k f(3) by (simp add: listen_bind_def net_socket_def s4_def n4_def)
  qed
  finally have L: "listen ?a n = (Ret \<lparr>pl_fd = ?fd, pl_path = ?a, pl_queue = []\<rparr>, n4)" .
  have u4: "usable_dir d s4"
    by (rule usable_file_change [OF s1(2) r4, where F = "{f}"]) (use s1(2) n4 in \<open>auto simp: usable_dir_def is_dir_def\<close>)
  have deny4: "\<not> os_deny s4 ?q" using nd(1) os_rest_eq(5) [OF r4] by simp
  have "listening ?a \<lparr>pl_fd = ?fd, pl_path = ?a, pl_queue = []\<rparr> n4"
    using k(3) n4 deny4 os_rest_eq(1) [OF r4]
    by (simp add: listening_def n4_def net_connect_def Let_def res is_file_def update_conv')
  moreover have "can_listen d f n4" using u4 f k by (simp add: can_listen_def n4_def)
  moreover have "os_rest (net_os n4) = os_rest (net_os n)" using r4 s1(4) by (simp add: n4_def)
  ultimately show thesis using that [OF L] by (simp add: n4_def)
qed

lemma close_removes_socket:
  assumes l: "pl_path l = d @ CHR ''/'' # f" "0 \<le> pl_fd l" and c: "can_listen d f n"
  shows "net_connect (d @ CHR ''/'' # f) (snd (listener_close l n)) = None"
proof -
  let ?a = "d @ CHR ''/'' # f"
  have d: "d \<noteq> []" "hd d = slash" and f: "slash \<notin> set f" "f \<noteq> []" and k: "\<And>fd. net_socket_ok n fd" "0 \<le> net_next_fd n"
    and deny: "\<not> os_deny (net_os n) (split d slash @ [f])"
    using c by (auto simp: can_listen_def usable_dir_def)
  define n1 where "n1 = net_close (pl_fd l) (net_close (net_next_fd n) (n\<lparr>net_next_fd := net_next_fd n + 1\<rparr>))"
  have o: "net_os n1 = net_os n" by (simp add: n1_def net_close_def)
  have "snd (listener_close l n) = net_unlink ?a n1"
    using l k by (simp add: listener_close_def net_socket_def n1_def Let_def)
  then show ?thesis using deny o
    by (auto simp: net_unlink_def net_connect_def Let_def resolve_in [OF d f] is_file_def)
qed

text \<open>Listening at a service's address works and is private: the directory is created, the socket has mode
  0600 and clients reach this listener. It does not notice another running instance: a second
  \<open>listen\<close> at the same address succeeds and takes the address over, and when the first instance then
  closes its listener it removes the second one's socket, so that no client can connect any more.\<close>

theorem second_listener_takes_over:
  assumes "can_listen d f n"
  shows "\<exists>l1 n1 l2 n2. listen (d @ ''/'' @ f) n = (Ret l1, n1) \<and> listening (d @ ''/'' @ f) l1 n1
    \<and> (\<exists>t n'. connect (d @ ''/'' @ f) n1 = (Some t, n'))
    \<and> listen (d @ ''/'' @ f) n1 = (Ret l2, n2) \<and> listening (d @ ''/'' @ f) l2 n2 \<and> pl_fd l2 \<noteq> pl_fd l1
    \<and> fst (connect (d @ ''/'' @ f) (snd (listener_close l1 n2))) = None"
proof -
  let ?a = "d @ CHR ''/'' # f"
  obtain l1 n1 where 1: "listen ?a n = (Ret l1, n1)" "listening ?a l1 n1" "can_listen d f n1" "pl_fd l1 = net_next_fd n"
    "net_next_fd n1 = net_next_fd n + 1" using listen_succeeds [OF assms] by metis
  obtain l2 n2 where 2: "listen ?a n1 = (Ret l2, n2)" "listening ?a l2 n2" "can_listen d f n2" "pl_fd l2 = net_next_fd n1"
    using listen_succeeds [OF 1(3)] by metis
  have "net_connect ?a (n1\<lparr>net_next_fd := x\<rparr>) = net_connect ?a n1" for x by (simp add: net_connect_def Let_def)
  then have "\<exists>t n'. connect ?a n1 = (Some t, n')"
    using 1(2,3) by (simp add: connect_def net_socket_def can_listen_def listening_def)
  moreover have "fst (connect ?a (snd (listener_close l1 n2))) = None"
  proof -
    have "pl_path l1 = ?a" "0 \<le> pl_fd l1" using 1(2) by (auto simp: listening_def)
    from close_removes_socket [OF this 2(3)] show ?thesis
      by (auto simp: connect_def net_socket_def net_connect_def Let_def split: option.splits)
  qed
  ultimately show ?thesis using 1 2 by auto
qed

definition demo_net :: net where
  "demo_net = \<lparr>net_os = demo_os, net_bound = [], net_next_fd = 3, net_socket_ok = (\<lambda>_. True), net_listen_ok = (\<lambda>_. True),
     net_peer_uid = (\<lambda>_. Some 1000)\<rparr>"

lemma demo_address: "default_address_for_service ''notes'' demo_os = ''/home/u/epx/sockets'' @ ''/'' @ ''notes.sock''"
  "split ''/home/u/epx/sockets'' slash = [''home'', ''u'', ''epx'', ''sockets'']"
  by code_simp+

lemma demo_can_listen: "can_listen ''/home/u/epx/sockets'' ''notes.sock'' demo_net"
  using demo_ready [OF demo_address(2)] by (simp add: can_listen_def demo_net_def ready_def slash_def sun_path_size_def)

theorem second_listener_takes_over_witness:
  "\<exists>l1 n1 l2 n2. listen (default_address_for_service ''notes'' demo_os) demo_net = (Ret l1, n1)
    \<and> listen (default_address_for_service ''notes'' demo_os) n1 = (Ret l2, n2)
    \<and> fst (connect (default_address_for_service ''notes'' demo_os) (snd (listener_close l1 n2))) = None"
  using second_listener_takes_over [OF demo_can_listen] unfolding demo_address(1) by blast

end
