(* ===== verification/Epx_Access.thy ===== *)
theory Epx_Access
  imports Epx_Credentials Epx_Registry Epx_Limits Epx_Session Epx_Listen
begin

text \<open>
  The state of a host and its access decisions (\<^verbatim>\<open>src/host.cpp\<close>: \<open>EndpointEntry\<close>, \<open>Host::Impl\<close>,
  \<open>is_trusted\<close>, \<open>authorize\<close>, \<open>load_credentials_from_disk\<close> and the setters of \<open>Host\<close>). Application callbacks
  are function values of the model; one that throws returns \<open>Throw\<close>, and calling an empty
  \<open>std::function\<close> throws \<open>bad_function_call\<close>. What a streaming handler does with its writer is a tree of
  writes, each branching on what the write returned.
\<close>

section \<open>Endpoints and the state of a host\<close>

datatype writer_prog = WDone | WThrow exn | WWrite bytes "bool \<Rightarrow> writer_prog"

type_synonym Handler = "bytes \<Rightarrow> string \<Rightarrow> PeerInfo \<Rightarrow> AppResponse ex"
type_synonym StreamReceiveHandler = "bytes \<Rightarrow> bool \<Rightarrow> string \<Rightarrow> PeerInfo \<Rightarrow> unit ex"
type_synonym StreamSendHandler = "bytes \<Rightarrow> string \<Rightarrow> PeerInfo \<Rightarrow> writer_prog"
type_synonym AuthorizationPrompt = "PeerInfo \<Rightarrow> string \<Rightarrow> string \<Rightarrow> PromptDecision ex"

record EndpointEntry =
  ee_kind :: EndpointKind
  ee_unary :: "Handler option"
  ee_stream_recv :: "StreamReceiveHandler option"
  ee_stream_send :: "StreamSendHandler option"
  ee_access :: "AccessPolicy option"

definition EndpointEntry_init :: EndpointEntry where
  "EndpointEntry_init = \<lparr>ee_kind = KReceive, ee_unary = None, ee_stream_recv = None, ee_stream_send = None, ee_access = None\<rparr>"

text \<open>Topics and connections are shared objects: the host names topics by their numbers, and a
  connection's send state by the connection's number. A stop hook is the number of the application's
  function (\<open>None\<close>: an empty one).\<close>

record HostImpl =
  h_service_name :: string
  h_description :: string
  h_identity :: Identity
  h_policy :: TrustPolicy
  h_handlers :: "(string \<times> EndpointEntry) list"
  h_allowed_peers :: "PublicKey set"
  h_default_access :: AccessPolicy
  h_prompt :: "AuthorizationPrompt option"
  h_issuers :: "PublicKey set"
  h_creds :: "Credential list"
  h_limits :: ConnectionLimits
  h_uid_buckets :: "(int \<times> TokenBucket) list"
  h_topics :: "(string \<times> nat) list"
  h_listener :: "PosixListener option"
  h_live_conns :: "nat list"
  h_running :: bool
  h_stop_requested :: bool
  h_before_stop_hooks :: "nat option list"
  h_after_stop_hooks :: "nat option list"

definition HostImpl_init :: "string \<Rightarrow> Identity \<Rightarrow> TrustPolicy \<Rightarrow> HostImpl" where
  "HostImpl_init service_name ident pol = \<lparr>h_service_name = service_name, h_description = [], h_identity = ident, h_policy = pol,
     h_handlers = [], h_allowed_peers = {}, h_default_access = AccessPolicy_init, h_prompt = None, h_issuers = {},
     h_creds = [], h_limits = ConnectionLimits_init, h_uid_buckets = [], h_topics = [], h_listener = None,
     h_live_conns = [], h_running = False, h_stop_requested = False, h_before_stop_hooks = [], h_after_stop_hooks = []\<rparr>"

section \<open>Decisions\<close>

text \<open>The second component of the result is \<open>*pinned_now\<close> (false on entry).\<close>

definition is_trusted :: "HostImpl \<Rightarrow> PublicKey \<Rightarrow> os \<Rightarrow> (bool ex \<times> bool) \<times> os" where
  "is_trusted H client_pk s =
     (if client_pk \<in> h_allowed_peers H then ((Ret True, False), s)
      else case h_policy H of
        AllowAll \<Rightarrow> ((Ret True, False), s)
      | RequireKnownPeer \<Rightarrow> ((Ret False, False), s)
      | TrustOnFirstUse \<Rightarrow>
          if is_known_client (h_service_name H) client_pk s then ((Ret True, False), s)
          else (case remember_client (h_service_name H) client_pk s of
                  (Throw e, s1) \<Rightarrow> ((Throw e, False), s1)
                | (Ret _, s1) \<Rightarrow> ((Ret True, True), s1)))"

definition authorize_fresh :: "HostImpl \<Rightarrow> PeerInfo \<Rightarrow> string \<Rightarrow> AccessPolicy \<Rightarrow> u64 \<Rightarrow> os \<Rightarrow> bool ex \<times> os" where
  "authorize_fresh H peer endpoint pol now s =
     (case ap_tier pol of
        Open \<Rightarrow> (Ret True, s)
      | PinnedPeers \<Rightarrow>
          (Ret (if pi_public_key peer \<in> h_allowed_peers H then True
                else is_known_client (h_service_name H) (pi_public_key peer) s), s)
      | Certificate \<Rightarrow>
          (Ret (list_ex (\<lambda>c. cr_issuer c \<in> h_issuers H
                   \<and> covers c (pi_public_key peer) (h_service_name H) endpoint now) (h_creds H)), s)
      | PromptUser \<Rightarrow>
          (case load_authz_decision (h_service_name H) (pi_public_key peer) endpoint s of
             Some persisted \<Rightarrow> (Ret persisted, s)
           | None \<Rightarrow>
               (case h_prompt H of
                  None \<Rightarrow> (Ret False, s)
                | Some cb \<Rightarrow>
                    (case cb peer endpoint (ap_prompt_reason pol) of
                       Throw e \<Rightarrow> (Throw e, s)
                     | Ret d \<Rightarrow>
                         (let allowed = (d \<noteq> Deny) in
                          if d = AlwaysAllow \<or> d = Deny
                          then (case save_authz_decision (h_service_name H) (pi_public_key peer) endpoint allowed s of
                                  (Throw e, s1) \<Rightarrow> (Throw e, s1)
                                | (Ret _, s1) \<Rightarrow> (Ret allowed, s1))
                          else (Ret allowed, s))))))"

definition authorize ::
  "HostImpl \<Rightarrow> PeerInfo \<Rightarrow> string \<Rightarrow> AccessPolicy \<Rightarrow> u64 \<Rightarrow> (string \<times> bool) list \<Rightarrow> os \<Rightarrow> bool ex \<times> (string \<times> bool) list \<times> os" where
  "authorize H peer endpoint pol now conn_cache s =
     (case map_of conn_cache endpoint of
        Some cached \<Rightarrow> (Ret cached, conn_cache, s)
      | None \<Rightarrow>
          (case authorize_fresh H peer endpoint pol now s of
             (Throw e, s1) \<Rightarrow> (Throw e, conn_cache, s1)
           | (Ret allowed, s1) \<Rightarrow> (Ret allowed, AList.update endpoint allowed conn_cache, s1)))"

text \<open>A file that does not open reads as the empty text.\<close>

definition read_text :: "string \<Rightarrow> os \<Rightarrow> string" where
  "read_text p s = (case read_file p s of Some t \<Rightarrow> t | None \<Rightarrow> [])"

fun load_creds_loop :: "sodium \<Rightarrow> string \<Rightarrow> string list \<Rightarrow> Credential list \<Rightarrow> os \<Rightarrow> Credential list" where
  "load_creds_loop S dir [] creds s = creds"
| "load_creds_loop S dir (f # fs) creds s =
     (case has_extension ''cred'' f of
        None \<Rightarrow> load_creds_loop S dir fs creds s
      | Some _ \<Rightarrow>
          (case parse (read_text (dir @ ''/'' @ f) s) of
             None \<Rightarrow> load_creds_loop S dir fs creds s
           | Some c \<Rightarrow> load_creds_loop S dir fs (if signature_valid S c then creds @ [c] else creds) s))"

definition load_credentials_from_disk :: "sodium \<Rightarrow> HostImpl \<Rightarrow> os \<Rightarrow> HostImpl" where
  "load_credentials_from_disk S H s =
     (let dir = config_dir s @ ''/credentials/'' @ h_service_name H
      in H\<lparr>h_creds := load_creds_loop S dir (dir_names dir s) (h_creds H) s\<rparr>)"

definition set_default_access :: "AccessPolicy \<Rightarrow> HostImpl \<Rightarrow> HostImpl" where
  "set_default_access a H = H\<lparr>h_default_access := a\<rparr>"

definition set_limits :: "ConnectionLimits \<Rightarrow> HostImpl \<Rightarrow> HostImpl" where
  "set_limits l H = H\<lparr>h_limits := l\<rparr>"

definition set_description :: "string \<Rightarrow> HostImpl \<Rightarrow> HostImpl" where
  "set_description d H = H\<lparr>h_description := d\<rparr>"

definition on_authorization_prompt :: "AuthorizationPrompt option \<Rightarrow> HostImpl \<Rightarrow> HostImpl" where
  "on_authorization_prompt p H = H\<lparr>h_prompt := p\<rparr>"

definition add_issuer :: "PublicKey \<Rightarrow> HostImpl \<Rightarrow> HostImpl" where
  "add_issuer pk H = H\<lparr>h_issuers := insert pk (h_issuers H)\<rparr>"

definition add_credential :: "sodium \<Rightarrow> string \<Rightarrow> HostImpl \<Rightarrow> bool \<times> HostImpl" where
  "add_credential S credential_text H =
     (case parse credential_text of
        None \<Rightarrow> (False, H)
      | Some c \<Rightarrow> if \<not> signature_valid S c then (False, H) else (True, H\<lparr>h_creds := h_creds H @ [c]\<rparr>))"

definition allow_peer :: "PublicKey \<Rightarrow> HostImpl \<Rightarrow> HostImpl" where
  "allow_peer pk H = H\<lparr>h_allowed_peers := insert pk (h_allowed_peers H)\<rparr>"

definition public_key :: "HostImpl \<Rightarrow> PublicKey" where
  "public_key H = id_public_key (h_identity H)"


section \<open>What the decisions mean\<close>

text \<open>The access tiers as the documentation of \<open>AccessTier\<close> describes them.\<close>

definition permitted :: "HostImpl \<Rightarrow> PeerInfo \<Rightarrow> string \<Rightarrow> AccessPolicy \<Rightarrow> u64 \<Rightarrow> os \<Rightarrow> bool" where
  "permitted H peer ep pol now s \<longleftrightarrow>
     (case ap_tier pol of
        Open \<Rightarrow> True
      | PinnedPeers \<Rightarrow> pi_public_key peer \<in> h_allowed_peers H \<or> is_known_client (h_service_name H) (pi_public_key peer) s
      | Certificate \<Rightarrow> (\<exists>c \<in> set (h_creds H). cr_issuer c \<in> h_issuers H \<and> cr_peer c = pi_public_key peer
           \<and> (cr_expires c = 0 \<or> now \<le> cr_expires c)
           \<and> (cr_scope c = h_service_name H \<or> cr_scope c = h_service_name H @ ''/'' @ ep))
      | PromptUser \<Rightarrow> load_authz_decision (h_service_name H) (pi_public_key peer) ep s = Some True
           \<or> (load_authz_decision (h_service_name H) (pi_public_key peer) ep s = None
              \<and> (\<exists>cb d. h_prompt H = Some cb \<and> cb peer ep (ap_prompt_reason pol) = Ret d \<and> d \<noteq> Deny)))"

lemma covers_iff:
  "covers c p svc ep now \<longleftrightarrow> cr_peer c = p \<and> (cr_expires c = 0 \<or> now \<le> cr_expires c)
     \<and> (cr_scope c = svc \<or> cr_scope c = svc @ ''/'' @ ep)"
  by (auto simp: covers_def)

lemma authorize_fresh_permitted:
  "authorize_fresh H peer ep pol now s = (Ret b, s') \<Longrightarrow> b \<longleftrightarrow> permitted H peer ep pol now s"
proof (cases "ap_tier pol")
  case PromptUser
  assume "authorize_fresh H peer ep pol now s = (Ret b, s')"
  with PromptUser show ?thesis
    by (auto simp: authorize_fresh_def permitted_def Let_def split: option.splits ex.splits if_splits prod.splits)
next
  case Certificate
  assume "authorize_fresh H peer ep pol now s = (Ret b, s')"
  with Certificate have "b \<longleftrightarrow> (\<exists>c \<in> set (h_creds H). cr_issuer c \<in> h_issuers H \<and> covers c (pi_public_key peer) (h_service_name H) ep now)"
    by (auto simp: authorize_fresh_def list_ex_iff)
  then show ?thesis unfolding permitted_def Certificate covers_iff by simp
qed (auto simp: authorize_fresh_def permitted_def split: if_splits)

lemma authorize_cache:
  "authorize H peer ep pol now cache s = (Ret b, cache', s') \<Longrightarrow> map_of cache' = (map_of cache)(ep \<mapsto> b)"
  by (auto simp: authorize_def update_conv' fun_upd_idem_iff split: option.splits prod.splits ex.splits)

text \<open>Every installed credential carries a valid signature of its issuer.\<close>

definition creds_ok :: "sodium \<Rightarrow> HostImpl \<Rightarrow> bool" where
  "creds_ok S H \<longleftrightarrow> (\<forall>c \<in> set (h_creds H). signature_valid S c \<and> length (cr_peer c) = 32)"

lemma load_creds_loop_ok:
  "\<forall>c \<in> set creds. signature_valid S c \<and> length (cr_peer c) = 32 \<Longrightarrow>
   \<forall>c \<in> set (load_creds_loop S dir fs creds s). signature_valid S c \<and> length (cr_peer c) = 32"
proof (induction fs arbitrary: creds)
  case (Cons f fs)
  define creds1 where "creds1 = (case has_extension ''cred'' f of None \<Rightarrow> creds
      | Some _ \<Rightarrow> (case parse (read_text (dir @ ''/'' @ f) s) of None \<Rightarrow> creds
                   | Some c \<Rightarrow> if signature_valid S c then creds @ [c] else creds))"
  have eq: "load_creds_loop S dir (f # fs) creds s = load_creds_loop S dir fs creds1 s"
    unfolding creds1_def load_creds_loop.simps by (simp only: split: option.split) simp
  have "signature_valid S c \<and> length (cr_peer c) = 32" if "c \<in> set creds1" for c
  proof (cases "c \<in> set creds")
    case False
    with that have "parse (read_text (dir @ ''/'' @ f) s) = Some c" "signature_valid S c"
      by (simp_all add: creds1_def split: option.splits if_splits)
    with parse_sizes show ?thesis by blast
  qed (use Cons.prems in blast)
  then show ?case unfolding eq by (intro Cons.IH) blast
qed simp

lemma creds_ok_init: "creds_ok S (HostImpl_init svc ident pol)"
  by (simp add: creds_ok_def HostImpl_init_def)

lemma creds_ok_load: "creds_ok S H \<Longrightarrow> creds_ok S (load_credentials_from_disk S H s)"
proof -
  have "\<exists>dir fs. h_creds (load_credentials_from_disk S H s) = load_creds_loop S dir fs (h_creds H) s"
    by (auto simp: load_credentials_from_disk_def Let_def)
  then show "creds_ok S H \<Longrightarrow> creds_ok S (load_credentials_from_disk S H s)"
    unfolding creds_ok_def by (metis load_creds_loop_ok)
qed

lemma creds_ok_add: "creds_ok S H \<Longrightarrow> creds_ok S (snd (add_credential S text H))"
  by (auto simp: creds_ok_def add_credential_def dest: parse_sizes split: option.splits)

section \<open>Properties\<close>

text \<open>C15: A decision is what the endpoint's tier says of the peer at the time of its first call on the
  connection, and it stays what it was for the rest of the connection: a decision already taken is
  returned without looking at anything, and a new one is the tier's and is remembered.\<close>

theorem authorize_decides:
  assumes "authorize H peer ep pol now cache s = (Ret b, cache', s')"
  shows "(case map_of cache ep of Some b' \<Rightarrow> b = b' \<and> s' = s | None \<Rightarrow> b \<longleftrightarrow> permitted H peer ep pol now s)
    \<and> map_of cache' = (map_of cache)(ep \<mapsto> b)"
proof (cases "map_of cache ep")
  case None
  with assms obtain s1 where "authorize_fresh H peer ep pol now s = (Ret b, s1)" "cache' = AList.update ep b cache"
    by (auto simp: authorize_def split: prod.splits ex.splits)
  with None show ?thesis using authorize_fresh_permitted by (simp add: update_conv')
next
  case (Some b')
  with assms show ?thesis by (auto simp: authorize_def)
qed


text \<open>A credential's expiry is only looked at once per connection. After a call was allowed by a
  credential, later calls on the same connection are allowed at any time, after its expiry and even
  after the credential is gone.\<close>

theorem expiry_not_rechecked:
  assumes "ap_tier pol = Certificate" "authorize H peer ep pol now cache s = (Ret True, cache', s')"
  shows "fst (authorize (H\<lparr>h_creds := cs\<rparr>) peer ep pol later cache' s'') = Ret True"
proof -
  have "map_of cache' ep = Some True" using authorize_cache [OF assms(2)] by simp
  then show ?thesis by (simp add: authorize_def)
qed


text \<open>A host with one credential for the endpoint \<open>read\<close> that expires at 100, and one that prompts.\<close>

definition demo_peer :: PeerInfo where
  "demo_peer = \<lparr>pi_public_key = replicate 32 9, pi_service_name = [], pi_peer_uid = 1000, pi_key_was_pinned_now = False\<rparr>"

definition demo_host :: HostImpl where
  "demo_host = (HostImpl_init ''notes'' (toy_identity [2]) AllowAll)
     \<lparr>h_issuers := {pad 32 [7]}, h_creds := [Credential_init\<lparr>cr_peer := replicate 32 9, cr_scope := ''notes/read'', cr_expires := 100,
        cr_issuer := pad 32 [7]\<rparr>],
      h_prompt := Some (\<lambda>peer ep reason. Ret (if ep = ''once'' then AllowOnce else Deny))\<rparr>"

definition cert_policy :: AccessPolicy where "cert_policy = \<lparr>ap_tier = Certificate, ap_prompt_reason = []\<rparr>"
definition prompt_policy :: AccessPolicy where "prompt_policy = \<lparr>ap_tier = PromptUser, ap_prompt_reason = ''why''\<rparr>"

lemma demo_cert: "authorize demo_host demo_peer ''read'' cert_policy 99 [] demo_os = (Ret True, [(''read'', True)], demo_os)"
  by (simp add: authorize_def authorize_fresh_def demo_host_def demo_peer_def cert_policy_def HostImpl_init_def Credential_init_def covers_def)

theorem authorize_decides_witness:
  "True \<longleftrightarrow> permitted demo_host demo_peer ''read'' cert_policy 99 demo_os"
  using authorize_decides [OF demo_cert] by simp

theorem expiry_not_rechecked_witness:
  "fst (authorize (demo_host\<lparr>h_creds := []\<rparr>) demo_peer ''read'' cert_policy 1000 [(''read'', True)] demo_os) = Ret True"
  by (rule expiry_not_rechecked [OF _ demo_cert]) (simp add: cert_policy_def)


end
