(* ===== verification/Epx_Topic.thy ===== *)
theory Epx_Topic
  imports Epx_Session "HOL-Library.AList"
begin

text \<open>
  Topics (\<^verbatim>\<open>src/host.cpp\<close>: \<open>TopicHandle::Impl\<close> and \<open>TopicHandle\<close>). A subscriber refers to the send state of its
  connection, which it shares with that connection's thread and with other subscriptions: the model
  keeps the send states in a store and a subscriber holds the number of its connection. Every
  operation holds the topic's mutex for its whole duration.
\<close>

type_synonym conns = "(nat \<times> ConnState) list"

record Sub =
  sub_cs :: nat
  sub_request_id :: u64
  sub_seq :: u32

text \<open>A method call on the shared send state.\<close>

definition on_conn :: "nat \<Rightarrow> (ConnState \<Rightarrow> bool \<times> ConnState) \<Rightarrow> conns \<Rightarrow> bool \<times> conns" where
  "on_conn c f conns = (case map_of conns c of
       None \<Rightarrow> (False, conns)
     | Some cs \<Rightarrow> (case f cs of (ok, cs1) \<Rightarrow> (ok, AList.update c cs1 conns)))"

definition conn_alive_in :: "conns \<Rightarrow> nat \<Rightarrow> bool" where
  "conn_alive_in conns c = (case map_of conns c of None \<Rightarrow> False | Some cs \<Rightarrow> cs_alive cs)"

fun topic_publish :: "sodium \<Rightarrow> bytes \<Rightarrow> Sub list \<Rightarrow> conns \<Rightarrow> Sub list \<times> nat \<times> conns" where
  "topic_publish S message [] conns = ([], 0, conns)"
| "topic_publish S message (s # subs) conns =
     (case (if conn_alive_in conns (sub_cs s)
            then on_conn (sub_cs s) (\<lambda>cs. send_chunk S cs (sub_request_id s) (sub_seq s) False message) conns
            else (False, conns)) of
        (ok, conns1) \<Rightarrow>
          (case topic_publish S message subs conns1 of
             (subs1, delivered, conns2) \<Rightarrow>
               if ok then (s\<lparr>sub_seq := sub_seq s + 1\<rparr> # subs1, delivered + 1, conns2)
               else (subs1, delivered, conns2)))"

definition topic_count :: "Sub list \<Rightarrow> nat" where
  "topic_count subs = length subs"

definition topic_add :: "nat \<Rightarrow> u64 \<Rightarrow> Sub list \<Rightarrow> Sub list" where
  "topic_add c request_id subs = subs @ [\<lparr>sub_cs = c, sub_request_id = request_id, sub_seq = 0\<rparr>]"

fun topic_remove :: "nat \<Rightarrow> u64 \<Rightarrow> Sub list \<Rightarrow> Sub list" where
  "topic_remove c request_id [] = []"
| "topic_remove c request_id (s # subs) =
     (if sub_cs s = c \<and> sub_request_id s = request_id then subs else s # topic_remove c request_id subs)"

definition topic_remove_conn :: "nat \<Rightarrow> Sub list \<Rightarrow> Sub list" where
  "topic_remove_conn c subs = filter (\<lambda>s. sub_cs s \<noteq> c) subs"

fun topic_close_all :: "sodium \<Rightarrow> Sub list \<Rightarrow> conns \<Rightarrow> Sub list \<times> conns" where
  "topic_close_all S [] conns = ([], conns)"
| "topic_close_all S (s # subs) conns =
     topic_close_all S subs
       (snd (on_conn (sub_cs s) (\<lambda>cs. send_chunk S cs (sub_request_id s) (sub_seq s) True []) conns))"

fun topic_heartbeat :: "Sub list \<Rightarrow> conns \<Rightarrow> Sub list \<times> conns" where
  "topic_heartbeat [] conns = ([], conns)"
| "topic_heartbeat (s # subs) conns =
     (case on_conn (sub_cs s) send_ping conns of
        (ok, conns1) \<Rightarrow>
          (case topic_heartbeat subs conns1 of
             (subs1, conns2) \<Rightarrow> if ok then (s # subs1, conns2) else (subs1, conns2)))"

text \<open>The application's handle; a default-constructed one has no topic behind it. \<open>topics\<close> is the store of
  the topics' subscriber lists.\<close>

definition handle_publish :: "sodium \<Rightarrow> nat option \<Rightarrow> bytes \<Rightarrow> (nat \<times> Sub list) list \<Rightarrow> conns \<Rightarrow> nat \<times> (nat \<times> Sub list) list \<times> conns" where
  "handle_publish S impl message topics conns =
     (case impl of
        None \<Rightarrow> (0, topics, conns)
      | Some i \<Rightarrow>
          (case topic_publish S message (case map_of topics i of Some subs \<Rightarrow> subs | None \<Rightarrow> []) conns of
             (subs1, n, conns1) \<Rightarrow> (n, AList.update i subs1 topics, conns1)))"

definition handle_subscriber_count :: "nat option \<Rightarrow> (nat \<times> Sub list) list \<Rightarrow> nat" where
  "handle_subscriber_count impl topics =
     (case impl of None \<Rightarrow> 0 | Some i \<Rightarrow> topic_count (case map_of topics i of Some subs \<Rightarrow> subs | None \<Rightarrow> []))"

section \<open>Delivery\<close>

lemma dead_conn_stays_dead:
  assumes "on_conn c f conns = (ok, conns')" "\<And>cs. \<not> cs_alive cs \<Longrightarrow> f cs = (False, cs)" "\<not> conn_alive_in conns d"
  shows "\<not> conn_alive_in conns' d"
  using assms by (auto simp: on_conn_def conn_alive_in_def update_conv' split: option.splits prod.splits if_splits)

lemma failed_conn_is_dead:
  assumes "on_conn c f conns = (False, conns')" "\<And>cs cs'. f cs = (False, cs') \<Longrightarrow> \<not> cs_alive cs'"
  shows "\<not> conn_alive_in conns' c"
proof (cases "map_of conns c")
  case (Some cs)
  with assms(1) obtain cs' where "f cs = (False, cs')" "conns' = AList.update c cs' conns" by (auto simp: on_conn_def split: prod.splits)
  with assms(2) show ?thesis by (simp add: conn_alive_in_def update_conv')
qed (use assms(1) in \<open>simp add: on_conn_def conn_alive_in_def\<close>)

lemma send_chunk_dead: "\<not> cs_alive cs \<Longrightarrow> send_chunk S cs r q l d = (False, cs)"
  by (simp add: send_chunk_def send_sealed_def)

lemma send_chunk_failed: "send_chunk S cs r q l d = (False, cs') \<Longrightarrow> \<not> cs_alive cs'"
  unfolding send_chunk_def by (rule send_sealed_false)

lemma send_ping_dead: "\<not> cs_alive cs \<Longrightarrow> send_ping cs = (False, cs)"
  by (simp add: send_ping_def)

lemma send_ping_failed: "send_ping cs = (False, cs') \<Longrightarrow> \<not> cs_alive cs'"
  by (auto simp: send_ping_def split: if_splits prod.splits)

lemma topic_publish_dead:
  "topic_publish S m subs conns = (subs', n, conns') \<Longrightarrow> \<not> conn_alive_in conns d \<Longrightarrow> \<not> conn_alive_in conns' d"
proof (induction subs arbitrary: conns subs' n conns')
  case (Cons s subs)
  then show ?case using dead_conn_stays_dead [OF _ send_chunk_dead] by (fastforce split: prod.splits if_splits)
qed simp

lemma topic_publish_remaining:
  "topic_publish S m subs conns = (subs', n, conns') \<Longrightarrow>
   n = length subs' \<and> subseq subs' (map (\<lambda>s. s\<lparr>sub_seq := sub_seq s + 1\<rparr>) subs)
   \<and> (\<forall>s \<in> set subs. conn_alive_in conns' (sub_cs s) \<longrightarrow> s\<lparr>sub_seq := sub_seq s + 1\<rparr> \<in> set subs')"
proof (induction subs arbitrary: conns subs' n conns')
  case (Cons s subs)
  obtain ok conns1 where o: "(if conn_alive_in conns (sub_cs s)
      then on_conn (sub_cs s) (\<lambda>cs. send_chunk S cs (sub_request_id s) (sub_seq s) False m) conns else (False, conns)) = (ok, conns1)"
    by fastforce
  obtain subs1 d conns2 where r: "topic_publish S m subs conns1 = (subs1, d, conns2)" using prod_cases3 by blast
  have "\<not> conn_alive_in conns1 (sub_cs s)" if "\<not> ok"
  proof (cases "conn_alive_in conns (sub_cs s)")
    case True
    with o that show ?thesis by (auto dest: failed_conn_is_dead [OF _ send_chunk_failed])
  qed (use o that in simp)
  then have "\<not> conn_alive_in conns2 (sub_cs s)" if "\<not> ok" using topic_publish_dead [OF r] that by blast
  with Cons.IH [OF r] Cons.prems o r show ?case by (cases ok) auto
qed simp

text \<open>Connections on which every write succeeds.\<close>

definition all_healthy :: "conns \<Rightarrow> bool" where
  "all_healthy conns \<longleftrightarrow> (\<forall>c cs. map_of conns c = Some cs \<longrightarrow> cs_alive cs \<and> healthy (cs_t cs))"

lemma send_chunk_healthy:
  assumes "cs_alive cs" "healthy (cs_t cs)" "send_chunk S cs r q l d = (ok, cs')"
  shows "ok" "cs_alive cs'" "healthy (cs_t cs')"
  using assms by (auto simp: send_chunk_def send_sealed_def Let_def write_frame_healthy)

lemma topic_publish_healthy:
  "all_healthy conns \<Longrightarrow> \<forall>s \<in> set subs. map_of conns (sub_cs s) \<noteq> None \<Longrightarrow>
   topic_publish S m subs conns = (subs', n, conns') \<Longrightarrow>
   subs' = map (\<lambda>s. s\<lparr>sub_seq := sub_seq s + 1\<rparr>) subs \<and> all_healthy conns'
   \<and> map_of conns' c = map_option (\<lambda>cs. fold (\<lambda>s cs. snd (send_chunk S cs (sub_request_id s) (sub_seq s) False m))
        (filter (\<lambda>s. sub_cs s = c) subs) cs) (map_of conns c)"
proof (induction subs arbitrary: conns subs' n conns')
  case Nil
  then show ?case by (simp add: option.map_ident)
next
  case (Cons s subs)
  from Cons.prems(2) obtain cs where cs0: "map_of conns (sub_cs s) = Some cs" by auto
  with Cons.prems(1) have cs: "map_of conns (sub_cs s) = Some cs" "cs_alive cs" "healthy (cs_t cs)" unfolding all_healthy_def by blast+
  obtain ok cs1 where c1: "send_chunk S cs (sub_request_id s) (sub_seq s) False m = (ok, cs1)" by fastforce
  note h = send_chunk_healthy [OF cs(2,3) c1]
  let ?conns1 = "AList.update (sub_cs s) cs1 conns"
  have al: "conn_alive_in conns (sub_cs s)" using cs by (simp add: conn_alive_in_def)
  have on: "on_conn (sub_cs s) (\<lambda>cs. send_chunk S cs (sub_request_id s) (sub_seq s) False m) conns = (True, ?conns1)"
    using cs c1 h(1) by (simp add: on_conn_def)
  obtain subs1 d conns2 where r: "topic_publish S m subs ?conns1 = (subs1, d, conns2)" using prod_cases3 by blast
  have h1: "all_healthy ?conns1" using Cons.prems(1) h by (simp add: all_healthy_def update_conv')
  have h2: "\<forall>s \<in> set subs. map_of ?conns1 (sub_cs s) \<noteq> None" using Cons.prems(2) by (simp add: update_conv')
  note ih = Cons.IH [OF h1 h2 r]
  have p: "subs' = s\<lparr>sub_seq := sub_seq s + 1\<rparr> # subs1" "conns' = conns2" using Cons.prems(3) al on r by auto
  show ?case
  proof (intro conjI)
    show "map_of conns' c = map_option (\<lambda>cs. fold (\<lambda>s cs. snd (send_chunk S cs (sub_request_id s) (sub_seq s) False m))
        (filter (\<lambda>s. sub_cs s = c) (s # subs)) cs) (map_of conns c)"
      unfolding p(2) ih [THEN conjunct2, THEN conjunct2] using cs c1 by (cases "sub_cs s = c") (simp_all add: update_conv')
  qed (use ih p in simp_all)
qed

section \<open>Properties\<close>

text \<open>C19: \<open>publish\<close> returns the number of subscribers that remain. A subscriber is dropped only if its
  connection is dead; every other one stays, in order, with its sequence number advanced by one.
  When the connections are healthy, everyone stays and each connection sends exactly one chunk with
  the message for each of its subscriptions, numbered by that subscription.\<close>

theorem publish_reaches_subscribers:
  assumes "topic_publish S m subs conns = (subs', n, conns')"
  shows "n = length subs' \<and> subseq subs' (map (\<lambda>s. s\<lparr>sub_seq := sub_seq s + 1\<rparr>) subs)
    \<and> (\<forall>s \<in> set subs. conn_alive_in conns' (sub_cs s) \<longrightarrow> s\<lparr>sub_seq := sub_seq s + 1\<rparr> \<in> set subs')
    \<and> (all_healthy conns \<and> (\<forall>s \<in> set subs. map_of conns (sub_cs s) \<noteq> None) \<longrightarrow>
        subs' = map (\<lambda>s. s\<lparr>sub_seq := sub_seq s + 1\<rparr>) subs
        \<and> map_of conns' c = map_option (\<lambda>cs. fold (\<lambda>s cs. snd (send_chunk S cs (sub_request_id s) (sub_seq s) False m))
            (filter (\<lambda>s. sub_cs s = c) subs) cs) (map_of conns c))"
  using topic_publish_remaining [OF assms] topic_publish_healthy [OF _ _ assms, of c] by blast

definition demo_subs :: "Sub list" where
  "demo_subs = [\<lparr>sub_cs = 1, sub_request_id = 5, sub_seq = 0\<rparr>, \<lparr>sub_cs = 2, sub_request_id = 6, sub_seq = 3\<rparr>]"

definition demo_conns :: conns where
  "demo_conns = [(1, ConnState_init (posix_transport 4 0) (replicate 32 1) True), (2, ConnState_init (posix_transport 5 0) (replicate 32 2) False)]"

theorem publish_reaches_subscribers_witness:
  "fst (topic_publish toy_sodium [1, 2] demo_subs demo_conns) = [\<lparr>sub_cs = 1, sub_request_id = 5, sub_seq = 1\<rparr>, \<lparr>sub_cs = 2, sub_request_id = 6, sub_seq = 4\<rparr>]"
proof -
  obtain subs' n conns' where p: "topic_publish toy_sodium [1, 2] demo_subs demo_conns = (subs', n, conns')" using prod_cases3 by blast
  have "all_healthy demo_conns" "\<forall>s \<in> set demo_subs. map_of demo_conns (sub_cs s) \<noteq> None"
    by (auto simp: all_healthy_def demo_conns_def demo_subs_def ConnState_init_def split: if_splits)
  with publish_reaches_subscribers [OF p] p show ?thesis by (simp add: demo_subs_def)
qed

end
