(* ===== verification/Epx_Host.thy ===== *)
theory Epx_Host
  imports Epx_Access Epx_Topic
begin

text \<open>
  A connection as the host serves it (\<^verbatim>\<open>src/host.cpp\<close>: \<open>handle_connection\<close>, \<open>find_topic\<close>). The world of the host
  holds its state, the network and file system, the transports that were accepted and not yet served,
  the send states of the connections, the topics' subscriber lists, and a log of the calls into the
  application. What a connection thread keeps on its stack is a record of its own, so one turn of its
  loop is a function of that record and the world. Clocks, random bytes and the results of
  \<open>setsockopt\<close> are inputs. An exception that leaves \<open>handle_connection\<close> ends the process.
\<close>

section \<open>World and threads\<close>

datatype call = UnaryCall string bytes PeerInfo | ChunkCall string bytes bool PeerInfo
  | StreamCall string bytes PeerInfo | HookCall nat

record world =
  w_host :: HostImpl
  w_net :: net
  w_accepted :: "(nat \<times> PosixTransport) list"
  w_conns :: conns
  w_topics :: "(nat \<times> Sub list) list"
  w_next :: nat
  w_accept_thread :: bool
  w_heartbeat_thread :: bool
  w_calls :: "call list"

definition w_os :: "world \<Rightarrow> os" where "w_os w = net_os (w_net w)"

definition set_os :: "os \<Rightarrow> world \<Rightarrow> world" where
  "set_os s w = w\<lparr>w_net := (w_net w)\<lparr>net_os := s\<rparr>\<rparr>"

definition log_call :: "call \<Rightarrow> world \<Rightarrow> world" where
  "log_call x w = w\<lparr>w_calls := w_calls w @ [x]\<rparr>"

definition w_send :: "nat \<Rightarrow> (ConnState \<Rightarrow> bool \<times> ConnState) \<Rightarrow> world \<Rightarrow> world" where
  "w_send c f w = w\<lparr>w_conns := snd (on_conn c f (w_conns w))\<rparr>"

definition topic_subs :: "nat \<Rightarrow> (nat \<times> Sub list) list \<Rightarrow> Sub list" where
  "topic_subs i topics = (case map_of topics i of Some subs \<Rightarrow> subs | None \<Rightarrow> [])"

definition on_topic :: "nat \<Rightarrow> (Sub list \<Rightarrow> Sub list) \<Rightarrow> world \<Rightarrow> world" where
  "on_topic i f w = w\<lparr>w_topics := AList.update i (f (topic_subs i (w_topics w))) (w_topics w)\<rparr>"

text \<open>The locals of \<open>handle_connection\<close> that live across turns of its loop.\<close>

record conn_thread =
  ct_cs :: nat
  ct_rx :: RxState
  ct_peer :: PeerInfo
  ct_cache :: "(string \<times> bool) list"
  ct_subs :: "(nat \<times> u64) list"
  ct_bucket :: TokenBucket
  ct_delayed :: u32

record setup_in =
  si_admit_time :: int
  si_ephemeral :: bytes
  si_nonce :: bytes
  si_bucket_time :: int
  si_sockopts :: "int \<times> int \<times> int"

record turn_in =
  ti_ephemeral :: bytes
  ti_take_time :: int
  ti_wait_time :: int
  ti_woken_time :: int
  ti_unix_time :: u64

datatype turn = Again conn_thread | Leave conn_thread | Raise exn

section \<open>Before the loop\<close>

definition kReservedPrefix :: string where "kReservedPrefix = ''$epx/''"
definition kUnsubscribeEndpoint :: string where "kUnsubscribeEndpoint = ''$epx/unsubscribe''"
definition kHandshakeTimeoutMs :: int where "kHandshakeTimeoutMs = 5000"

definition request_bucket :: "ConnectionLimits \<Rightarrow> int \<Rightarrow> TokenBucket" where
  "request_bucket limits now =
     (let b = TokenBucket_init now
      in if max_requests_per_sec limits > 0
         then (let bu = of_nat (unat (if request_burst limits > 0 then request_burst limits else 1))
               in b\<lparr>rate := of_nat (unat (max_requests_per_sec limits)), burst := bu, tokens := bu\<rparr>)
         else b)"

definition trust_fn :: "HostImpl \<Rightarrow> bool \<times> os \<Rightarrow> PublicKey \<Rightarrow> bool ex \<times> bool \<times> os" where
  "trust_fn H st pk = (case is_trusted H pk (snd st) of ((r, pinned), s1) \<Rightarrow> (r, fst st \<or> pinned, s1))"

definition connection_setup ::
  "sodium \<Rightarrow> wire_globals \<Rightarrow> nat \<Rightarrow> PosixTransport \<Rightarrow> setup_in \<Rightarrow> world \<Rightarrow> conn_thread option ex \<times> world" where
  "connection_setup S g c t i w0 =
     (let w = w0\<lparr>w_accepted := AList.delete c (w_accepted w0)\<rparr>; H = w_host w;
          (rc1, rc2, rc3) = si_sockopts i
      in case admit_connection (h_limits H) (peer_uid t) (si_admit_time i) (h_uid_buckets H) of (adm, buckets) \<Rightarrow>
         (let H1 = H\<lparr>h_uid_buckets := buckets\<rparr>; w1 = w\<lparr>w_host := H1\<rparr>
         in if \<not> adm then (Ret None, w1)
            else (case server_handshake S g (snd (set_recv_timeout t kHandshakeTimeoutMs rc1)) (h_identity H1)
                        (h_service_name H1) (trust_fn H1) (False, w_os w1) (si_ephemeral i) (si_nonce i) of
              (Throw e, t1, _, s1) \<Rightarrow> (Throw e, set_os s1 w1)
            | (Ret None, t1, _, s1) \<Rightarrow> (Ret None, set_os s1 w1)
            | (Ret (Some hs), t1, pinned_now, s1) \<Rightarrow>
                (let t2 = snd (set_recv_timeout t1 0 rc2);
                    t3 = (if stream_write_timeout_ms (h_limits H1) > 0
                          then snd (set_send_timeout t2 (stream_write_timeout_ms (h_limits H1)) rc3) else t2);
                    v2 = (2 \<le> hs_version hs)
                in (Ret (Some \<lparr>ct_cs = c, ct_rx = rx_start (sk_rx (hs_keys hs)),
                        ct_peer = \<lparr>pi_public_key = hs_peer_identity hs, pi_service_name = [], pi_peer_uid = peer_uid t3,
                                   pi_key_was_pinned_now = pinned_now\<rparr>,
                        ct_cache = [], ct_subs = [], ct_bucket = request_bucket (h_limits H1) (si_bucket_time i),
                        ct_delayed = 0\<rparr>),
                    set_os s1 (w1\<lparr>w_conns := AList.update c (ConnState_init t3 (sk_tx (hs_keys hs)) v2) (w_conns w1)\<rparr>))))))"

text \<open>The transport of a connection that is refused is closed and no longer referred to by anything that
  would use it; \<open>Host::stop\<close> closing it once more has no effect.\<close>

section \<open>One turn of the loop\<close>

definition entry_access :: "HostImpl \<Rightarrow> EndpointEntry \<Rightarrow> AccessPolicy" where
  "entry_access H e = (case ee_access e of Some a \<Rightarrow> a | None \<Rightarrow> h_default_access H)"

definition handle_chunk :: "turn_in \<Rightarrow> bytes \<Rightarrow> conn_thread \<Rightarrow> world \<Rightarrow> turn \<times> world" where
  "handle_chunk i opened th w =
     (case accepted (decode_stream_chunk opened) of
        None \<Rightarrow> (Leave th, w)
      | Some chunk \<Rightarrow>
          (let H = w_host w; ep = chunk_endpoint chunk;
               (handler, access) = (case map_of (h_handlers H) ep of
                   Some e \<Rightarrow> if ee_kind e = KStreamReceive then (ee_stream_recv e, entry_access H e) else (None, h_default_access H)
                 | None \<Rightarrow> (None, h_default_access H))
           in case handler of
                None \<Rightarrow> (Again th, w)
              | Some h \<Rightarrow>
                  (case authorize H (ct_peer th) ep access (ti_unix_time i) (ct_cache th) (w_os w) of
                     (Throw e, _, s1) \<Rightarrow> (Raise e, set_os s1 w)
                   | (Ret allowed, cache1, s1) \<Rightarrow>
                       (let th1 = th\<lparr>ct_cache := cache1\<rparr>; w1 = set_os s1 w
                        in if \<not> allowed then (Again th1, w1)
                           else (let w2 = log_call (ChunkCall ep (chunk_data chunk) (chunk_is_last chunk) (ct_peer th)) w1
                                 in case h (chunk_data chunk) (chunk_is_last chunk) ep (ct_peer th) of
                                      Throw e \<Rightarrow> (Raise e, w2)
                                    | Ret _ \<Rightarrow> (Again th1, w2))))))"

text \<open>The result tells whether the request is served (possibly after a delay).\<close>

definition rate_limit :: "ConnectionLimits \<Rightarrow> turn_in \<Rightarrow> conn_thread \<Rightarrow> bool \<times> conn_thread" where
  "rate_limit limits i th =
     (if max_requests_per_sec limits > 0
      then (case try_take (ti_take_time i) (ct_bucket th) of
              (True, b) \<Rightarrow> (True, th\<lparr>ct_bucket := b, ct_delayed := 0\<rparr>)
            | (False, b) \<Rightarrow>
                (let d = ct_delayed th + 1
                 in if d > disconnect_after_delayed limits then (False, th\<lparr>ct_bucket := b, ct_delayed := d\<rparr>)
                    else (case seconds_until_token (ti_wait_time i) b of
                            (wait_s, b1) \<Rightarrow> (True, th\<lparr>ct_bucket := snd (try_take (ti_woken_time i) b1), ct_delayed := d\<rparr>))))
      else (True, th))"

definition rate_error :: "ConnectionLimits \<Rightarrow> ErrorPayload" where
  "rate_error limits = \<lparr>err_reason = kErrRateLimited,
     err_message = ''request rate limit exceeded ('' @ dec (unat (max_requests_per_sec limits)) @ ''/s)''\<rparr>"

definition reply :: "sodium \<Rightarrow> nat \<Rightarrow> RequestPayload \<Rightarrow> u8 \<Rightarrow> bytes \<Rightarrow> world \<Rightarrow> world" where
  "reply S c req status dat w =
     (if req_oneway req then w
      else w_send c (\<lambda>cs. send_sealed S cs Response (encode_response
             \<lparr>resp_request_id = req_request_id req, resp_status = status, resp_data = dat\<rparr>)) w)"

fun find_sub :: "u64 \<Rightarrow> (nat \<times> u64) list \<Rightarrow> nat option" where
  "find_sub sub_id [] = None"
| "find_sub sub_id ((i, r) # subs) = (if r = sub_id then Some i else find_sub sub_id subs)"

fun erase_sub :: "u64 \<Rightarrow> (nat \<times> u64) list \<Rightarrow> (nat \<times> u64) list" where
  "erase_sub sub_id [] = []"
| "erase_sub sub_id ((i, r) # subs) = (if r = sub_id then subs else (i, r) # erase_sub sub_id subs)"

definition handle_unsubscribe :: "RequestPayload \<Rightarrow> conn_thread \<Rightarrow> world \<Rightarrow> turn \<times> world" where
  "handle_unsubscribe req th w =
     (if length (req_data req) = 8
      then (case get_u64 (req_data req) 0 of
              Ok sub_id \<Rightarrow>
                (case find_sub sub_id (ct_subs th) of
                   None \<Rightarrow> (Again th, w)
                 | Some i \<Rightarrow> (Again (th\<lparr>ct_subs := erase_sub sub_id (ct_subs th)\<rparr>),
                              on_topic i (topic_remove (ct_cs th) sub_id) w))
            | _ \<Rightarrow> (Again th, w))
      else (Again th, w))"

definition find_topic :: "string \<Rightarrow> HostImpl \<Rightarrow> nat option" where
  "find_topic name H = map_of (h_topics H) name"

definition handle_subscribe :: "sodium \<Rightarrow> RequestPayload \<Rightarrow> conn_thread \<Rightarrow> world \<Rightarrow> turn \<times> world" where
  "handle_subscribe S req th w =
     (let H = w_host w; m = max_subscriptions (h_limits H)
      in if m > 0 \<and> length (ct_subs th) \<ge> unat m
         then (Again th, reply S (ct_cs th) req 1 (bytes_of_string ''subscription limit exceeded'') w)
         else (case find_topic (req_endpoint req) H of
                 None \<Rightarrow> (Again th, w)
               | Some i \<Rightarrow> (Again (th\<lparr>ct_subs := ct_subs th @ [(i, req_request_id req)]\<rparr>),
                            on_topic i (topic_add (ct_cs th) (req_request_id req)) w)))"

text \<open>The application's streaming handler writing through its \<open>StreamWriter\<close>.\<close>

primrec run_writer :: "sodium \<Rightarrow> nat \<Rightarrow> u64 \<Rightarrow> writer_prog \<Rightarrow> u32 \<Rightarrow> conns \<Rightarrow> exn option \<times> u32 \<times> conns" where
  "run_writer S c request_id WDone = (\<lambda>sq conns. (None, sq, conns))"
| "run_writer S c request_id (WThrow e) = (\<lambda>sq conns. (Some e, sq, conns))"
| "run_writer S c request_id (WWrite chunk k) = (\<lambda>sq conns.
     case on_conn c (\<lambda>cs. send_chunk S cs request_id sq False chunk) conns of
       (ok, conns1) \<Rightarrow> (\<lambda>b. run_writer S c request_id (k b)) ok (sq + 1) conns1)"

definition dispatch :: "sodium \<Rightarrow> EndpointEntry \<Rightarrow> RequestPayload \<Rightarrow> conn_thread \<Rightarrow> world \<Rightarrow> turn \<times> world" where
  "dispatch S entry req th w =
     (let c = ct_cs th; ep = req_endpoint req; peer = ct_peer th; rid = req_request_id req
      in case ee_kind entry of
           KStreamSend \<Rightarrow>
             (case ee_stream_send entry of
                None \<Rightarrow> (Raise BadFunctionCall, w)
              | Some h \<Rightarrow>
                  (let w1 = log_call (StreamCall ep (req_data req) peer) w
                   in case run_writer S c rid (h (req_data req) ep peer) 0 (w_conns w1) of
                        (Some e, sq, conns1) \<Rightarrow> (Raise e, w1\<lparr>w_conns := conns1\<rparr>)
                      | (None, sq, conns1) \<Rightarrow>
                          (Again th, w_send c (\<lambda>cs. send_chunk S cs rid sq True []) (w1\<lparr>w_conns := conns1\<rparr>))))
         | KStreamReceive \<Rightarrow> (Again th, reply S c req 1 (bytes_of_string ''wrong call shape'') w)
         | KTopic \<Rightarrow> (Again th, w)
         | _ \<Rightarrow>
             (case ee_unary entry of
                None \<Rightarrow> (Raise BadFunctionCall, w)
              | Some h \<Rightarrow>
                  (let w1 = log_call (UnaryCall ep (req_data req) peer) w
                   in case h (req_data req) ep peer of
                        Throw e \<Rightarrow> (Raise e, w1)
                      | Ret app_resp \<Rightarrow>
                          (Again th, if resp_ok app_resp then reply S c req 0 (resp_payload app_resp) w1
                                     else reply S c req 1 (bytes_of_string (resp_error app_resp)) w1))))"

definition handle_request :: "sodium \<Rightarrow> turn_in \<Rightarrow> bytes \<Rightarrow> conn_thread \<Rightarrow> world \<Rightarrow> turn \<times> world" where
  "handle_request S i opened th w =
     (case accepted (decode_request opened) of
        None \<Rightarrow> (Leave th, w)
      | Some req \<Rightarrow>
          (case rate_limit (h_limits (w_host w)) i th of
             (False, th1) \<Rightarrow>
               (Leave th1, w_send (ct_cs th) (\<lambda>cs. send_sealed S cs Error (encode_error (rate_error (h_limits (w_host w))))) w)
           | (True, th1) \<Rightarrow>
               if req_endpoint req = kUnsubscribeEndpoint then handle_unsubscribe req th1 w
               else
                 (case map_of (h_handlers (w_host w)) (req_endpoint req) of
                    None \<Rightarrow> (Again th1, reply S (ct_cs th) req 2 [] w)
                  | Some entry \<Rightarrow>
                      (case authorize (w_host w) (ct_peer th) (req_endpoint req) (entry_access (w_host w) entry)
                              (ti_unix_time i) (ct_cache th1) (w_os w) of
                         (Throw e, _, s1) \<Rightarrow> (Raise e, set_os s1 w)
                       | (Ret allowed, cache1, s1) \<Rightarrow>
                           (let th2 = th1\<lparr>ct_cache := cache1\<rparr>; w2 = set_os s1 w
                            in if \<not> allowed then (Again th2, reply S (ct_cs th) req 3 (bytes_of_string ''access denied'') w2)
                               else if ee_kind entry = KTopic then handle_subscribe S req th2 w2
                               else dispatch S entry req th2 w2)))))"

definition connection_turn :: "sodium \<Rightarrow> turn_in \<Rightarrow> conn_thread \<Rightarrow> world \<Rightarrow> turn \<times> world" where
  "connection_turn S i th w =
     (if \<not> h_running (w_host w) then (Leave th, w)
      else case map_of (w_conns w) (ct_cs th) of
        None \<Rightarrow> (Leave th, w)
      | Some cs \<Rightarrow>
          (case host_recv S cs (ct_rx th) (ti_ephemeral i) of
             (ev, cs1, rx1) \<Rightarrow>
               (let th1 = th\<lparr>ct_rx := rx1\<rparr>; w1 = w\<lparr>w_conns := AList.update (ct_cs th) cs1 (w_conns w)\<rparr>
                in case ev of
                     HAgain \<Rightarrow> (Again th1, w1)
                   | HStop \<Rightarrow> (Leave th1, w1)
                   | HThrow e \<Rightarrow> (Raise e, w1)
                   | HChunk opened \<Rightarrow> handle_chunk i opened th1 w1
                   | HRequest opened \<Rightarrow> handle_request S i opened th1 w1)))"

section \<open>The whole connection\<close>

definition close_conn :: "nat \<Rightarrow> world \<Rightarrow> world" where
  "close_conn c w = w_send c (\<lambda>cs. (True, cs\<lparr>cs_t := transport_close (cs_t cs)\<rparr>)) w"

definition connection_end :: "conn_thread \<Rightarrow> world \<Rightarrow> world" where
  "connection_end th w =
     (let c = ct_cs th;
          w1 = w_send c (\<lambda>cs. (True, cs\<lparr>cs_alive := False\<rparr>)) w;
          w2 = fold (\<lambda>(i, _). on_topic i (topic_remove_conn c)) (ct_subs th) w1
      in close_conn c w2)"

text \<open>The loop for as many turns as there are inputs; \<open>Some\<close> thread is one that is still in the loop.\<close>

fun connection_loop :: "sodium \<Rightarrow> turn_in list \<Rightarrow> conn_thread \<Rightarrow> world \<Rightarrow> conn_thread option ex \<times> world" where
  "connection_loop S [] th w = (Ret (Some th), w)"
| "connection_loop S (i # ins) th w =
     (case connection_turn S i th w of
        (Again th1, w1) \<Rightarrow> connection_loop S ins th1 w1
      | (Leave th1, w1) \<Rightarrow> (Ret None, connection_end th1 w1)
      | (Raise e, w1) \<Rightarrow> (Throw e, w1))"

definition handle_connection ::
  "sodium \<Rightarrow> wire_globals \<Rightarrow> nat \<Rightarrow> PosixTransport \<Rightarrow> setup_in \<Rightarrow> turn_in list \<Rightarrow> world \<Rightarrow> conn_thread option ex \<times> world" where
  "handle_connection S g c t i ins w =
     (case connection_setup S g c t i w of
        (Ret (Some th), w1) \<Rightarrow> connection_loop S ins th w1
      | r \<Rightarrow> r)"


section \<open>What the parts of a turn leave alone\<close>

lemma w_send_frame [simp]:
  "w_host (w_send c f w) = w_host w" "w_net (w_send c f w) = w_net w" "w_accepted (w_send c f w) = w_accepted w"
  "w_topics (w_send c f w) = w_topics w" "w_next (w_send c f w) = w_next w" "w_calls (w_send c f w) = w_calls w"
  by (simp_all add: w_send_def)

lemma reply_frame [simp]:
  "w_host (reply S c req st d w) = w_host w" "w_net (reply S c req st d w) = w_net w"
  "w_accepted (reply S c req st d w) = w_accepted w" "w_topics (reply S c req st d w) = w_topics w"
  "w_next (reply S c req st d w) = w_next w" "w_calls (reply S c req st d w) = w_calls w"
  by (simp_all add: reply_def)

lemma set_os_frame [simp]:
  "w_host (set_os s w) = w_host w" "w_accepted (set_os s w) = w_accepted w" "w_conns (set_os s w) = w_conns w"
  "w_topics (set_os s w) = w_topics w" "w_next (set_os s w) = w_next w" "w_calls (set_os s w) = w_calls w"
  by (simp_all add: set_os_def)

lemma log_call_frame [simp]:
  "w_host (log_call x w) = w_host w" "w_accepted (log_call x w) = w_accepted w" "w_conns (log_call x w) = w_conns w"
  "w_topics (log_call x w) = w_topics w" "w_next (log_call x w) = w_next w" "w_calls (log_call x w) = w_calls w @ [x]"
  by (simp_all add: log_call_def)

lemma on_topic_frame [simp]:
  "w_host (on_topic i f w) = w_host w" "w_accepted (on_topic i f w) = w_accepted w" "w_conns (on_topic i f w) = w_conns w"
  "w_next (on_topic i f w) = w_next w" "w_calls (on_topic i f w) = w_calls w"
  by (simp_all add: on_topic_def)

lemma rate_limit_frame:
  "rate_limit l i th = (ok, th') \<Longrightarrow>
   ct_cs th' = ct_cs th \<and> ct_peer th' = ct_peer th \<and> ct_cache th' = ct_cache th \<and> ct_subs th' = ct_subs th"
  by (auto simp: rate_limit_def Let_def split: if_splits prod.splits bool.splits)

section \<open>Calls into the application\<close>

fun call_of :: "string \<Rightarrow> EndpointKind \<Rightarrow> PeerInfo \<Rightarrow> call \<Rightarrow> bool" where
  "call_of ep k peer (UnaryCall e d p) \<longleftrightarrow> e = ep \<and> p = peer \<and> (k = KReceive \<or> k = KSend)"
| "call_of ep k peer (ChunkCall e d l p) \<longleftrightarrow> e = ep \<and> p = peer \<and> k = KStreamReceive"
| "call_of ep k peer (StreamCall e d p) \<longleftrightarrow> e = ep \<and> p = peer \<and> k = KStreamSend"
| "call_of ep k peer (HookCall n) \<longleftrightarrow> False"

text \<open>The calls of a turn: none, or one to an exposed endpoint that the peer may use.\<close>

definition granted :: "HostImpl \<Rightarrow> conn_thread \<Rightarrow> string \<Rightarrow> EndpointEntry \<Rightarrow> u64 \<Rightarrow> os \<Rightarrow> bool" where
  "granted H th ep entry now s \<longleftrightarrow>
     (case map_of (ct_cache th) ep of Some b \<Rightarrow> b | None \<Rightarrow> permitted H (ct_peer th) ep (entry_access H entry) now s)"

definition calls_ok :: "HostImpl \<Rightarrow> conn_thread \<Rightarrow> u64 \<Rightarrow> os \<Rightarrow> call list \<Rightarrow> bool" where
  "calls_ok H th now s xs \<longleftrightarrow> xs = [] \<or> (\<exists>x ep entry. xs = [x] \<and> map_of (h_handlers H) ep = Some entry
     \<and> call_of ep (ee_kind entry) (ct_peer th) x \<and> granted H th ep entry now s)"

lemma authorize_granted:
  "authorize H (ct_peer th) ep (entry_access H entry) now (ct_cache th) s = (Ret True, cache', s') \<Longrightarrow> granted H th ep entry now s"
  by (auto simp: authorize_def granted_def dest: authorize_fresh_permitted split: option.splits prod.splits ex.splits)

lemma dispatch_calls:
  assumes "dispatch S entry req th w = (r, w')"
  shows "w_calls w' = w_calls w \<or> (\<exists>x. w_calls w' = w_calls w @ [x] \<and> call_of (req_endpoint req) (ee_kind entry) (ct_peer th) x)"
  using assms
  by (auto simp: dispatch_def Let_def split: EndpointKind.splits option.splits prod.splits ex.splits if_splits)

lemma handle_chunk_calls:
  assumes "handle_chunk i opened th w = (r, w')"
  shows "\<exists>xs. w_calls w' = w_calls w @ xs \<and> calls_ok (w_host w) th (ti_unix_time i) (w_os w) xs"
proof -
  have "w_calls w' = w_calls w \<or> (\<exists>ep e d l cache' s'. w_calls w' = w_calls w @ [ChunkCall ep d l (ct_peer th)]
     \<and> map_of (h_handlers (w_host w)) ep = Some e \<and> ee_kind e = KStreamReceive
     \<and> authorize (w_host w) (ct_peer th) ep (entry_access (w_host w) e) (ti_unix_time i) (ct_cache th) (w_os w) = (Ret True, cache', s'))"
    using assms unfolding handle_chunk_def Let_def
    by (fastforce split: option.splits prod.splits ex.splits if_splits)
  then show ?thesis unfolding calls_ok_def using authorize_granted by fastforce
qed

lemma handle_subscribe_calls: "handle_subscribe S req th w = (r, w') \<Longrightarrow> w_calls w' = w_calls w"
  by (auto simp: handle_subscribe_def Let_def split: if_splits option.splits)

lemma handle_unsubscribe_calls: "handle_unsubscribe req th w = (r, w') \<Longrightarrow> w_calls w' = w_calls w"
  by (auto simp: handle_unsubscribe_def split: if_splits option.splits cres.splits)

lemma handle_request_calls:
  assumes "handle_request S i opened th w = (r, w')"
  shows "\<exists>xs. w_calls w' = w_calls w @ xs \<and> calls_ok (w_host w) th (ti_unix_time i) (w_os w) xs"
proof (cases "w_calls w' = w_calls w")
  case False
  with assms obtain req th1 entry cache1 s1 where
    t: "rate_limit (h_limits (w_host w)) i th = (True, th1)" "map_of (h_handlers (w_host w)) (req_endpoint req) = Some entry"
      "authorize (w_host w) (ct_peer th) (req_endpoint req) (entry_access (w_host w) entry) (ti_unix_time i) (ct_cache th1) (w_os w)
        = (Ret True, cache1, s1)" "dispatch S entry req (th1\<lparr>ct_cache := cache1\<rparr>) (set_os s1 w) = (r, w')"
    unfolding handle_request_def Let_def
    by (auto dest: handle_unsubscribe_calls handle_subscribe_calls split: option.splits prod.splits bool.splits ex.splits if_splits)
  note rl = rate_limit_frame [OF t(1)]
  obtain x where "w_calls w' = w_calls w @ [x]" "call_of (req_endpoint req) (ee_kind entry) (ct_peer th) x"
    using dispatch_calls [OF t(4)] False rl by auto
  moreover have "granted (w_host w) th (req_endpoint req) entry (ti_unix_time i) (w_os w)"
    using authorize_granted [of "w_host w" th] t(3) rl by auto
  ultimately show ?thesis using t(2) unfolding calls_ok_def by blast
qed (auto simp: calls_ok_def)

section \<open>Progress\<close>

text \<open>Bytes a connection has not read yet; sending does not change them.\<close>

definition inbound :: "nat \<Rightarrow> world \<Rightarrow> nat" where
  "inbound c w = (case map_of (w_conns w) c of Some cs \<Rightarrow> length (k_in (cs_t cs)) | None \<Rightarrow> 0)"

definition sends :: "(ConnState \<Rightarrow> bool \<times> ConnState) \<Rightarrow> bool" where
  "sends f \<longleftrightarrow> (\<forall>cs. k_in (cs_t (snd (f cs))) = k_in (cs_t cs))"

lemma sends_send_sealed: "sends (\<lambda>cs. send_sealed S cs ty p)"
  unfolding sends_def send_sealed_def by (auto simp: Let_def dest: write_frame_incoming split: prod.splits)

lemma sends_send_chunk: "sends (\<lambda>cs. send_chunk S cs r q l d)"
  unfolding send_chunk_def by (rule sends_send_sealed)

lemma on_conn_inbound:
  "sends f \<Longrightarrow> on_conn c f conns = (ok, conns') \<Longrightarrow> map_option (\<lambda>cs. k_in (cs_t cs)) (map_of conns' d) = map_option (\<lambda>cs. k_in (cs_t cs)) (map_of conns d)"
proof (cases "map_of conns c")
  case (Some cs)
  assume "sends f" and o: "on_conn c f conns = (ok, conns')"
  obtain ok' cs1 where f: "f cs = (ok', cs1)" by fastforce
  have "k_in (cs_t cs1) = k_in (cs_t cs)" using \<open>sends f\<close> f unfolding sends_def by (metis snd_conv)
  moreover have "conns' = AList.update c cs1 conns" using o Some f by (simp add: on_conn_def)
  ultimately show ?thesis using Some by (simp add: update_conv')
qed (simp add: on_conn_def)

lemma inbound_cong:
  "map_option (\<lambda>cs. k_in (cs_t cs)) (map_of (w_conns w') c) = map_option (\<lambda>cs. k_in (cs_t cs)) (map_of (w_conns w) c) \<Longrightarrow> inbound c w' = inbound c w"
  by (auto simp: inbound_def split: option.splits)

lemma w_send_inbound [simp]: "sends f \<Longrightarrow> inbound c (w_send d f w) = inbound c w"
  using on_conn_inbound [of f d "w_conns w"] by (intro inbound_cong) (simp add: w_send_def prod_eq_iff)

lemma inbound_frame [simp]:
  "inbound c (set_os s w) = inbound c w" "inbound c (log_call x w) = inbound c w" "inbound c (on_topic i f w) = inbound c w"
  "inbound c (reply S d req st b w) = inbound c w"
  by (simp_all add: inbound_def) (simp_all add: reply_def sends_send_sealed flip: inbound_def)

lemma run_writer_inbound:
  "run_writer S c r p sq conns = (e, sq', conns') \<Longrightarrow>
   map_option (\<lambda>cs. k_in (cs_t cs)) (map_of conns' d) = map_option (\<lambda>cs. k_in (cs_t cs)) (map_of conns d)"
proof (induction p arbitrary: sq conns)
  case (WWrite b k)
  obtain ok conns1 where o: "on_conn c (\<lambda>cs. send_chunk S cs r sq False b) conns = (ok, conns1)" by fastforce
  then have "run_writer S c r (k ok) (sq + 1) conns1 = (e, sq', conns')" using WWrite.prems by simp
  from WWrite.IH [OF _ this] show ?case using on_conn_inbound [OF sends_send_chunk o] by simp
qed simp_all

lemma write_frame_k_in: "k_in (snd (write_frame t f v)) = k_in t"
  using write_frame_incoming [of t f v] by (simp add: prod_eq_iff)

lemma host_recv_consumes:
  assumes "host_recv S cs rx e = (ev, cs', rx')" "ev \<noteq> HStop"
  shows "length (k_in (cs_t cs')) < length (k_in (cs_t cs))"
proof -
  obtain fr t1 where rd: "read_frame (cs_t cs) (cs_v2 cs) = (fr, t1)" by fastforce
  with assms obtain f where f: "fr = Ok f" by (cases fr) (auto simp: host_recv_def Let_def)
  have "length (k_in t1) < length (k_in (cs_t cs))"
    using read_frame_sound [OF rd [unfolded f]] by (auto simp: frame_bytes_def)
  moreover have "k_in (cs_t cs') = k_in t1"
    using assms rd f
    by (auto simp: host_recv_def Let_def send_rekey_ack_and_switch_def write_frame_k_in dest!: write_frame_incoming
        split: FrameType.splits if_splits option.splits prod.splits ex.splits)
  ultimately show ?thesis by simp
qed

lemma dispatch_inbound: "dispatch S entry req th w = (r, w') \<Longrightarrow> inbound c w' = inbound c w"
proof (cases "ee_kind entry = KStreamSend \<and> ee_stream_send entry \<noteq> None")
  case True
  assume d: "dispatch S entry req th w = (r, w')"
  from True obtain h where h: "ee_kind entry = KStreamSend" "ee_stream_send entry = Some h" by auto
  let ?w1 = "log_call (StreamCall (req_endpoint req) (req_data req) (ct_peer th)) w"
  obtain e sq conns1 where rw: "run_writer S (ct_cs th) (req_request_id req) (h (req_data req) (req_endpoint req) (ct_peer th)) 0 (w_conns ?w1)
      = (e, sq, conns1)" using prod_cases3 by blast
  have "inbound c (?w1\<lparr>w_conns := conns1\<rparr>) = inbound c ?w1"
    using run_writer_inbound [OF rw] by (intro inbound_cong) simp
  with d h rw show ?thesis by (cases e) (auto simp: dispatch_def Let_def sends_send_chunk)
next
  case False
  assume "dispatch S entry req th w = (r, w')"
  with False show ?thesis by (auto simp: dispatch_def Let_def split: EndpointKind.splits option.splits ex.splits if_splits)
qed

lemma handle_chunk_inbound: "handle_chunk i opened th w = (r, w') \<Longrightarrow> inbound c w' = inbound c w"
  by (auto simp: handle_chunk_def Let_def split: option.splits prod.splits ex.splits if_splits)

lemma handle_subscribe_inbound: "handle_subscribe S req th w = (r, w') \<Longrightarrow> inbound c w' = inbound c w"
  by (auto simp: handle_subscribe_def Let_def split: if_splits option.splits)

lemma handle_unsubscribe_inbound: "handle_unsubscribe req th w = (r, w') \<Longrightarrow> inbound c w' = inbound c w"
  by (auto simp: handle_unsubscribe_def split: if_splits option.splits cres.splits)

lemma handle_request_inbound: "handle_request S i opened th w = (r, w') \<Longrightarrow> inbound c w' = inbound c w"
  unfolding handle_request_def Let_def
  by (auto simp: sends_send_sealed dest!: handle_unsubscribe_inbound [of _ _ _ _ _ c] handle_subscribe_inbound [of _ _ _ _ _ _ c] dispatch_inbound [of _ _ _ _ _ _ _ c]
      split: option.splits prod.splits bool.splits ex.splits if_splits)

text \<open>No part of a turn replaces the connection of the thread.\<close>

lemma keeps_cs:
  "handle_chunk i opened th w = (r, w') \<Longrightarrow> r = Again th' \<or> r = Leave th' \<Longrightarrow> ct_cs th' = ct_cs th"
  "handle_subscribe S req th w = (r, w') \<Longrightarrow> r = Again th' \<or> r = Leave th' \<Longrightarrow> ct_cs th' = ct_cs th"
  "handle_unsubscribe req th w = (r, w') \<Longrightarrow> r = Again th' \<or> r = Leave th' \<Longrightarrow> ct_cs th' = ct_cs th"
  "dispatch S entry req th w = (r, w') \<Longrightarrow> r = Again th' \<or> r = Leave th' \<Longrightarrow> ct_cs th' = ct_cs th"
  by (auto simp: handle_chunk_def handle_subscribe_def handle_unsubscribe_def dispatch_def Let_def
      split: option.splits prod.splits ex.splits if_splits cres.splits EndpointKind.splits)

lemma handle_request_cs: "handle_request S i opened th w = (r, w') \<Longrightarrow> r = Again th' \<or> r = Leave th' \<Longrightarrow> ct_cs th' = ct_cs th"
  unfolding handle_request_def Let_def
  by (auto dest!: keeps_cs dest: rate_limit_frame split: option.splits prod.splits bool.splits ex.splits if_splits)

lemma connection_turn_cases:
  assumes "connection_turn S i th w = (r, w')"
  obtains "r = Leave th" "w' = w"
  | cs ev cs1 rx1 where "map_of (w_conns w) (ct_cs th) = Some cs" "host_recv S cs (ct_rx th) (ti_ephemeral i) = (ev, cs1, rx1)"
      "(case ev of HAgain \<Rightarrow> (Again (th\<lparr>ct_rx := rx1\<rparr>), w\<lparr>w_conns := AList.update (ct_cs th) cs1 (w_conns w)\<rparr>)
         | HStop \<Rightarrow> (Leave (th\<lparr>ct_rx := rx1\<rparr>), w\<lparr>w_conns := AList.update (ct_cs th) cs1 (w_conns w)\<rparr>)
         | HThrow e \<Rightarrow> (Raise e, w\<lparr>w_conns := AList.update (ct_cs th) cs1 (w_conns w)\<rparr>)
         | HChunk p \<Rightarrow> handle_chunk i p (th\<lparr>ct_rx := rx1\<rparr>) (w\<lparr>w_conns := AList.update (ct_cs th) cs1 (w_conns w)\<rparr>)
         | HRequest p \<Rightarrow> handle_request S i p (th\<lparr>ct_rx := rx1\<rparr>) (w\<lparr>w_conns := AList.update (ct_cs th) cs1 (w_conns w)\<rparr>)) = (r, w')"
  using assms unfolding connection_turn_def Let_def by (auto split: if_splits option.splits prod.splits)

lemma connection_turn_cs:
  assumes "connection_turn S i th w = (r, w')" "r = Again th' \<or> r = Leave th'"
  shows "ct_cs th' = ct_cs th"
  using assms(1)
proof (cases rule: connection_turn_cases)
  case (2 cs ev cs1 rx1)
  with assms(2) show ?thesis
    using keeps_cs(1) [of i _ "th\<lparr>ct_rx := rx1\<rparr>" _ r w' th'] handle_request_cs [of S i _ "th\<lparr>ct_rx := rx1\<rparr>" _ r w' th']
    by (cases ev) auto
qed (use assms(2) in auto)

lemma connection_turn_inbound:
  assumes "connection_turn S i th w = (Again th', w')"
  shows "inbound (ct_cs th) w' < inbound (ct_cs th) w"
  using assms
proof (cases rule: connection_turn_cases)
  case (2 cs ev cs1 rx1)
  let ?w1 = "w\<lparr>w_conns := AList.update (ct_cs th) cs1 (w_conns w)\<rparr>"
  have "inbound (ct_cs th) ?w1 < inbound (ct_cs th) w"
    using host_recv_consumes [OF 2(2)] 2(1,3) by (cases ev) (auto simp: inbound_def update_conv')
  with 2(3) show ?thesis
    using handle_chunk_inbound [of i _ "th\<lparr>ct_rx := rx1\<rparr>" ?w1 _ w' "ct_cs th"] handle_request_inbound [of S i _ "th\<lparr>ct_rx := rx1\<rparr>" ?w1 _ w' "ct_cs th"]
    by (cases ev) auto
qed simp

definition closed_conn :: "nat \<Rightarrow> world \<Rightarrow> bool" where
  "closed_conn c w \<longleftrightarrow> (case map_of (w_conns w) c of None \<Rightarrow> True | Some cs \<Rightarrow> \<not> cs_alive cs \<and> pt_fd (cs_t cs) < 0)"

lemma w_send_conn: "map_of (w_conns (w_send c f w)) = (\<lambda>d. if d = c then map_option (\<lambda>cs. snd (f cs)) (map_of (w_conns w) c) else map_of (w_conns w) d)"
  by (auto simp: w_send_def on_conn_def update_conv' fun_eq_iff split: option.splits prod.splits)

lemma fold_on_topic_frame [simp]:
  "w_host (fold (\<lambda>(i, _). on_topic i f) xs w) = w_host w" "w_conns (fold (\<lambda>(i, _). on_topic i f) xs w) = w_conns w"
  "w_accepted (fold (\<lambda>(i, _). on_topic i f) xs w) = w_accepted w" "w_next (fold (\<lambda>(i, _). on_topic i f) xs w) = w_next w"
  by (induction xs arbitrary: w) (auto split: prod.splits)

lemma connection_end_closed: "closed_conn (ct_cs th) (connection_end th w)"
  by (simp add: closed_conn_def connection_end_def close_conn_def Let_def w_send_conn transport_close_def split: option.splits)

section \<open>Properties\<close>

text \<open>C9: A handler of the application runs only on behalf of a peer that may use it. One turn of a
  connection's loop makes at most one call; it goes to an endpoint that is exposed at that moment,
  of the kind the call has, with the connection's authenticated peer, and the endpoint's access tier
  permits that peer (or did when the connection first used the endpoint).\<close>

theorem handlers_called_only_if_authorized:
  assumes "connection_turn S i th w = (r, w')"
  shows "\<exists>xs. w_calls w' = w_calls w @ xs \<and> calls_ok (w_host w) th (ti_unix_time i) (w_os w) xs"
  using assms
proof (cases rule: connection_turn_cases)
  case (2 cs ev cs1 rx1)
  have nil: "calls_ok H t n s []" for H t n s by (simp add: calls_ok_def)
  have cong: "calls_ok H (t\<lparr>ct_rx := x\<rparr>) n s xs = calls_ok H t n s xs" for H t x n s xs
    by (simp add: calls_ok_def granted_def cong: option.case_cong)
  show ?thesis
  proof (cases ev)
    case (HChunk p)
    from handle_chunk_calls [of i p "th\<lparr>ct_rx := rx1\<rparr>"] 2(3) HChunk cong show ?thesis by (fastforce simp: w_os_def)
  next
    case (HRequest p)
    from handle_request_calls [of S i p "th\<lparr>ct_rx := rx1\<rparr>"] 2(3) HRequest cong show ?thesis by (fastforce simp: w_os_def)
  qed (use 2(3) nil in auto)
qed (auto simp: calls_ok_def)

text \<open>C16: A connection ends. Once the peer sends no more, its thread needs at most one turn more than
  there are unread bytes to leave the loop, whatever the bytes are and whatever the application's
  handlers return; the connection is then marked dead and its transport is closed. (The only other
  way out of the loop is an exception of a handler or of the cryptographic library.)\<close>

theorem connection_terminates:
  assumes "inbound (ct_cs th) w < length ins" "connection_loop S ins th w = (r, w')"
  shows "(\<exists>e. r = Throw e) \<or> (r = Ret None \<and> closed_conn (ct_cs th) w')"
  using assms
proof (induction ins arbitrary: th w)
  case (Cons i ins)
  obtain tr w1 where t: "connection_turn S i th w = (tr, w1)" by fastforce
  show ?case
  proof (cases tr)
    case (Again th1)
    note cs = connection_turn_cs [OF t, of th1]
    have "inbound (ct_cs th1) w1 < length ins"
      using connection_turn_inbound [OF t [unfolded Again]] cs Again Cons.prems(1) by simp
    moreover have "connection_loop S ins th1 w1 = (r, w')" using Cons.prems(2) t Again by simp
    ultimately show ?thesis using Cons.IH [of th1 w1] cs Again by simp
  next
    case (Leave th1)
    then show ?thesis using Cons.prems(2) t connection_turn_cs [OF t, of th1] connection_end_closed [of th1 w1] by auto
  qed (use Cons.prems t in auto)
qed simp

section \<open>A served request\<close>

text \<open>A running host with one endpoint, open to everyone, and a connection on which one request waits.\<close>

lemma host_recv_request:
  assumes "usable_key S key" "healthy (cs_t cs)" "\<not> cs_v2 cs" "length (seal S key 0 2 p) \<le> 16000000"
    and "k_in (cs_t cs) = frame_bytes False \<lparr>rf_type = Request, rf_counter = 0, rf_epoch = 0, rf_body = seal S key 0 2 p\<rparr>"
  shows "host_recv S cs (rx_start key) rnd = (HRequest p, cs\<lparr>cs_t := (cs_t cs)\<lparr>k_in := []\<rparr>\<rparr>, (rx_start key)\<lparr>rx_counter := 1\<rparr>)"
proof -
  let ?f = "\<lparr>rf_type = Request, rf_counter = 0, rf_epoch = 0, rf_body = seal S key 0 2 p\<rparr>"
  have "read_frame (cs_t cs) False = (Ok ?f, (cs_t cs)\<lparr>k_in := []\<rparr>)"
    using assms(2,4,5) by (intro read_frame_healthy) (auto simp: frame_wf_def frame_type_wf_def)
  moreover have "open_v1 S key 0 2 (seal S key 0 2 p) = Some p" using assms(1) by (rule open_seal_v1)
  ultimately show ?thesis using assms(3) by (simp add: host_recv_def open_checked_def rx_start_def)
qed

definition echo_entry :: EndpointEntry where
  "echo_entry = EndpointEntry_init\<lparr>ee_unary := Some (\<lambda>d ep peer. Ret \<lparr>resp_ok = True, resp_payload = d, resp_error = []\<rparr>),
     ee_access := Some AccessPolicy_init\<rparr>"

definition demo_request :: RequestPayload where
  "demo_request = \<lparr>req_request_id = 1, req_oneway = False, req_endpoint = ''echo'', req_data = [5, 6]\<rparr>"

definition demo_in :: bytes where
  "demo_in = frame_bytes False \<lparr>rf_type = Request, rf_counter = 0, rf_epoch = 0,
     rf_body = seal toy_sodium (replicate 32 3) 0 2 (encode_request demo_request)\<rparr>"

definition demo_thread :: conn_thread where
  "demo_thread = \<lparr>ct_cs = 1, ct_rx = rx_start (replicate 32 3), ct_peer = demo_peer, ct_cache = [], ct_subs = [],
     ct_bucket = TokenBucket_init 0, ct_delayed = 0\<rparr>"

definition demo_turn :: turn_in where
  "demo_turn = \<lparr>ti_ephemeral = [], ti_take_time = 0, ti_wait_time = 0, ti_woken_time = 0, ti_unix_time = 50\<rparr>"

definition demo_net :: net where
  "demo_net = \<lparr>net_os = demo_os, net_bound = [], net_next_fd = 3, net_socket_ok = (\<lambda>_. True), net_listen_ok = (\<lambda>_. True), net_peer_uid = (\<lambda>_. Some 1000)\<rparr>"

definition demo_world :: "bytes \<Rightarrow> world" where
  "demo_world inb = \<lparr>w_host = demo_host\<lparr>h_handlers := [(''echo'', echo_entry)], h_running := True\<rparr>, w_net = demo_net, w_accepted = [],
     w_conns = [(1, ConnState_init ((posix_transport 4 1000)\<lparr>k_in := inb\<rparr>) (replicate 32 4) False)], w_topics = [], w_next = 2, w_accept_thread = True,
     w_heartbeat_thread = False, w_calls = []\<rparr>"

lemma demo_request_fields:
  "req_request_id demo_request = 1" "req_oneway demo_request = False" "req_endpoint demo_request = ''echo''" "req_data demo_request = [5, 6]"
  by (simp_all add: demo_request_def)

lemma demo_request_served: "w_calls (snd (connection_turn toy_sodium demo_turn demo_thread (demo_world demo_in))) = [UnaryCall ''echo'' [5, 6] demo_peer]"
proof -
  let ?cs = "ConnState_init ((posix_transport 4 1000)\<lparr>k_in := demo_in\<rparr>) (replicate 32 4) False"
  have k: "usable_key toy_sodium (replicate 32 3)" using toy_laws by (simp add: usable_key_def)
  have l: "length (seal toy_sodium (replicate 32 3) 0 2 (encode_request demo_request)) \<le> 16000000"
    by (simp add: seal_def seal_impl_def toy_sodium_def encode_request_def demo_request_def put_str8_def Let_def)
  have r: "host_recv toy_sodium ?cs (rx_start (replicate 32 3)) [] = (HRequest (encode_request demo_request),
      ?cs\<lparr>cs_t := (cs_t ?cs)\<lparr>k_in := []\<rparr>\<rparr>, (rx_start (replicate 32 3))\<lparr>rx_counter := 1\<rparr>)"
    using k l by (intro host_recv_request) (auto simp: ConnState_init_def healthy_def posix_transport_def demo_in_def)
  have d: "decode_request (encode_request demo_request) = Ok demo_request" by (rule request_roundtrip) (simp_all add: demo_request_def)
  show ?thesis
    using r d
    by (simp add: connection_turn_def demo_world_def demo_thread_def demo_turn_def demo_host_def HostImpl_init_def handle_request_def
        rate_limit_def ConnectionLimits_init_def kUnsubscribeEndpoint_def authorize_def authorize_fresh_def entry_access_def
        dispatch_def echo_entry_def EndpointEntry_init_def AccessPolicy_init_def Let_def demo_request_fields)
qed

theorem handlers_called_only_if_authorized_witness:
  "calls_ok (w_host (demo_world demo_in)) demo_thread 50 demo_os [UnaryCall ''echo'' [5, 6] demo_peer]"
proof -
  obtain r w' where t: "connection_turn toy_sodium demo_turn demo_thread (demo_world demo_in) = (r, w')" by fastforce
  from handlers_called_only_if_authorized [OF this] show ?thesis
    using demo_request_served t by (simp add: demo_world_def demo_turn_def w_os_def demo_net_def)
qed

theorem connection_terminates_witness:
  "\<exists>r w'. connection_loop toy_sodium [demo_turn] demo_thread (demo_world []) = (r, w') \<and> ((\<exists>e. r = Throw e) \<or> (r = Ret None \<and> closed_conn 1 w'))"
proof -
  obtain r w' where l: "connection_loop toy_sodium [demo_turn] demo_thread (demo_world []) = (r, w')" by fastforce
  have "inbound (ct_cs demo_thread) (demo_world []) < length [demo_turn]"
    by (simp add: inbound_def demo_world_def demo_thread_def ConnState_init_def)
  from connection_terminates [OF this l] l show ?thesis by (simp add: demo_thread_def)
qed

end
