(* ===== verification/Epx_Server.thy ===== *)
theory Epx_Server
  imports Epx_Host
begin

text \<open>
  The life of a host (\<^verbatim>\<open>src/host.cpp\<close>: the methods of \<open>Host\<close>, \<open>accept_loop\<close>, \<open>heartbeat_loop\<close>,
  \<open>publish_registry\<close>, the signal table). A step relation interleaves the connection threads, the
  accepting and the heartbeat thread, and the application's calls in any order; a section under a
  mutex, and one turn of a connection's loop, is one step.
\<close>

section \<open>Exposing endpoints\<close>

definition check_endpoint_name :: "string \<Rightarrow> unit ex" where
  "check_endpoint_name endpoint =
     (if take (length kReservedPrefix) endpoint = kReservedPrefix
      then Throw (InvalidArgument (''endpoint names starting with '' @ [CHR 0x22] @ kReservedPrefix @ [CHR 0x22]
             @ '' are reserved by EPX: '' @ endpoint))
      else Ret ())"

definition set_entry :: "string \<Rightarrow> EndpointEntry \<Rightarrow> HostImpl \<Rightarrow> HostImpl" where
  "set_entry endpoint entry H = H\<lparr>h_handlers := AList.update endpoint entry (h_handlers H)\<rparr>"

text \<open>\<open>handlers[endpoint].access.reset()\<close>, the second locked section of the overloads without a policy.\<close>

definition reset_access :: "string \<Rightarrow> HostImpl \<Rightarrow> HostImpl" where
  "reset_access endpoint H =
     set_entry endpoint ((case map_of (h_handlers H) endpoint of Some e \<Rightarrow> e | None \<Rightarrow> EndpointEntry_init)\<lparr>ee_access := None\<rparr>) H"

definition then_reset :: "string \<Rightarrow> unit ex \<times> HostImpl \<Rightarrow> unit ex \<times> HostImpl" where
  "then_reset endpoint r = (case r of (Throw e, H) \<Rightarrow> (Throw e, H) | (Ret _, H) \<Rightarrow> (Ret (), reset_access endpoint H))"

definition expose_policy :: "EndpointKind \<Rightarrow> string \<Rightarrow> Handler option \<Rightarrow> AccessPolicy \<Rightarrow> HostImpl \<Rightarrow> unit ex \<times> HostImpl" where
  "expose_policy kind endpoint handler access H =
     (case check_endpoint_name endpoint of
        Throw e \<Rightarrow> (Throw e, H)
      | Ret _ \<Rightarrow>
          if kind \<noteq> KReceive \<and> kind \<noteq> KSend
          then (Throw (InvalidArgument (''expose(kind, ...) with a Handler requires EndpointKind::Receive or Send; ''
                  @ ''use expose_stream_receive/expose_stream_send for the streaming kinds'')), H)
          else (Ret (), set_entry endpoint (EndpointEntry_init\<lparr>ee_kind := kind, ee_unary := handler, ee_access := Some access\<rparr>) H))"

definition expose :: "EndpointKind \<Rightarrow> string \<Rightarrow> Handler option \<Rightarrow> HostImpl \<Rightarrow> unit ex \<times> HostImpl" where
  "expose kind endpoint handler H = then_reset endpoint (expose_policy kind endpoint handler AccessPolicy_init H)"

definition expose_receive :: "string \<Rightarrow> Handler option \<Rightarrow> HostImpl \<Rightarrow> unit ex \<times> HostImpl" where
  "expose_receive endpoint handler H = expose KReceive endpoint handler H"

definition expose_receive_policy :: "string \<Rightarrow> Handler option \<Rightarrow> AccessPolicy \<Rightarrow> HostImpl \<Rightarrow> unit ex \<times> HostImpl" where
  "expose_receive_policy endpoint handler access H = expose_policy KReceive endpoint handler access H"

definition expose_stream_receive_policy :: "string \<Rightarrow> StreamReceiveHandler option \<Rightarrow> AccessPolicy \<Rightarrow> HostImpl \<Rightarrow> unit ex \<times> HostImpl" where
  "expose_stream_receive_policy endpoint handler access H =
     (case check_endpoint_name endpoint of
        Throw e \<Rightarrow> (Throw e, H)
      | Ret _ \<Rightarrow> (Ret (), set_entry endpoint (EndpointEntry_init\<lparr>ee_kind := KStreamReceive, ee_stream_recv := handler, ee_access := Some access\<rparr>) H))"

definition expose_stream_receive :: "string \<Rightarrow> StreamReceiveHandler option \<Rightarrow> HostImpl \<Rightarrow> unit ex \<times> HostImpl" where
  "expose_stream_receive endpoint handler H = then_reset endpoint (expose_stream_receive_policy endpoint handler AccessPolicy_init H)"

definition expose_stream_send_policy :: "string \<Rightarrow> StreamSendHandler option \<Rightarrow> AccessPolicy \<Rightarrow> HostImpl \<Rightarrow> unit ex \<times> HostImpl" where
  "expose_stream_send_policy endpoint handler access H =
     (case check_endpoint_name endpoint of
        Throw e \<Rightarrow> (Throw e, H)
      | Ret _ \<Rightarrow> (Ret (), set_entry endpoint (EndpointEntry_init\<lparr>ee_kind := KStreamSend, ee_stream_send := handler, ee_access := Some access\<rparr>) H))"

definition expose_stream_send :: "string \<Rightarrow> StreamSendHandler option \<Rightarrow> HostImpl \<Rightarrow> unit ex \<times> HostImpl" where
  "expose_stream_send endpoint handler H = then_reset endpoint (expose_stream_send_policy endpoint handler AccessPolicy_init H)"

text \<open>A topic is a new object, known by the next free number.\<close>

definition expose_topic_policy :: "string \<Rightarrow> AccessPolicy \<Rightarrow> world \<Rightarrow> nat ex \<times> world" where
  "expose_topic_policy topic access w =
     (case check_endpoint_name topic of
        Throw e \<Rightarrow> (Throw e, w)
      | Ret _ \<Rightarrow>
          (let i = w_next w;
               w1 = w\<lparr>w_next := i + 1, w_topics := AList.update i [] (w_topics w),
                      w_host := (w_host w)\<lparr>h_topics := AList.update topic i (h_topics (w_host w))\<rparr>\<rparr>
           in (Ret i, w1\<lparr>w_host := set_entry topic (EndpointEntry_init\<lparr>ee_kind := KTopic, ee_access := Some access\<rparr>) (w_host w1)\<rparr>)))"

definition expose_topic :: "string \<Rightarrow> world \<Rightarrow> nat ex \<times> world" where
  "expose_topic topic w =
     (case expose_topic_policy topic AccessPolicy_init w of
        (Throw e, w1) \<Rightarrow> (Throw e, w1)
      | (Ret i, w1) \<Rightarrow> (Ret i, w1\<lparr>w_host := reset_access topic (w_host w1)\<rparr>))"

section \<open>Threads of the host\<close>

definition on_topic_conns :: "nat \<Rightarrow> (Sub list \<Rightarrow> conns \<Rightarrow> Sub list \<times> conns) \<Rightarrow> world \<Rightarrow> world" where
  "on_topic_conns i f w =
     (case f (topic_subs i (w_topics w)) (w_conns w) of
        (subs1, conns1) \<Rightarrow> w\<lparr>w_topics := AList.update i subs1 (w_topics w), w_conns := conns1\<rparr>)"

text \<open>The steady clock in nanoseconds.\<close>

definition kTopicHeartbeatInterval :: int where "kTopicHeartbeatInterval = 3 * 1000000000"

definition heartbeat_turn :: "int \<Rightarrow> int \<Rightarrow> world \<Rightarrow> int \<times> world" where
  "heartbeat_turn now last_beat w =
     (if now - last_beat < kTopicHeartbeatInterval then (last_beat, w)
      else (now, fold (\<lambda>i. on_topic_conns i topic_heartbeat) (map snd (h_topics (w_host w))) w))"

fun heartbeat_loop :: "int list \<Rightarrow> int \<Rightarrow> world \<Rightarrow> int \<times> world" where
  "heartbeat_loop [] last_beat w = (last_beat, w)"
| "heartbeat_loop (now # clock) last_beat w =
     (if \<not> h_running (w_host w) then (last_beat, w)
      else case heartbeat_turn now last_beat w of (last1, w1) \<Rightarrow> heartbeat_loop clock last1 w1)"

text \<open>\<open>running_now\<close> is what the flag says when \<open>accept\<close> returns. The result tells whether the loop goes on.\<close>

definition accept_turn :: "bool \<Rightarrow> world \<Rightarrow> bool \<times> world" where
  "accept_turn running_now w =
     (let H = w_host w in
      if \<not> h_running H then (False, w)
      else case h_listener H of
        None \<Rightarrow> (False, w)
      | Some l \<Rightarrow>
          (case listener_accept l of
             (None, l1) \<Rightarrow> (False, w\<lparr>w_host := H\<lparr>h_listener := Some l1\<rparr>\<rparr>)
           | (Some t, l1) \<Rightarrow>
               if \<not> running_now then (False, w\<lparr>w_host := H\<lparr>h_listener := Some l1\<rparr>\<rparr>)
               else (let c = w_next w
                     in (True, w\<lparr>w_next := c + 1, w_accepted := w_accepted w @ [(c, t)],
                                 w_host := H\<lparr>h_listener := Some l1, h_live_conns := h_live_conns H @ [c]\<rparr>\<rparr>))))"

definition queue_len :: "world \<Rightarrow> nat" where
  "queue_len w = (case h_listener (w_host w) of None \<Rightarrow> 0 | Some l \<Rightarrow> length (pl_queue l))"

lemma accept_turn_queue: "accept_turn r w = (True, w1) \<Longrightarrow> queue_len w1 < queue_len w"
  by (auto simp: accept_turn_def listener_accept_def queue_len_def Let_def split: if_splits option.splits prod.splits list.splits)

function accept_loop :: "world \<Rightarrow> world" where
  "accept_loop w =
     (case accept_turn (h_running (w_host w)) w of (go_on, w1) \<Rightarrow> if go_on then accept_loop w1 else w1)"
  by pat_completeness auto
termination
  by (relation "measure queue_len") (auto dest: accept_turn_queue [OF sym])

declare accept_loop.simps [simp del]

definition publish_registry :: "string \<Rightarrow> int \<Rightarrow> world \<Rightarrow> unit ex \<times> world" where
  "publish_registry address current_pid w =
     (let H = w_host w;
          entry = Entry_init\<lparr>en_service_name := h_service_name H, en_address := address,
             en_identity_pubkey := id_public_key (h_identity H), en_pid := current_pid, en_description := h_description H,
             en_endpoints := map (\<lambda>(name, e). name @ '':'' @ kind_to_string (ee_kind e)) (h_handlers H)\<rparr>
      in case publish entry (w_os w) of (r, s1) \<Rightarrow> (r, set_os s1 w))"

definition run :: "sodium \<Rightarrow> int \<Rightarrow> world \<Rightarrow> unit ex \<times> world" where
  "run S pid w =
     (if h_running (w_host w) then (Ret (), w)
      else
        (let w1 = w\<lparr>w_host := load_credentials_from_disk S ((w_host w)\<lparr>h_running := True\<rparr>) (w_os w)\<rparr>;
             address = default_address_for_service (h_service_name (w_host w1)) (w_os w1)
         in case listen address (w_net w1) of
              (Throw e, n1) \<Rightarrow> (Throw e, w1\<lparr>w_net := n1\<rparr>)
            | (Ret l, n1) \<Rightarrow>
                (case publish_registry address pid (w1\<lparr>w_net := n1, w_host := (w_host w1)\<lparr>h_listener := Some l\<rparr>\<rparr>) of
                   (Throw e, w2) \<Rightarrow> (Throw e, w2)
                 | (Ret _, w2) \<Rightarrow> (Ret (), w2\<lparr>w_accept_thread := True, w_heartbeat_thread := (h_topics (w_host w2) \<noteq> [])\<rparr>))))"

definition run_async :: "sodium \<Rightarrow> int \<Rightarrow> world \<Rightarrow> unit ex \<times> world" where
  "run_async S pid w = run S pid w"

section \<open>Stopping\<close>

definition before_stop :: "nat option \<Rightarrow> HostImpl \<Rightarrow> HostImpl" where
  "before_stop hook H = H\<lparr>h_before_stop_hooks := h_before_stop_hooks H @ [hook]\<rparr>"

definition after_stop :: "nat option \<Rightarrow> HostImpl \<Rightarrow> HostImpl" where
  "after_stop hook H = H\<lparr>h_after_stop_hooks := h_after_stop_hooks H @ [hook]\<rparr>"

definition request_stop :: "HostImpl \<Rightarrow> HostImpl" where
  "request_stop H = H\<lparr>h_stop_requested := True\<rparr>"

definition stopped :: "HostImpl \<Rightarrow> bool" where
  "stopped H = (\<not> h_running H)"

definition run_hooks :: "nat option list \<Rightarrow> world \<Rightarrow> world" where
  "run_hooks hooks w = fold (\<lambda>h w. case h of Some n \<Rightarrow> log_call (HookCall n) w | None \<Rightarrow> w) hooks w"

definition close_topics :: "sodium \<Rightarrow> world \<Rightarrow> world" where
  "close_topics S w = fold (\<lambda>i. on_topic_conns i (topic_close_all S)) (map snd (h_topics (w_host w))) w"

definition close_listener :: "world \<Rightarrow> world" where
  "close_listener w =
     (case h_listener (w_host w) of
        None \<Rightarrow> w
      | Some l \<Rightarrow> (case listener_close l (w_net w) of
                    (l1, n1) \<Rightarrow> w\<lparr>w_net := n1, w_host := (w_host w)\<lparr>h_listener := Some l1\<rparr>\<rparr>))"

definition close_live :: "nat \<Rightarrow> world \<Rightarrow> world" where
  "close_live c w = close_conn c (w\<lparr>w_accepted := map (\<lambda>(d, t). (d, if d = c then transport_close t else t)) (w_accepted w)\<rparr>)"

text \<open>Waiting for the connection threads. With \<open>running\<close> cleared and the transports closed, a thread in its loop
  leaves it at the next test or read, and a thread that has not begun fails its handshake; the model
  lets them finish one after the other.\<close>

definition join_conn_threads :: "sodium \<Rightarrow> wire_globals \<Rightarrow> (nat \<Rightarrow> setup_in) \<Rightarrow> conn_thread list \<Rightarrow> world \<Rightarrow> world" where
  "join_conn_threads S g ins ths w =
     (let w1 = fold (\<lambda>(c, t) w. snd (connection_setup S g c t (ins c) w)) (w_accepted w) w
      in fold connection_end ths w1)"

definition stop :: "sodium \<Rightarrow> wire_globals \<Rightarrow> (nat \<Rightarrow> setup_in) \<Rightarrow> conn_thread list \<Rightarrow> world \<Rightarrow> world" where
  "stop S g ins ths w =
     (if \<not> h_running (w_host w) then w
      else
        (let w1 = w\<lparr>w_host := (w_host w)\<lparr>h_running := False\<rparr>\<rparr>;
             w2 = run_hooks (h_before_stop_hooks (w_host w1)) w1;
             w3 = (close_topics S w2)\<lparr>w_heartbeat_thread := False\<rparr>;
             w4 = close_listener w3;
             w5 = (fold close_live (h_live_conns (w_host w4)) w4)\<lparr>w_accept_thread := False\<rparr>;
             w6 = join_conn_threads S g ins ths w5;
             w7 = set_os (unpublish (h_service_name (w_host w6)) (w_os w6)) w6
         in run_hooks (h_after_stop_hooks (w_host w7)) w7))"

text \<open>What each poll of \<open>wait_until_stopped\<close> reads of \<open>running\<close> and \<open>stop_requested\<close>; true once the loop ended.\<close>

fun wait_polls :: "(bool \<times> bool) list \<Rightarrow> bool" where
  "wait_polls [] = False"
| "wait_polls ((running, requested) # polls) = (if running \<and> \<not> requested then wait_polls polls else True)"

definition wait_until_stopped ::
  "sodium \<Rightarrow> wire_globals \<Rightarrow> (nat \<Rightarrow> setup_in) \<Rightarrow> conn_thread list \<Rightarrow> (bool \<times> bool) list \<Rightarrow> world \<Rightarrow> world option" where
  "wait_until_stopped S g ins ths polls w = (if wait_polls polls then Some (stop S g ins ths w) else None)"

subsection \<open>Signals\<close>

text \<open>The table of hosts to stop on a signal; hosts are numbers.\<close>

definition kMaxSignalHosts :: nat where "kMaxSignalHosts = 8"

definition g_signal_hosts_init :: "nat option list" where
  "g_signal_hosts_init = replicate kMaxSignalHosts None"

fun register_signal_host :: "nat \<Rightarrow> nat option list \<Rightarrow> nat option list" where
  "register_signal_host h [] = []"
| "register_signal_host h (slot # slots) = (if slot = None then Some h # slots else slot # register_signal_host h slots)"

definition unregister_signal_host :: "nat \<Rightarrow> nat option list \<Rightarrow> nat option list" where
  "unregister_signal_host h slots = map (\<lambda>slot. if slot = Some h then None else slot) slots"

definition epx_signal_trampoline :: "nat option list \<Rightarrow> (nat \<Rightarrow> HostImpl) \<Rightarrow> (nat \<Rightarrow> HostImpl)" where
  "epx_signal_trampoline slots hosts =
     fold (\<lambda>slot hosts. case slot of Some h \<Rightarrow> hosts(h := request_stop (hosts h)) | None \<Rightarrow> hosts) slots hosts"

text \<open>The second component is the set of signals with the trampoline installed.\<close>

definition stop_on_signals :: "nat \<Rightarrow> int list \<Rightarrow> nat option list \<Rightarrow> int set \<Rightarrow> nat option list \<times> int set" where
  "stop_on_signals h signals slots installed = (register_signal_host h slots, installed \<union> set signals)"

definition Host_destroy :: "sodium \<Rightarrow> wire_globals \<Rightarrow> (nat \<Rightarrow> setup_in) \<Rightarrow> conn_thread list \<Rightarrow> nat \<Rightarrow> nat option list \<Rightarrow> world \<Rightarrow> nat option list \<times> world" where
  "Host_destroy S g ins ths h slots w = (unregister_signal_host h slots, stop S g ins ths w)"

section \<open>Interleaving\<close>

type_synonym threads = "(nat \<times> conn_thread) list"

text \<open>The configuration calls of the application, between the sections of which anything may happen; the
  overloads without a policy are two of these steps. \<open>set_limits\<close> is meant for the time before \<open>run\<close>.\<close>

inductive configures :: "HostImpl \<Rightarrow> HostImpl \<Rightarrow> bool" where
  unary: "expose_policy k ep h a H = (r, H') \<Longrightarrow> configures H H'"
| stream_receive: "expose_stream_receive_policy ep hr a H = (r, H') \<Longrightarrow> configures H H'"
| stream_send: "expose_stream_send_policy ep hs a H = (r, H') \<Longrightarrow> configures H H'"
| reset: "map_of (h_handlers H) ep \<noteq> None \<Longrightarrow> configures H (reset_access ep H)"
| default_access: "configures H (set_default_access a H)"
| describe: "configures H (set_description d H)"
| prompt: "configures H (on_authorization_prompt p H)"
| issuer: "configures H (add_issuer pk H)"
| credential: "add_credential S txt H = (b, H') \<Longrightarrow> configures H H'"
| peer: "configures H (allow_peer pk H)"
| hook1: "configures H (before_stop n H)"
| hook2: "configures H (after_stop n H)"
| ask_stop: "configures H (request_stop H)"
| flag: "configures H (H\<lparr>h_running := b\<rparr>)"

inductive host_step :: "sodium \<Rightarrow> wire_globals \<Rightarrow> world \<times> threads \<Rightarrow> world \<times> threads \<Rightarrow> bool" for S g where
  accepting: "accept_turn r w = (go_on, w') \<Longrightarrow> host_step S g (w, ths) (w', ths)"
| starting: "map_of (w_accepted w) c = Some t \<Longrightarrow> connection_setup S g c t i w = (Ret r, w') \<Longrightarrow>
    host_step S g (w, ths) (w', case r of None \<Rightarrow> ths | Some th \<Rightarrow> AList.update c th ths)"
| turn: "map_of ths c = Some th \<Longrightarrow> connection_turn S i th w = (Again th', w') \<Longrightarrow>
    host_step S g (w, ths) (w', AList.update c th' ths)"
| leave: "map_of ths c = Some th \<Longrightarrow> connection_turn S i th w = (Leave th', w') \<Longrightarrow>
    host_step S g (w, ths) (connection_end th' w', AList.delete c ths)"
| publishing: "handle_publish S h m (w_topics w) (w_conns w) = (n, topics', conns') \<Longrightarrow>
    host_step S g (w, ths) (w\<lparr>w_topics := topics', w_conns := conns'\<rparr>, ths)"
| heartbeat: "heartbeat_turn now lb w = (lb', w') \<Longrightarrow> host_step S g (w, ths) (w', ths)"
| closing_topics: "host_step S g (w, ths) (close_topics S w, ths)"
| closing_conn: "host_step S g (w, ths) (close_live c w, ths)"
| closing_listener: "host_step S g (w, ths) (close_listener w, ths)"
| topic: "expose_topic_policy ep a w = (r, w') \<Longrightarrow> host_step S g (w, ths) (w', ths)"
| configure: "configures (w_host w) H' \<Longrightarrow> host_step S g (w, ths) (w\<lparr>w_host := H'\<rparr>, ths)"
| network: "map_of (w_conns w) c = Some cs \<Longrightarrow>
    host_step S g (w, ths) (w\<lparr>w_conns := AList.update c (cs\<lparr>cs_t := t'\<rparr>) (w_conns w)\<rparr>, ths)"
| files: "host_step S g (w, ths) (set_os s w, ths)"

definition host_reaches :: "sodium \<Rightarrow> wire_globals \<Rightarrow> world \<Rightarrow> world \<times> threads \<Rightarrow> bool" where
  "host_reaches S g w0 = (host_step S g)\<^sup>*\<^sup>* (w0, [])"

section \<open>Subscriptions\<close>

text \<open>How many subscriptions of a topic belong to a request of a connection.\<close>

definition n_subs :: "nat \<Rightarrow> u64 \<Rightarrow> Sub list \<Rightarrow> nat" where
  "n_subs c r subs = length (filter (\<lambda>s. sub_cs s = c \<and> sub_request_id s = r) subs)"

lemma n_subs_simps [simp]:
  "n_subs c r [] = 0"
  "n_subs c r (s # subs) = (if sub_cs s = c \<and> sub_request_id s = r then 1 else 0) + n_subs c r subs"
  "n_subs c r (subs @ subs') = n_subs c r subs + n_subs c r subs'"
  by (simp_all add: n_subs_def)

lemma topic_subs_update [simp]: "topic_subs i (AList.update j x ts) = (if i = j then x else topic_subs i ts)"
  by (simp add: topic_subs_def update_conv')

lemma n_subs_add: "n_subs c r (topic_add c' r' subs) = n_subs c r subs + (if c = c' \<and> r = r' then 1 else 0)"
  by (auto simp: topic_add_def)

lemma n_subs_remove: "n_subs c r (topic_remove c' r' subs) = n_subs c r subs - (if c = c' \<and> r = r' then 1 else 0)"
  by (induction subs) auto

lemma n_subs_remove_conn: "n_subs c r (topic_remove_conn c' subs) = (if c = c' then 0 else n_subs c r subs)"
  by (induction subs) (auto simp: topic_remove_conn_def)

lemma n_subs_publish: "topic_publish S m subs conns = (subs', n, conns') \<Longrightarrow> n_subs c r subs' \<le> n_subs c r subs"
proof (induction subs arbitrary: conns subs' n conns')
  case (Cons s subs)
  obtain ok conns1 where o: "(if conn_alive_in conns (sub_cs s)
      then on_conn (sub_cs s) (\<lambda>cs. send_chunk S cs (sub_request_id s) (sub_seq s) False m) conns else (False, conns)) = (ok, conns1)"
    by fastforce
  obtain subs1 d conns2 where p: "topic_publish S m subs conns1 = (subs1, d, conns2)" using prod_cases3 by blast
  from Cons.IH [OF p] Cons.prems o p show ?case by (auto split: if_splits)
qed simp

lemma n_subs_heartbeat: "topic_heartbeat subs conns = (subs', conns') \<Longrightarrow> n_subs c r subs' \<le> n_subs c r subs"
proof (induction subs arbitrary: conns subs' conns')
  case (Cons s subs)
  obtain ok conns1 where o: "on_conn (sub_cs s) send_ping conns = (ok, conns1)" by fastforce
  obtain subs1 conns2 where p: "topic_heartbeat subs conns1 = (subs1, conns2)" by fastforce
  from Cons.IH [OF p] Cons.prems o p show ?case by (auto split: if_splits)
qed simp

lemma n_subs_close: "topic_close_all S subs conns = (subs', conns') \<Longrightarrow> subs' = []"
  by (induction subs arbitrary: conns) auto

lemma count_erase_sub:
  "find_sub q subs = Some i \<Longrightarrow> count_list (erase_sub q subs) (j, r) = count_list subs (j, r) - (if (j, r) = (i, q) then 1 else 0)"
  "length (erase_sub q subs) \<le> length subs"
  by (induction subs) (auto split: if_splits)

text \<open>Operations on a topic that only drop subscriptions.\<close>

definition shrinks :: "(Sub list \<Rightarrow> conns \<Rightarrow> Sub list \<times> conns) \<Rightarrow> bool" where
  "shrinks f \<longleftrightarrow> (\<forall>subs conns c r. n_subs c r (fst (f subs conns)) \<le> n_subs c r subs)"

lemma shrinks_heartbeat: "shrinks topic_heartbeat"
  unfolding shrinks_def using n_subs_heartbeat by (metis prod.collapse)

lemma shrinks_close: "shrinks (topic_close_all S)"
  unfolding shrinks_def using n_subs_close by (metis prod.collapse n_subs_simps(1) le0)

lemma on_topic_conns_frame [simp]:
  "w_host (on_topic_conns i f w) = w_host w" "w_net (on_topic_conns i f w) = w_net w" "w_accepted (on_topic_conns i f w) = w_accepted w"
  "w_next (on_topic_conns i f w) = w_next w" "w_calls (on_topic_conns i f w) = w_calls w"
  by (simp_all add: on_topic_conns_def split: prod.splits)

lemma fold_on_topic_conns_frame [simp]:
  "w_host (fold (\<lambda>i. on_topic_conns i f) xs w) = w_host w" "w_net (fold (\<lambda>i. on_topic_conns i f) xs w) = w_net w"
  "w_accepted (fold (\<lambda>i. on_topic_conns i f) xs w) = w_accepted w"
  "w_next (fold (\<lambda>i. on_topic_conns i f) xs w) = w_next w" "w_calls (fold (\<lambda>i. on_topic_conns i f) xs w) = w_calls w"
  by (induction xs arbitrary: w) auto

lemma fold_shrinks:
  "shrinks f \<Longrightarrow> n_subs c r (topic_subs j (w_topics (fold (\<lambda>i. on_topic_conns i f) xs w))) \<le> n_subs c r (topic_subs j (w_topics w))"
proof (induction xs arbitrary: w)
  case (Cons x xs)
  have "n_subs c r (topic_subs j (w_topics (on_topic_conns x f w))) \<le> n_subs c r (topic_subs j (w_topics w))"
    using Cons.prems by (auto simp: on_topic_conns_def shrinks_def split: prod.splits) (metis fst_conv)
  with Cons.IH [OF Cons.prems, of "on_topic_conns x f w"] show ?case by simp
qed simp

text \<open>What a turn does to topics and subscriptions.\<close>

definition sub_change :: "ConnectionLimits \<Rightarrow> conn_thread \<Rightarrow> world \<Rightarrow> conn_thread \<Rightarrow> world \<Rightarrow> bool" where
  "sub_change L th w th' w' \<longleftrightarrow>
     w_topics w' = w_topics w \<and> ct_subs th' = ct_subs th
     \<or> (\<exists>i r. ct_subs th' = ct_subs th @ [(i, r)] \<and> (max_subscriptions L > 0 \<longrightarrow> length (ct_subs th) < unat (max_subscriptions L))
          \<and> w_topics w' = AList.update i (topic_add (ct_cs th) r (topic_subs i (w_topics w))) (w_topics w))
     \<or> (\<exists>i r. find_sub r (ct_subs th) = Some i \<and> ct_subs th' = erase_sub r (ct_subs th)
          \<and> w_topics w' = AList.update i (topic_remove (ct_cs th) r (topic_subs i (w_topics w))) (w_topics w))"

definition same_frame :: "world \<Rightarrow> world \<Rightarrow> bool" where
  "same_frame w w' \<longleftrightarrow> w_host w' = w_host w \<and> w_accepted w' = w_accepted w \<and> w_next w' = w_next w"

lemma chunk_subs:
  "handle_chunk i p th w = (r, w') \<Longrightarrow> same_frame w w' \<and> (r = Again th' \<or> r = Leave th' \<longrightarrow> w_topics w' = w_topics w \<and> ct_subs th' = ct_subs th)"
  by (auto simp: handle_chunk_def Let_def same_frame_def split: option.splits prod.splits ex.splits if_splits)

lemma dispatch_subs:
  "dispatch S e req th w = (r, w') \<Longrightarrow> same_frame w w' \<and> (r = Again th' \<or> r = Leave th' \<longrightarrow> w_topics w' = w_topics w \<and> ct_subs th' = ct_subs th)"
  by (auto simp: dispatch_def Let_def same_frame_def split: option.splits prod.splits ex.splits if_splits EndpointKind.splits)

lemma subscribe_subs:
  "handle_subscribe S req th w = (r, w') \<Longrightarrow> same_frame w w' \<and> (r = Again th' \<or> r = Leave th' \<longrightarrow> sub_change (h_limits (w_host w)) th w th' w')"
  by (auto simp: handle_subscribe_def Let_def same_frame_def sub_change_def on_topic_def split: option.splits if_splits)

lemma sub_change_remove:
  "find_sub r (ct_subs th) = Some i \<Longrightarrow>
   sub_change L th w (th\<lparr>ct_subs := erase_sub r (ct_subs th)\<rparr>) (on_topic i (topic_remove (ct_cs th) r) w)"
  unfolding sub_change_def on_topic_def by (intro disjI2 exI [of _ i] exI [of _ r]) simp

lemma unsubscribe_subs:
  "handle_unsubscribe req th w = (r, w') \<Longrightarrow> same_frame w w' \<and> (r = Again th' \<or> r = Leave th' \<longrightarrow> sub_change L th w th' w')"
  by (auto simp: handle_unsubscribe_def same_frame_def intro: sub_change_remove split: option.splits if_splits cres.splits)
    (simp_all add: sub_change_def)

lemma sub_change_cong:
  "ct_subs th1 = ct_subs th \<Longrightarrow> ct_cs th1 = ct_cs th \<Longrightarrow> w_topics w1 = w_topics w \<Longrightarrow> sub_change L th1 w1 th' w' = sub_change L th w th' w'"
  by (simp add: sub_change_def)

lemma request_subs:
  assumes "handle_request S i p th w = (r, w')"
  shows "same_frame w w' \<and> (r = Again th' \<or> r = Leave th' \<longrightarrow> sub_change (h_limits (w_host w)) th w th' w')"
proof (cases "accepted (decode_request p)")
  case None
  with assms show ?thesis by (auto simp: handle_request_def same_frame_def sub_change_def)
next
  case (Some req)
  obtain ok th1 where rl: "rate_limit (h_limits (w_host w)) i th = (ok, th1)" by fastforce
  note f = rate_limit_frame [OF rl]
  have c1: "sub_change L th1 w th' w' = sub_change L th w th' w'" for L using f by (intro sub_change_cong) auto
  have c2: "sub_change L (th1\<lparr>ct_cache := k\<rparr>) (set_os s w) th' w' = sub_change L th w th' w'" for L k s using f by (intro sub_change_cong) auto
  have c3: "w_topics w' = w_topics w \<Longrightarrow> ct_subs th' = ct_subs th1 \<Longrightarrow> sub_change L th w th' w'" for L using f by (simp add: sub_change_def)
  have ss: "same_frame (set_os s w) w' = same_frame w w'" for s by (simp add: same_frame_def)
  consider (stop) "r = Leave th1" "same_frame w w'" "w_topics w' = w_topics w" | (same) "r = Again th1" "same_frame w w'" "w_topics w' = w_topics w"
    | (uns) "handle_unsubscribe req th1 w = (r, w')" | (raise) e where "r = Raise e" "same_frame w w'"
    | (denied) k where "r = Again (th1\<lparr>ct_cache := k\<rparr>)" "same_frame w w'" "w_topics w' = w_topics w"
    | (sub) k s where "handle_subscribe S req (th1\<lparr>ct_cache := k\<rparr>) (set_os s w) = (r, w')"
    | (disp) e k s where "dispatch S e req (th1\<lparr>ct_cache := k\<rparr>) (set_os s w) = (r, w')"
    using assms Some rl f unfolding handle_request_def Let_def
    by (auto simp: same_frame_def split: option.splits prod.splits bool.splits ex.splits if_splits)
  then show ?thesis
  proof cases
    case uns
    from unsubscribe_subs [OF this, of th' "h_limits (w_host w)"] c1 show ?thesis by blast
  next
    case sub
    from subscribe_subs [OF this, of th'] c2 ss show ?thesis by simp
  next
    case disp
    from dispatch_subs [OF this, of th'] c3 ss show ?thesis by auto
  qed (use c3 in auto)
qed

lemma connection_turn_subs:
  assumes "connection_turn S i th w = (r, w')"
  shows "same_frame w w' \<and> (r = Again th' \<or> r = Leave th' \<longrightarrow> sub_change (h_limits (w_host w)) th w th' w')"
  using assms
proof (cases rule: connection_turn_cases)
  case 1
  then show ?thesis by (auto simp: same_frame_def sub_change_def)
next
  case (2 cs ev cs1 rx1)
  let ?th = "th\<lparr>ct_rx := rx1\<rparr>" and ?w = "w\<lparr>w_conns := AList.update (ct_cs th) cs1 (w_conns w)\<rparr>"
  have c: "sub_change L ?th ?w th' w' = sub_change L th w th' w'" for L by (intro sub_change_cong) auto
  have s: "same_frame ?w w' = same_frame w w'" by (simp add: same_frame_def)
  show ?thesis
  proof (cases ev)
    case (HChunk p)
    with 2(3) chunk_subs [of i p ?th ?w r w' th'] s show ?thesis by (auto simp: sub_change_def)
  next
    case (HRequest p)
    with 2(3) request_subs [of S i p ?th ?w r w' th'] s c show ?thesis by auto
  qed (use 2(3) s c in \<open>auto simp: same_frame_def sub_change_def\<close>)
qed

section \<open>The invariant\<close>

definition recorded :: "threads \<Rightarrow> nat \<Rightarrow> nat \<Rightarrow> u64 \<Rightarrow> nat" where
  "recorded ths c i r = (case map_of ths c of None \<Rightarrow> 0 | Some th \<Rightarrow> count_list (ct_subs th) (i, r))"

definition subs_recorded :: "world \<Rightarrow> threads \<Rightarrow> bool" where
  "subs_recorded w ths \<longleftrightarrow> (\<forall>c i r. n_subs c r (topic_subs i (w_topics w)) \<le> recorded ths c i r)"

definition threads_ok :: "ConnectionLimits \<Rightarrow> threads \<Rightarrow> bool" where
  "threads_ok L ths \<longleftrightarrow> (\<forall>c th. map_of ths c = Some th \<longrightarrow> ct_cs th = c
     \<and> (max_subscriptions L > 0 \<longrightarrow> length (ct_subs th) \<le> unat (max_subscriptions L)))"

definition numbers_ok :: "world \<Rightarrow> threads \<Rightarrow> bool" where
  "numbers_ok w ths \<longleftrightarrow> (\<forall>c t. map_of (w_accepted w) c = Some t \<longrightarrow> c < w_next w \<and> map_of ths c = None)
     \<and> (\<forall>c th. map_of ths c = Some th \<longrightarrow> c < w_next w)"

definition names_ok :: "HostImpl \<Rightarrow> bool" where
  "names_ok H \<longleftrightarrow> (\<forall>ep e. map_of (h_handlers H) ep = Some e \<longrightarrow> check_endpoint_name ep = Ret ())"

definition host_inv :: "ConnectionLimits \<Rightarrow> world \<times> threads \<Rightarrow> bool" where
  "host_inv L st \<longleftrightarrow> (case st of (w, ths) \<Rightarrow> subs_recorded w ths \<and> threads_ok L ths \<and> numbers_ok w ths
     \<and> names_ok (w_host w) \<and> h_limits (w_host w) = L)"

lemma host_inv_shrink:
  assumes "host_inv L (w, ths)" "\<And>c r i. n_subs c r (topic_subs i (w_topics w')) \<le> n_subs c r (topic_subs i (w_topics w))"
    and "w_accepted w' = w_accepted w" "w_next w' = w_next w" "w_host w' = w_host w"
  shows "host_inv L (w', ths)"
  using assms unfolding host_inv_def subs_recorded_def numbers_ok_def by simp (meson le_trans)

lemma host_inv_frame:
  assumes "host_inv L (w, ths)" "w_topics w' = w_topics w" "w_accepted w' = w_accepted w" "w_next w' = w_next w" "w_host w' = w_host w"
  shows "host_inv L (w', ths)"
  using assms unfolding host_inv_def subs_recorded_def numbers_ok_def by simp

lemma configures_ok:
  assumes "configures H H'" "names_ok H"
  shows "names_ok H' \<and> h_limits H' = h_limits H"
  using assms
proof (induction rule: configures.induct)
  case (reset H ep)
  then show ?case by (auto simp: names_ok_def reset_access_def set_entry_def update_conv' split: if_splits)
qed (auto simp: names_ok_def expose_policy_def expose_stream_receive_policy_def expose_stream_send_policy_def set_entry_def update_conv'
      set_default_access_def set_description_def on_authorization_prompt_def add_issuer_def add_credential_def allow_peer_def
      before_stop_def after_stop_def request_stop_def split: ex.splits if_splits option.splits)

lemma recorded_update: "recorded (AList.update d th ths) c i r = (if c = d then count_list (ct_subs th) (i, r) else recorded ths c i r)"
  by (simp add: recorded_def update_conv')

lemma sub_change_recorded:
  assumes "sub_change L th w th' w'" "map_of ths c = Some th" "ct_cs th = c" "subs_recorded w ths"
  shows "subs_recorded w' (AList.update c th' ths)"
  unfolding subs_recorded_def
proof (intro allI)
  fix d i r
  have old: "n_subs d r (topic_subs i (w_topics w)) \<le> recorded ths d i r" using assms(4) by (simp add: subs_recorded_def)
  have rc: "recorded ths c i r = count_list (ct_subs th) (i, r)" using assms(2) by (simp add: recorded_def)
  from assms(1) show "n_subs d r (topic_subs i (w_topics w')) \<le> recorded (AList.update c th' ths) d i r"
    unfolding sub_change_def
  proof (elim disjE exE conjE)
    assume "w_topics w' = w_topics w" "ct_subs th' = ct_subs th"
    with old rc show ?thesis by (auto simp: recorded_update)
  next
    fix j q
    assume "ct_subs th' = ct_subs th @ [(j, q)]"
      "w_topics w' = AList.update j (topic_add (ct_cs th) q (topic_subs j (w_topics w))) (w_topics w)"
    with old rc assms(3) show ?thesis by (auto simp: recorded_update n_subs_add)
  next
    fix j q
    assume f: "find_sub q (ct_subs th) = Some j" "ct_subs th' = erase_sub q (ct_subs th)"
      "w_topics w' = AList.update j (topic_remove (ct_cs th) q (topic_subs j (w_topics w))) (w_topics w)"
    with old rc assms(3) show ?thesis by (auto simp: recorded_update n_subs_remove count_erase_sub(1))
  qed
qed

lemma sub_change_bound:
  "sub_change L th w th' w' \<Longrightarrow> (max_subscriptions L > 0 \<longrightarrow> length (ct_subs th) \<le> unat (max_subscriptions L)) \<Longrightarrow>
   (max_subscriptions L > 0 \<longrightarrow> length (ct_subs th') \<le> unat (max_subscriptions L))"
  using count_erase_sub(2) [of _ "ct_subs th"] le_trans unfolding sub_change_def by fastforce

lemma turn_inv:
  assumes "host_inv L (w, ths)" "map_of ths c = Some th" "connection_turn S i th w = (r, w')" "r = Again th' \<or> r = Leave th'"
  shows "host_inv L (w', AList.update c th' ths)"
proof -
  have cs: "ct_cs th = c" using assms(1,2) by (auto simp: host_inv_def threads_ok_def)
  from connection_turn_subs [OF assms(3), of th'] assms(1,4)
  have ch: "sub_change L th w th' w'" and fr: "same_frame w w'" by (auto simp: host_inv_def)
  have "subs_recorded w' (AList.update c th' ths)"
    using sub_change_recorded [OF ch assms(2) cs] assms(1) by (simp add: host_inv_def)
  moreover have "threads_ok L (AList.update c th' ths)"
    using assms(1,2) sub_change_bound [OF ch] connection_turn_cs [OF assms(3,4)] cs by (auto simp: host_inv_def threads_ok_def update_conv')
  moreover have "numbers_ok w' (AList.update c th' ths)"
    using assms(1,2) fr by (auto simp: host_inv_def numbers_ok_def same_frame_def update_conv')
  ultimately show ?thesis using assms(1) fr by (simp add: host_inv_def same_frame_def)
qed

lemma n_subs_detach:
  "n_subs d r (topic_subs i (w_topics (fold (\<lambda>(i, _). on_topic i (topic_remove_conn c)) xs w)))
   = (if d = c \<and> i \<in> fst ` set xs then 0 else n_subs d r (topic_subs i (w_topics w)))"
  by (induction xs arbitrary: w) (auto simp: on_topic_def n_subs_remove_conn)

lemma count_list_fst: "i \<notin> fst ` set xs \<Longrightarrow> count_list xs (i, r) = 0"
  by (induction xs) auto

lemma end_inv:
  assumes "host_inv L (w, ths)" "map_of ths c = Some th"
  shows "host_inv L (connection_end th w, AList.delete c ths)"
proof -
  have cs: "ct_cs th = c" using assms by (auto simp: host_inv_def threads_ok_def)
  have topics: "n_subs d r (topic_subs i (w_topics (connection_end th w)))
      = (if d = c \<and> i \<in> fst ` set (ct_subs th) then 0 else n_subs d r (topic_subs i (w_topics w)))" for d r i
    by (simp add: connection_end_def close_conn_def Let_def n_subs_detach cs)
  have fr: "w_host (connection_end th w) = w_host w" "w_accepted (connection_end th w) = w_accepted w" "w_next (connection_end th w) = w_next w"
    by (simp_all add: connection_end_def close_conn_def Let_def)
  have "n_subs d r (topic_subs i (w_topics (connection_end th w))) \<le> recorded (AList.delete c ths) d i r" for d r i
  proof -
    have "n_subs d r (topic_subs i (w_topics w)) \<le> recorded ths d i r" using assms(1) by (simp add: host_inv_def subs_recorded_def)
    with assms(2) topics [of d r i] count_list_fst [of i "ct_subs th" r] show ?thesis
      by (cases "d = c") (auto simp: recorded_def delete_conv' split: if_splits)
  qed
  with assms fr show ?thesis by (auto simp: host_inv_def subs_recorded_def threads_ok_def numbers_ok_def delete_conv')
qed

lemma setup_frame:
  assumes "connection_setup S g c t i w = (Ret r, w')"
  shows "w_topics w' = w_topics w \<and> w_accepted w' = AList.delete c (w_accepted w) \<and> w_next w' = w_next w
    \<and> h_handlers (w_host w') = h_handlers (w_host w) \<and> h_limits (w_host w') = h_limits (w_host w)
    \<and> (\<forall>th. r = Some th \<longrightarrow> ct_cs th = c \<and> ct_subs th = [])"
  using assms unfolding connection_setup_def Let_def by (auto split: prod.splits if_splits ex.splits option.splits)

lemma setup_inv:
  assumes "host_inv L (w, ths)" "map_of (w_accepted w) c = Some t" "connection_setup S g c t i w = (Ret r, w')"
  shows "host_inv L (w', case r of None \<Rightarrow> ths | Some th \<Rightarrow> AList.update c th ths)"
proof -
  note f = setup_frame [OF assms(3)]
  have n: "map_of ths c = None" "c < w_next w" using assms(1,2) by (auto simp: host_inv_def numbers_ok_def)
  have "host_inv L (w', ths)"
    using assms(1) f by (auto simp: host_inv_def subs_recorded_def numbers_ok_def names_ok_def delete_conv' split: if_splits)
  then show ?thesis
  proof (cases r)
    case (Some th)
    have "recorded (AList.update c th ths) d j q = recorded ths d j q" for d j q
      using n(1) f Some unfolding recorded_update by (auto simp: recorded_def)
    with \<open>host_inv L (w', ths)\<close> n f Some assms(1,2) show ?thesis
      by (auto simp: host_inv_def subs_recorded_def threads_ok_def numbers_ok_def update_conv' delete_conv' split: if_splits)
  qed simp
qed

lemma accept_inv:
  assumes "host_inv L (w, ths)" "accept_turn r w = (go_on, w')"
  shows "host_inv L (w', ths)"
proof -
  have n: "map_of ths (w_next w) = None" "map_of (w_accepted w) (w_next w) = None"
    using assms(1) by (fastforce simp: host_inv_def numbers_ok_def)+
  with assms show ?thesis
    by (auto simp: accept_turn_def Let_def host_inv_def subs_recorded_def numbers_ok_def names_ok_def map_add_Some_iff less_SucI
        split: if_splits option.splits prod.splits)
qed

lemma topic_inv:
  "host_inv L (w, ths) \<Longrightarrow> expose_topic_policy ep a w = (r, w') \<Longrightarrow> host_inv L (w', ths)"
  by (auto simp: expose_topic_policy_def Let_def host_inv_def subs_recorded_def numbers_ok_def names_ok_def set_entry_def update_conv' less_SucI
      split: ex.splits if_splits)

lemma map_of_close: "map_of (map (\<lambda>(d, t). (d, if d = c then transport_close t else t)) xs) e
   = map_option (\<lambda>t. if e = c then transport_close t else t) (map_of xs e)"
  by (induction xs) auto

lemma close_live_inv: "host_inv L (w, ths) \<Longrightarrow> host_inv L (close_live c w, ths)"
  by (auto simp: close_live_def close_conn_def host_inv_def subs_recorded_def numbers_ok_def map_of_close)

lemma close_listener_inv: "host_inv L (w, ths) \<Longrightarrow> host_inv L (close_listener w, ths)"
  by (auto simp: close_listener_def host_inv_def subs_recorded_def numbers_ok_def names_ok_def split: option.splits prod.splits)

lemma publish_inv:
  assumes "host_inv L (w, ths)" "handle_publish S h m (w_topics w) (w_conns w) = (n, topics', conns')"
  shows "host_inv L (w\<lparr>w_topics := topics', w_conns := conns'\<rparr>, ths)"
proof (cases h)
  case None
  with assms show ?thesis by (intro host_inv_frame [OF assms(1)]) (auto simp: handle_publish_def)
next
  case (Some k)
  obtain subs1 d conns1 where p: "topic_publish S m (topic_subs k (w_topics w)) (w_conns w) = (subs1, d, conns1)" using prod_cases3 by blast
  with Some assms(2) have "topics' = AList.update k subs1 (w_topics w)" by (simp add: handle_publish_def topic_subs_def)
  then show ?thesis using n_subs_publish [OF p] by (intro host_inv_shrink [OF assms(1)]) auto
qed

lemma host_step_inv: "host_step S g st st' \<Longrightarrow> host_inv L st \<Longrightarrow> host_inv L st'"
proof (induction rule: host_step.induct)
  case (leave ths c th i w th' w')
  have "host_inv L (w', AList.update c th' ths)" using turn_inv [OF leave.prems leave.hyps] by simp
  from end_inv [OF this, of c th'] show ?case by (simp add: update_conv' delete_update_same)
next
  case (turn ths c th i w th' w')
  then show ?case using turn_inv [OF turn.prems turn.hyps] by simp
next
  case (heartbeat now lb w lb' w' ths)
  then show ?case using fold_shrinks [OF shrinks_heartbeat]
    by (auto simp: heartbeat_turn_def intro!: host_inv_shrink [OF heartbeat.prems] split: if_splits)
next
  case (closing_topics w ths)
  then show ?case using fold_shrinks [OF shrinks_close] by (auto simp: close_topics_def intro!: host_inv_shrink [OF closing_topics])
next
  case (configure w H' ths)
  then show ?case using configures_ok [OF configure.hyps] by (auto simp: host_inv_def subs_recorded_def numbers_ok_def)
qed (auto intro: setup_inv accept_inv topic_inv close_live_inv close_listener_inv publish_inv elim: host_inv_frame)

lemma host_reaches_inv:
  assumes "host_reaches S g w0 st" "host_inv L (w0, [])"
  shows "host_inv L st"
  using assms unfolding host_reaches_def by (induction rule: rtranclp_induct) (auto dest: host_step_inv)

section \<open>Shutting down\<close>

lemma closed_handshake:
  "pt_fd t < 0 \<Longrightarrow> server_handshake S g t self name tr st r n = (Ret None, t, st)"
proof -
  assume "pt_fd t < 0"
  then have "recv_all t 4 = (False, [], t)" unfolding recv_all_def by (subst recv_loop.simps) (simp add: sys_recv_def)
  then show ?thesis by (simp add: server_handshake_def read_frame_def)
qed

lemma setup_closed:
  assumes "pt_fd t < 0"
  shows "\<exists>w'. connection_setup S g c t i w = (Ret None, w') \<and> w_conns w' = w_conns w \<and> w_calls w' = w_calls w
    \<and> w_topics w' = w_topics w \<and> h_running (w_host w') = h_running (w_host w) \<and> h_after_stop_hooks (w_host w') = h_after_stop_hooks (w_host w)"
proof -
  have "set_recv_timeout t m rc = (False, t)" for m rc using assms by (simp add: set_recv_timeout_def)
  then show ?thesis
    by (simp add: connection_setup_def Let_def closed_handshake [OF assms] split: prod.splits)
qed

text \<open>What the later steps of \<open>stop\<close> must not undo.\<close>

definition downed :: "nat set \<Rightarrow> nat set \<Rightarrow> call list \<Rightarrow> nat option list \<Rightarrow> world \<Rightarrow> bool" where
  "downed topics conns calls hooks w \<longleftrightarrow> \<not> h_running (w_host w) \<and> (\<forall>i \<in> topics. topic_subs i (w_topics w) = [])
     \<and> (\<forall>c \<in> conns. \<forall>cs. map_of (w_conns w) c = Some cs \<longrightarrow> pt_fd (cs_t cs) < 0)
     \<and> w_calls w = calls \<and> h_after_stop_hooks (w_host w) = hooks"

lemma downed_setup: "downed T C calls hooks w \<Longrightarrow> pt_fd t < 0 \<Longrightarrow> downed T C calls hooks (snd (connection_setup S g c t i w))"
  using setup_closed [of t S g c i w] by (auto simp: downed_def)

lemma downed_setups:
  "downed T C calls hooks w \<Longrightarrow> \<forall>(c, t) \<in> set ts. pt_fd t < 0 \<Longrightarrow>
   downed T C calls hooks (fold (\<lambda>(c, t) w. snd (connection_setup S g c t (ins c) w)) ts w)"
  by (induction ts arbitrary: w) (auto simp: downed_setup)

lemma fold_on_topic_empty:
  "topic_subs i (w_topics w) = [] \<Longrightarrow> topic_subs i (w_topics (fold (\<lambda>(j, _). on_topic j (topic_remove_conn c)) xs w)) = []"
proof (induction xs arbitrary: w)
  case (Cons x xs)
  have "topic_subs i (w_topics (on_topic (fst x) (topic_remove_conn c) w)) = []"
    using Cons.prems by (cases "i = fst x") (auto simp: on_topic_def topic_remove_conn_def)
  from Cons.IH [OF this] show ?case by (simp add: case_prod_beta)
qed simp

lemma transport_close_fd: "pt_fd (transport_close t) < 0"
  by (simp add: transport_close_def)

lemma fold_on_topic_calls [simp]: "w_calls (fold (\<lambda>(j, _). on_topic j f) xs w) = w_calls w"
  by (induction xs arbitrary: w) auto

lemma downed_end: "downed T C calls hooks w \<Longrightarrow> downed T C calls hooks (connection_end th w)"
  by (auto simp: downed_def connection_end_def close_conn_def Let_def w_send_conn fold_on_topic_empty transport_close_def split: if_splits)

lemma downed_ends: "downed T C calls hooks w \<Longrightarrow> downed T C calls hooks (fold connection_end ths w)"
  by (induction ths arbitrary: w) (auto simp: downed_end)

lemma run_hooks_frame:
  "w_calls (run_hooks hs w) = w_calls w @ map HookCall (List.map_filter id hs)" "w_host (run_hooks hs w) = w_host w"
  "w_conns (run_hooks hs w) = w_conns w" "w_topics (run_hooks hs w) = w_topics w" "w_accepted (run_hooks hs w) = w_accepted w"
  "w_accept_thread (run_hooks hs w) = w_accept_thread w" "w_heartbeat_thread (run_hooks hs w) = w_heartbeat_thread w"
  by (induction hs arbitrary: w) (auto simp: run_hooks_def map_filter_def log_call_def split: option.splits)

lemma close_topics_empty:
  "i \<in> set is \<or> topic_subs i (w_topics w) = [] \<Longrightarrow> topic_subs i (w_topics (fold (\<lambda>i. on_topic_conns i (topic_close_all S)) is w)) = []"
proof (induction "is" arbitrary: w)
  case (Cons j js)
  have "topic_subs i (w_topics (on_topic_conns j (topic_close_all S) w)) = (if i = j then [] else topic_subs i (w_topics w))"
    by (auto simp: on_topic_conns_def dest: n_subs_close split: prod.splits)
  with Cons show ?case by auto
qed simp

lemma close_live_frame:
  "w_host (close_live c w) = w_host w" "w_topics (close_live c w) = w_topics w" "w_calls (close_live c w) = w_calls w"
  by (simp_all add: close_live_def close_conn_def)

lemma fold_close_live_frame:
  "w_host (fold close_live xs w) = w_host w" "w_topics (fold close_live xs w) = w_topics w" "w_calls (fold close_live xs w) = w_calls w"
  by (induction xs arbitrary: w) (auto simp: close_live_frame)

lemma close_live_conns:
  "map_of (w_conns (close_live c w)) d = map_option (\<lambda>cs. if d = c then cs\<lparr>cs_t := transport_close (cs_t cs)\<rparr> else cs) (map_of (w_conns w) d)"
  by (auto simp: close_live_def close_conn_def w_send_conn option.map_ident)

definition fd_closed :: "nat \<Rightarrow> world \<Rightarrow> bool" where
  "fd_closed d w \<longleftrightarrow> (\<forall>cs. map_of (w_conns w) d = Some cs \<longrightarrow> pt_fd (cs_t cs) < 0)
     \<and> (\<forall>t. (d, t) \<in> set (w_accepted w) \<longrightarrow> pt_fd t < 0)"

lemma fd_closed_step:
  assumes "d = c \<or> fd_closed d w"
  shows "fd_closed d (close_live c w)"
  unfolding fd_closed_def
proof (intro conjI allI impI)
  fix cs assume a: "map_of (w_conns (close_live c w)) d = Some cs"
  show "pt_fd (cs_t cs) < 0"
  proof (cases "map_of (w_conns w) d")
    case (Some z)
    with a have "(if d = c then z\<lparr>cs_t := transport_close (cs_t z)\<rparr> else z) = cs" unfolding close_live_conns by simp
    from this [symmetric] Some assms show ?thesis by (cases "d = c") (simp_all add: transport_close_fd fd_closed_def)
  qed (use a in \<open>simp add: close_live_conns\<close>)
next
  fix t assume "(d, t) \<in> set (w_accepted (close_live c w))"
  with assms show "pt_fd t < 0" by (auto simp: close_live_def close_conn_def transport_close_fd fd_closed_def split: if_splits)
qed

lemma fold_close_live_closed: "d \<in> set xs \<or> fd_closed d w \<Longrightarrow> fd_closed d (fold close_live xs w)"
  by (induction xs arbitrary: w) (auto simp: fd_closed_step)

lemma close_live_keys: "fst ` set (w_accepted (fold close_live xs w)) = fst ` set (w_accepted w)"
proof (induction xs arbitrary: w)
  case (Cons x xs)
  have "map fst (w_accepted (close_live x w)) = map fst (w_accepted w)"
    by (simp add: close_live_def close_conn_def comp_def case_prod_beta)
  then show ?case using Cons.IH [of "close_live x w"] by (simp flip: set_map)
qed simp

lemma close_listener_frame:
  "w_topics (close_listener w) = w_topics w" "w_conns (close_listener w) = w_conns w" "w_calls (close_listener w) = w_calls w"
  "w_accepted (close_listener w) = w_accepted w" "h_running (w_host (close_listener w)) = h_running (w_host w)"
  "h_live_conns (w_host (close_listener w)) = h_live_conns (w_host w)" "h_after_stop_hooks (w_host (close_listener w)) = h_after_stop_hooks (w_host w)"
  by (auto simp: close_listener_def split: option.splits prod.splits)

text \<open>The state in which \<open>stop\<close> begins to wait for the connection threads.\<close>

definition stopping :: "sodium \<Rightarrow> world \<Rightarrow> world" where
  "stopping S w =
     (let w2 = run_hooks (h_before_stop_hooks (w_host w)) (w\<lparr>w_host := (w_host w)\<lparr>h_running := False\<rparr>\<rparr>);
          w4 = close_listener ((close_topics S w2)\<lparr>w_heartbeat_thread := False\<rparr>)
      in (fold close_live (h_live_conns (w_host w4)) w4)\<lparr>w_accept_thread := False\<rparr>)"

lemma stop_eq:
  "h_running (w_host w) \<Longrightarrow> stop S g ins ths w =
     (let w6 = join_conn_threads S g ins ths (stopping S w);
          w7 = set_os (unpublish (h_service_name (w_host w6)) (w_os w6)) w6
      in run_hooks (h_after_stop_hooks (w_host w7)) w7)"
  by (simp add: stop_def stopping_def Let_def)

lemma stopping_downed:
  fixes w :: world
  defines "T \<equiv> snd ` set (h_topics (w_host w))" and "C \<equiv> set (h_live_conns (w_host w))"
  assumes "fst ` set (w_accepted w) \<subseteq> C"
  shows "downed T C (w_calls w @ map HookCall (List.map_filter id (h_before_stop_hooks (w_host w)))) (h_after_stop_hooks (w_host w)) (stopping S w)"
    and "\<forall>(c, t) \<in> set (w_accepted (stopping S w)). pt_fd t < 0"
proof -
  let ?w2 = "run_hooks (h_before_stop_hooks (w_host w)) (w\<lparr>w_host := (w_host w)\<lparr>h_running := False\<rparr>\<rparr>)"
  let ?w4 = "close_listener ((close_topics S ?w2)\<lparr>w_heartbeat_thread := False\<rparr>)"
  let ?w5 = "fold close_live (h_live_conns (w_host ?w4)) ?w4"
  have live: "h_live_conns (w_host ?w4) = h_live_conns (w_host w)"
    by (simp add: close_listener_frame close_topics_def run_hooks_frame)
  have st: "stopping S w = ?w5\<lparr>w_accept_thread := False\<rparr>" by (simp add: stopping_def Let_def)
  have topics: "topic_subs i (w_topics (stopping S w)) = []" if "i \<in> T" for i
    unfolding st using close_topics_empty [of i "map snd (h_topics (w_host w))"] that
    by (simp add: fold_close_live_frame close_listener_frame close_topics_def run_hooks_frame T_def)
  have closed: "fd_closed c ?w5" if "c \<in> C" for c
    using fold_close_live_closed [of c "h_live_conns (w_host ?w4)" ?w4] that live by (simp add: C_def)
  show "downed T C (w_calls w @ map HookCall (List.map_filter id (h_before_stop_hooks (w_host w)))) (h_after_stop_hooks (w_host w)) (stopping S w)"
    unfolding downed_def using topics closed
    by (auto simp: st fd_closed_def fold_close_live_frame close_listener_frame close_topics_def run_hooks_frame)
  have "fst ` set (w_accepted ?w5) \<subseteq> C"
    using assms(3) close_live_keys [of "h_live_conns (w_host ?w4)" ?w4] by (simp add: close_listener_frame close_topics_def run_hooks_frame)
  with closed show "\<forall>(c, t) \<in> set (w_accepted (stopping S w)). pt_fd t < 0"
    unfolding st fd_closed_def by (fastforce simp: image_subset_iff)
qed

section \<open>Properties\<close>

text \<open>C10: Whatever the interleaving of connections, publications, heartbeats, configuration calls and network
  events: a subscriber of a topic always belongs to a connection whose thread is still running and
  has the subscription on its own list, so a connection that ended is in no topic; no connection has
  more subscriptions than the limit allows; and no application endpoint has a name reserved for the
  protocol.\<close>

theorem subscribers_have_live_connections:
  assumes "host_reaches S g w0 (w, ths)"
    and "w_topics w0 = []" "w_accepted w0 = []" "h_handlers (w_host w0) = []"
  shows "(\<forall>i s. s \<in> set (topic_subs i (w_topics w)) \<longrightarrow>
      (\<exists>th. map_of ths (sub_cs s) = Some th \<and> (i, sub_request_id s) \<in> set (ct_subs th)))
    \<and> (\<forall>c th. map_of ths c = Some th \<and> max_subscriptions (h_limits (w_host w0)) > 0 \<longrightarrow>
      length (ct_subs th) \<le> unat (max_subscriptions (h_limits (w_host w0))))
    \<and> (\<forall>ep e. map_of (h_handlers (w_host w)) ep = Some e \<longrightarrow> \<not> prefix kReservedPrefix ep)"
proof -
  have "host_inv (h_limits (w_host w0)) (w0, [])"
    using assms(2-4) by (simp add: host_inv_def subs_recorded_def threads_ok_def numbers_ok_def names_ok_def topic_subs_def)
  with assms(1) have inv: "host_inv (h_limits (w_host w0)) (w, ths)" by (rule host_reaches_inv)
  have "\<exists>th. map_of ths (sub_cs s) = Some th \<and> (i, sub_request_id s) \<in> set (ct_subs th)" if "s \<in> set (topic_subs i (w_topics w))" for i s
  proof -
    have "0 < n_subs (sub_cs s) (sub_request_id s) (topic_subs i (w_topics w))"
      using that by (auto simp: n_subs_def length_greater_0_conv filter_empty_conv)
    also have "\<dots> \<le> recorded ths (sub_cs s) i (sub_request_id s)" using inv by (simp add: host_inv_def subs_recorded_def)
    finally show ?thesis by (auto simp: recorded_def split: option.splits) (metis count_notin less_irrefl)
  qed
  moreover have "\<not> prefix kReservedPrefix ep" if "map_of (h_handlers (w_host w)) ep = Some e" for ep e
  proof -
    have "check_endpoint_name ep = Ret ()" using inv that by (auto simp: host_inv_def names_ok_def)
    then show ?thesis by (auto simp: check_endpoint_name_def prefix_def split: if_splits)
  qed
  ultimately show ?thesis using inv by (auto simp: host_inv_def threads_ok_def)
qed

text \<open>C18: \<open>stop\<close> shuts a running host down: the flag is cleared, the host's topics have no subscribers, the
  transport of every connection it ever accepted is closed, and exactly the hooks ran, those registered
  with \<open>before_stop\<close> before those registered with \<open>after_stop\<close>, each group in the order of registration.
  A host that does not run is left alone.\<close>

theorem stop_shuts_down:
  assumes "fst ` set (w_accepted w) \<subseteq> set (h_live_conns (w_host w))"
  shows "if h_running (w_host w)
    then (let w' = stop S g ins ths w in
      stopped (w_host w')
      \<and> (\<forall>name i. (name, i) \<in> set (h_topics (w_host w)) \<longrightarrow> topic_subs i (w_topics w') = [])
      \<and> (\<forall>c cs. c \<in> set (h_live_conns (w_host w)) \<and> map_of (w_conns w') c = Some cs \<longrightarrow> pt_fd (cs_t cs) < 0)
      \<and> w_calls w' = w_calls w @ map HookCall (List.map_filter id (h_before_stop_hooks (w_host w)))
          @ map HookCall (List.map_filter id (h_after_stop_hooks (w_host w))))
    else stop S g ins ths w = w"
proof (cases "h_running (w_host w)")
  case True
  let ?w6 = "join_conn_threads S g ins ths (stopping S w)"
  have "downed (snd ` set (h_topics (w_host w))) (set (h_live_conns (w_host w)))
      (w_calls w @ map HookCall (List.map_filter id (h_before_stop_hooks (w_host w)))) (h_after_stop_hooks (w_host w)) ?w6"
    unfolding join_conn_threads_def Let_def
    using stopping_downed [OF assms] by (intro downed_ends downed_setups)
  with True show ?thesis
    by (auto simp: stop_eq Let_def run_hooks_frame downed_def stopped_def image_iff)
qed (simp add: stop_def)

text \<open>The overloads of \<open>expose\<close> without a policy first install the endpoint open to everyone and restore the
  host's default in a second critical section. A call that arrives in between is allowed whatever the
  default is, and the connection that made it keeps the permission.\<close>

theorem expose_is_briefly_open:
  assumes "\<not> prefix kReservedPrefix ep" "kind = KReceive \<or> kind = KSend"
  shows "\<exists>H1 e. expose_policy kind ep h AccessPolicy_init H = (Ret (), H1)
    \<and> expose kind ep h H = (Ret (), reset_access ep H1) \<and> map_of (h_handlers H1) ep = Some e
    \<and> (\<forall>peer now s. \<exists>cache. authorize H1 peer ep (entry_access H1 e) now [] s = (Ret True, cache, s)
        \<and> (\<forall>H2 pol later s'. fst (authorize H2 peer ep pol later cache s') = Ret True))"
proof -
  have "take (length kReservedPrefix) ep \<noteq> kReservedPrefix" using assms(1) by (metis take_is_prefix)
  then have "check_endpoint_name ep = Ret ()" by (simp add: check_endpoint_name_def)
  with assms(2) show ?thesis
    by (auto simp: expose_def expose_policy_def then_reset_def set_entry_def update_conv' entry_access_def authorize_def
        authorize_fresh_def AccessPolicy_init_def)
qed

section \<open>Instances\<close>

definition blank_world :: world where
  "blank_world = (demo_world [])\<lparr>w_host := HostImpl_init ''notes'' (toy_identity [2]) AllowAll, w_conns := []\<rparr>"

theorem subscribers_have_live_connections_witness:
  "\<exists>w. host_reaches toy_sodium wire_globals_init blank_world (w, []) \<and> find_topic ''news'' (w_host w) = Some 2
     \<and> topic_subs 2 (w_topics w) = [] \<and> (\<forall>ep e. map_of (h_handlers (w_host w)) ep = Some e \<longrightarrow> \<not> prefix kReservedPrefix ep)"
proof -
  obtain r w where e: "expose_topic_policy ''news'' AccessPolicy_init blank_world = (r, w)" by fastforce
  then have w: "find_topic ''news'' (w_host w) = Some 2" "topic_subs 2 (w_topics w) = []"
    by (auto simp: expose_topic_policy_def check_endpoint_name_def kReservedPrefix_def blank_world_def demo_world_def HostImpl_init_def
        set_entry_def find_topic_def topic_subs_def)
  have r: "host_reaches toy_sodium wire_globals_init blank_world (w, [])"
    unfolding host_reaches_def by (rule r_into_rtranclp) (rule host_step.topic [OF e])
  from subscribers_have_live_connections [OF r] w r show ?thesis by (auto simp: blank_world_def demo_world_def HostImpl_init_def)
qed

definition demo_setup :: setup_in where
  "demo_setup = \<lparr>si_admit_time = 0, si_ephemeral = [], si_nonce = [], si_bucket_time = 0, si_sockopts = (0, 0, 0)\<rparr>"

definition hooked_world :: world where
  "hooked_world = (demo_world [])\<lparr>w_host := before_stop (Some 7) (after_stop (Some 8) ((w_host (demo_world []))\<lparr>h_live_conns := [1]\<rparr>))\<rparr>"

theorem stop_shuts_down_witness:
  "stopped (w_host (stop toy_sodium wire_globals_init (\<lambda>_. demo_setup) [demo_thread] hooked_world))
   \<and> w_calls (stop toy_sodium wire_globals_init (\<lambda>_. demo_setup) [demo_thread] hooked_world) = [HookCall 7, HookCall 8]"
proof -
  have "fst ` set (w_accepted hooked_world) \<subseteq> set (h_live_conns (w_host hooked_world))" "h_running (w_host hooked_world)"
    by (simp_all add: hooked_world_def demo_world_def before_stop_def after_stop_def)
  from stop_shuts_down [OF this(1), of toy_sodium wire_globals_init "\<lambda>_. demo_setup" "[demo_thread]"] this(2) show ?thesis
    by (simp add: hooked_world_def demo_world_def before_stop_def after_stop_def demo_host_def HostImpl_init_def Let_def map_filter_def)
qed

theorem expose_is_briefly_open_witness:
  "\<exists>H1 e. expose KSend ''write'' None demo_host = (Ret (), reset_access ''write'' H1) \<and> map_of (h_handlers H1) ''write'' = Some e
     \<and> (\<exists>cache. authorize H1 demo_peer ''write'' (entry_access H1 e) 0 [] demo_os = (Ret True, cache, demo_os))"
  using expose_is_briefly_open [of "''write''" KSend None demo_host] by (fastforce simp: kReservedPrefix_def)

end
