(* ===== verification/Epx_Client.thy ===== *)
theory Epx_Client
  imports Epx_Session Epx_Registry Epx_Listen
begin

text \<open>
  The client (\<^verbatim>\<open>src/client.cpp\<close>: \<open>Client::Impl\<close>, the methods of \<open>Client\<close>, \<open>OutputStream\<close> and \<open>Subscription\<close>). The
  world of a client holds its state, the network and file system, its connections by number, the
  receive state of every reader thread that is still in its loop, and a log of the calls to the
  application's callbacks. A call that waits is given what the other threads do meanwhile as a
  function on the world. Clocks, random bytes, the bytes that arrive at a new socket and results of
  \<open>setsockopt\<close> are inputs.
\<close>

section \<open>State\<close>

record ClientImpl =
  cl_identity :: Identity
  cl_policy :: TrustPolicy
  cl_stream_write_timeout_ms :: int
  cl_rotation_policy :: RotationPolicy
  cl_allowed_peers :: "PublicKey set"
  cl_conns :: "(string \<times> nat) list"

datatype callback_call = CallbackCall nat bytes bool

text \<open>
  \<open>cw_rx\<close> has an entry for each reader thread in its loop; \<open>cw_joined\<close> lists the reader threads that were
  joined; \<open>cw_handles\<close> lists the connections that streams and subscriptions refer to;
  \<open>cw_active\<close> holds the shared flags of subscriptions.
\<close>

record cworld =
  cw_impl :: ClientImpl
  cw_net :: net
  cw_store :: "(nat \<times> Connection) list"
  cw_rx :: "(nat \<times> RxState) list"
  cw_joined :: "nat list"
  cw_handles :: "nat list"
  cw_active :: "(nat \<times> bool) list"
  cw_next :: nat
  cw_calls :: "callback_call list"

definition cw_os :: "cworld \<Rightarrow> os" where "cw_os w = net_os (cw_net w)"

definition set_cw_os :: "os \<Rightarrow> cworld \<Rightarrow> cworld" where
  "set_cw_os s w = w\<lparr>cw_net := (cw_net w)\<lparr>net_os := s\<rparr>\<rparr>"

definition ClientImpl_init :: "Identity \<Rightarrow> TrustPolicy \<Rightarrow> ClientImpl" where
  "ClientImpl_init ident pol = \<lparr>cl_identity = ident, cl_policy = pol, cl_stream_write_timeout_ms = 0,
     cl_rotation_policy = \<lparr>rot_interval = 0, rot_max_bytes = 0\<rparr>, cl_allowed_peers = {}, cl_conns = []\<rparr>"

definition on_connection :: "nat \<Rightarrow> (Connection \<Rightarrow> Connection) \<Rightarrow> cworld \<Rightarrow> cworld" where
  "on_connection c f w =
     (case map_of (cw_store w) c of None \<Rightarrow> w | Some conn \<Rightarrow> w\<lparr>cw_store := AList.update c (f conn) (cw_store w)\<rparr>)"

definition set_sink :: "u64 \<Rightarrow> StreamSink \<Rightarrow> Connection \<Rightarrow> Connection" where
  "set_sink rid k conn = conn\<lparr>conn_stream_sinks := AList.update rid k (conn_stream_sinks conn)\<rparr>"

definition erase_sink :: "u64 \<Rightarrow> Connection \<Rightarrow> Connection" where
  "erase_sink rid conn = conn\<lparr>conn_stream_sinks := AList.delete rid (conn_stream_sinks conn)\<rparr>"

definition set_pending :: "u64 \<Rightarrow> ResponsePayload option \<Rightarrow> Connection \<Rightarrow> Connection" where
  "set_pending rid r conn = conn\<lparr>conn_pending := AList.update rid r (conn_pending conn)\<rparr>"

definition erase_pending :: "u64 \<Rightarrow> Connection \<Rightarrow> Connection" where
  "erase_pending rid conn = conn\<lparr>conn_pending := AList.delete rid (conn_pending conn)\<rparr>"

text \<open>Calling a sink's callback: the application's function, and for a subscription its wrapper.\<close>

fun invoke :: "Callback \<Rightarrow> bytes \<Rightarrow> bool \<Rightarrow> cworld \<Rightarrow> cworld" where
  "invoke (StreamCb n) dat is_last w = w\<lparr>cw_calls := cw_calls w @ [CallbackCall n dat is_last]\<rparr>"
| "invoke (SubscriptionCb flag cb) dat closed w =
     (let w1 = (if closed then w\<lparr>cw_active := AList.update flag False (cw_active w)\<rparr> else w)
      in case cb of Some n \<Rightarrow> w1\<lparr>cw_calls := cw_calls w1 @ [CallbackCall n dat closed]\<rparr> | None \<Rightarrow> w1)"

section \<open>Trust\<close>

definition is_client_side_trusted :: "TrustPolicy \<Rightarrow> string \<Rightarrow> Entry \<Rightarrow> PublicKey set \<Rightarrow> os \<Rightarrow> PublicKey \<Rightarrow> bool" where
  "is_client_side_trusted p target_service entry allowed s claimed =
     (if claimed \<noteq> en_identity_pubkey entry then False
      else case p of
        AllowAll \<Rightarrow> True
      | RequireKnownPeer \<Rightarrow> claimed \<in> allowed
      | TrustOnFirstUse \<Rightarrow>
          (case load_pinned_peer target_service s of Some pinned \<Rightarrow> pinned = claimed | None \<Rightarrow> True))"

section \<open>The reader thread\<close>

datatype reader_result = RAgain | RStop | RRaise exn

definition deliver_chunk :: "nat \<Rightarrow> bytes \<Rightarrow> cworld \<Rightarrow> reader_result \<times> cworld" where
  "deliver_chunk c opened w =
     (case accepted (decode_stream_chunk opened) of
        None \<Rightarrow> (RStop, w)
      | Some chunk \<Rightarrow>
          (case map_of (cw_store w) c of
             None \<Rightarrow> (RStop, w)
           | Some conn \<Rightarrow>
               (case map_of (conn_stream_sinks conn) (chunk_request_id chunk) of
                  None \<Rightarrow> (RAgain, w)
                | Some k \<Rightarrow>
                    (let k1 = k\<lparr>sink_activity := sink_activity k + 1, sink_done := sink_done k \<or> chunk_is_last chunk\<rparr>;
                         w1 = on_connection c (set_sink (chunk_request_id chunk) k1) w;
                         w2 = (case sink_callback k of Some cb \<Rightarrow> invoke cb (chunk_data chunk) (chunk_is_last chunk) w1 | None \<Rightarrow> w1)
                     in (RAgain, if chunk_is_last chunk \<and> sink_subscription k
                                 then on_connection c (erase_sink (chunk_request_id chunk)) w2 else w2)))))"

definition deliver_response :: "nat \<Rightarrow> bytes \<Rightarrow> cworld \<Rightarrow> reader_result \<times> cworld" where
  "deliver_response c opened w =
     (case accepted (decode_response opened) of
        None \<Rightarrow> (RStop, w)
      | Some resp \<Rightarrow>
          (let rid = resp_request_id resp in
           case map_of (cw_store w) c of
             None \<Rightarrow> (RStop, w)
           | Some conn \<Rightarrow>
               if map_of (conn_pending conn) rid \<noteq> None
               then (RAgain, on_connection c (set_pending rid (Some resp)) w)
               else
                 (case map_of (conn_stream_sinks conn) rid of
                    None \<Rightarrow> (RAgain, w)
                  | Some k \<Rightarrow>
                      (let k1 = k\<lparr>sink_failed := True, sink_fail_status := resp_status resp,
                                 sink_fail_message := string_of_bytes (resp_data resp), sink_done := True\<rparr>
                       in if sink_subscription k
                          then (let w1 = on_connection c (erase_sink rid) w
                                in (RAgain, case sink_callback k of Some cb \<Rightarrow> invoke cb [] True w1 | None \<Rightarrow> w1))
                          else (RAgain, on_connection c (set_sink rid k1) w)))))"

definition record_death :: "nat \<Rightarrow> bytes \<Rightarrow> cworld \<Rightarrow> cworld" where
  "record_death c opened w =
     (case accepted (decode_error opened) of
        Some err \<Rightarrow> on_connection c (\<lambda>conn. conn\<lparr>conn_death_message := err_message err, conn_death_reason := err_reason err\<rparr>) w
      | None \<Rightarrow> w)"

definition reader_turn :: "sodium \<Rightarrow> int \<Rightarrow> nat \<Rightarrow> cworld \<Rightarrow> reader_result \<times> cworld" where
  "reader_turn S now c w =
     (case (map_of (cw_store w) c, map_of (cw_rx w) c) of
        (Some conn, Some rx) \<Rightarrow>
          if \<not> conn_alive conn then (RStop, w)
          else
            (case client_recv S conn rx now of
               (ev, conn1, rx1) \<Rightarrow>
                 (let w1 = w\<lparr>cw_store := AList.update c conn1 (cw_store w), cw_rx := AList.update c rx1 (cw_rx w)\<rparr>
                  in case ev of
                       CAgain \<Rightarrow> (RAgain, w1)
                     | CStop \<Rightarrow> (RStop, w1)
                     | CThrow e \<Rightarrow> (RRaise e, w1)
                     | CError opened \<Rightarrow> (RStop, record_death c opened w1)
                     | CChunk opened \<Rightarrow> deliver_chunk c opened w1
                     | CResponse opened \<Rightarrow> deliver_response c opened w1))
      | _ \<Rightarrow> (RStop, w))"

text \<open>The reader on its way out; waking the waiting calls has no effect on the state.\<close>

definition reader_exit :: "nat \<Rightarrow> cworld \<Rightarrow> cworld" where
  "reader_exit c w =
     (case map_of (cw_store w) c of
        None \<Rightarrow> w
      | Some conn \<Rightarrow>
          (let (subs, others) = partition (\<lambda>(rid, k). sink_subscription k) (conn_stream_sinks conn);
               closed_cbs = List.map_filter (\<lambda>(rid, k). sink_callback k) subs;
               w1 = on_connection c (\<lambda>conn. conn\<lparr>conn_alive := False, conn_stream_sinks := others\<rparr>) w
           in (fold (\<lambda>cb. invoke cb [] True) closed_cbs w1)\<lparr>cw_rx := AList.delete c (cw_rx w)\<rparr>))"

fun reader_loop :: "sodium \<Rightarrow> int list \<Rightarrow> nat \<Rightarrow> cworld \<Rightarrow> unit ex \<times> cworld" where
  "reader_loop S [] c w = (Ret (), w)"
| "reader_loop S (now # clock) c w =
     (case reader_turn S now c w of
        (RAgain, w1) \<Rightarrow> reader_loop S clock c w1
      | (RStop, w1) \<Rightarrow> (Ret (), reader_exit c w1)
      | (RRaise e, w1) \<Rightarrow> (Throw e, w1))"

section \<open>Connecting\<close>

record connect_in =
  ci_ephemeral :: bytes
  ci_nonce :: bytes
  ci_now :: int
  ci_arriving :: bytes
  ci_sockopts :: "int \<times> int \<times> int"

text \<open>The part after the handshake: the connection object, its reader thread and its place in the table. The
  table's reference to an earlier connection of the same name is dropped.\<close>

definition install_connection :: "string \<Rightarrow> PosixTransport \<Rightarrow> HsResult \<Rightarrow> int \<Rightarrow> cworld \<Rightarrow> nat \<times> cworld" where
  "install_connection target_service t hs now w =
     (let c = cw_next w; I = cw_impl w;
          conn = Connection_init t (hs_keys hs) (hs_version hs) (cl_rotation_policy I) now
      in (c, w\<lparr>cw_next := c + 1, cw_store := AList.update c conn (cw_store w),
               cw_rx := AList.update c (rx_start (sk_rx (hs_keys hs))) (cw_rx w),
               cw_impl := I\<lparr>cl_conns := AList.update target_service c (cl_conns I)\<rparr>\<rparr>))"

definition live_connection :: "string \<Rightarrow> cworld \<Rightarrow> nat option" where
  "live_connection target_service w =
     (case map_of (cl_conns (cw_impl w)) target_service of
        None \<Rightarrow> None
      | Some c \<Rightarrow> (case map_of (cw_store w) c of Some conn \<Rightarrow> if conn_alive conn then Some c else None | None \<Rightarrow> None))"

definition connect_and_shake ::
  "sodium \<Rightarrow> wire_globals \<Rightarrow> connect_in \<Rightarrow> string \<Rightarrow> Entry \<Rightarrow> cworld \<Rightarrow> (PosixTransport \<times> HsResult) ex \<times> cworld" where
  "connect_and_shake S g i target_service entry w =
     (case connect (en_address entry) (cw_net w) of
        (None, n1) \<Rightarrow> (Throw (EpxError ConnectFailed (''could not connect to service: '' @ target_service)), w\<lparr>cw_net := n1\<rparr>)
      | (Some t0, n1) \<Rightarrow>
          (let w1 = w\<lparr>cw_net := n1\<rparr>; I = cw_impl w1; (rc1, rc2, rc3) = ci_sockopts i;
               freshly_pinned = (cl_policy I = TrustOnFirstUse \<and> load_pinned_peer target_service (cw_os w1) = None);
               t = snd (set_recv_timeout (t0\<lparr>k_in := ci_arriving i\<rparr>) 5000 rc1)
           in case client_handshake S g t (cl_identity I) target_service
                     (is_client_side_trusted (cl_policy I) target_service entry (cl_allowed_peers I) (cw_os w1))
                     (ci_ephemeral i) (ci_nonce i) of
                (Throw e, _) \<Rightarrow> (Throw e, w1)
              | (Ret None, _) \<Rightarrow> (Throw (EpxError HandshakeRejected (''handshake failed or was rejected for: '' @ target_service)), w1)
              | (Ret (Some hs), t1) \<Rightarrow>
                  (let t2 = snd (set_recv_timeout t1 0 rc2);
                       (r, w2) = (if freshly_pinned
                                  then (case pin_peer target_service (hs_peer_identity hs) (cw_os w1) of (r, s1) \<Rightarrow> (r, set_cw_os s1 w1))
                                  else (Ret (), w1));
                       wt = cl_stream_write_timeout_ms I;
                       t3 = (if wt > 0 then snd (set_send_timeout t2 wt rc3) else t2)
                   in case r of Throw e \<Rightarrow> (Throw e, w2) | Ret _ \<Rightarrow> (Ret (t3, hs), w2))))"

definition get_or_connect :: "sodium \<Rightarrow> wire_globals \<Rightarrow> connect_in \<Rightarrow> string \<Rightarrow> cworld \<Rightarrow> nat ex \<times> cworld" where
  "get_or_connect S g i target_service w =
     (case live_connection target_service w of
        Some c \<Rightarrow> (Ret c, w)
      | None \<Rightarrow>
          (case lookup target_service (cw_os w) of
             (None, s1) \<Rightarrow> (Throw (EpxError NotFound (''no such service registered: '' @ target_service)), set_cw_os s1 w)
           | (Some entry, s1) \<Rightarrow>
               (let w1 = set_cw_os s1 w; I = cw_impl w1
                in if cl_policy I = RequireKnownPeer \<and> en_identity_pubkey entry \<notin> cl_allowed_peers I
                   then (Throw (EpxError HandshakeRejected (''peer identity for '' @ [CHR 0x27] @ target_service @ [CHR 0x27] @ '' is not in the allow-list'')), w1)
                   else if cl_policy I = TrustOnFirstUse \<and> load_pinned_peer target_service s1 \<notin> {None, Some (en_identity_pubkey entry)}
                   then (Throw (EpxError HandshakeRejected (''peer identity for '' @ [CHR 0x27] @ target_service @ [CHR 0x27] @ '' changed since it was last trusted'')), w1)
                   else (case connect_and_shake S g i target_service entry w1 of
                           (Throw e, w2) \<Rightarrow> (Throw e, w2)
                         | (Ret (t, hs), w2) \<Rightarrow>
                             (case install_connection target_service t hs (ci_now i) w2 of (c, w3) \<Rightarrow> (Ret c, w3))))))"

text \<open>Closing waits for the reader thread, which finds the connection dead.\<close>

definition close_connection :: "string \<Rightarrow> cworld \<Rightarrow> cworld" where
  "close_connection target_service w =
     (case map_of (cl_conns (cw_impl w)) target_service of
        None \<Rightarrow> w
      | Some c \<Rightarrow>
          (let w1 = w\<lparr>cw_impl := (cw_impl w)\<lparr>cl_conns := AList.delete target_service (cl_conns (cw_impl w))\<rparr>\<rparr>;
               w2 = on_connection c (\<lambda>conn. conn\<lparr>conn_alive := False, conn_transport := transport_close (conn_transport conn)\<rparr>) w1;
               w3 = (if map_of (cw_rx w2) c \<noteq> None then reader_exit c w2 else w2)
           in w3\<lparr>cw_joined := c # cw_joined w3\<rparr>))"

definition Client_destroy :: "cworld \<Rightarrow> cworld" where
  "Client_destroy w = fold close_connection (map fst (cl_conns (cw_impl w))) w"

definition disconnect :: "string \<Rightarrow> cworld \<Rightarrow> cworld" where
  "disconnect target_service w = close_connection target_service w"

definition client_allow_peer :: "PublicKey \<Rightarrow> ClientImpl \<Rightarrow> ClientImpl" where
  "client_allow_peer pk I = I\<lparr>cl_allowed_peers := insert pk (cl_allowed_peers I)\<rparr>"

definition client_public_key :: "ClientImpl \<Rightarrow> PublicKey" where
  "client_public_key I = id_public_key (cl_identity I)"

definition set_stream_write_timeout :: "int \<Rightarrow> ClientImpl \<Rightarrow> ClientImpl" where
  "set_stream_write_timeout ms I = I\<lparr>cl_stream_write_timeout_ms := ms\<rparr>"

definition enable_key_rotation :: "RotationPolicy \<Rightarrow> ClientImpl \<Rightarrow> ClientImpl" where
  "enable_key_rotation p I = I\<lparr>cl_rotation_policy := p\<rparr>"

definition session_epoch :: "string \<Rightarrow> cworld \<Rightarrow> int" where
  "session_epoch target_service w =
     (case live_connection target_service w of
        None \<Rightarrow> -1
      | Some c \<Rightarrow> (case map_of (cw_store w) c of Some conn \<Rightarrow> int (unat (conn_epoch conn)) | None \<Rightarrow> -1))"

section \<open>Requests\<close>

record send_in =
  se_now :: int
  se_ephemeral :: bytes

definition send_on :: "sodium \<Rightarrow> send_in \<Rightarrow> nat \<Rightarrow> FrameType \<Rightarrow> bytes \<Rightarrow> cworld \<Rightarrow> bool ex \<times> cworld" where
  "send_on S i c ty plaintext w =
     (case map_of (cw_store w) c of
        None \<Rightarrow> (Ret False, w)
      | Some conn \<Rightarrow>
          (case seal_and_send S conn (se_now i) (se_ephemeral i) ty plaintext of
             Throw e \<Rightarrow> (Throw e, w)
           | Ret (ok, conn1) \<Rightarrow> (Ret ok, w\<lparr>cw_store := AList.update c conn1 (cw_store w)\<rparr>)))"

text \<open>\<open>conn->next_request_id.fetch_add(1)\<close>\<close>

definition fresh_id :: "nat \<Rightarrow> cworld \<Rightarrow> u64 \<times> cworld" where
  "fresh_id c w =
     (case map_of (cw_store w) c of
        None \<Rightarrow> (0, w)
      | Some conn \<Rightarrow> (conn_next_request_id conn, on_connection c (\<lambda>conn. conn\<lparr>conn_next_request_id := conn_next_request_id conn + 1\<rparr>) w))"

definition quoted :: "string \<Rightarrow> string" where "quoted s = [CHR 0x27] @ s @ [CHR 0x27]"

definition get_begin ::
  "sodium \<Rightarrow> wire_globals \<Rightarrow> connect_in \<Rightarrow> send_in \<Rightarrow> string \<Rightarrow> string \<Rightarrow> bytes \<Rightarrow> cworld \<Rightarrow> (nat \<times> u64) ex \<times> cworld" where
  "get_begin S g ci si target_service endpoint dat w =
     (case get_or_connect S g ci target_service w of
        (Throw e, w1) \<Rightarrow> (Throw e, w1)
      | (Ret c, w1) \<Rightarrow>
          (let (rid, w2) = fresh_id c w1;
               w3 = on_connection c (set_pending rid None) w2
           in case send_on S si c Request (encode_request
                     \<lparr>req_request_id = rid, req_oneway = False, req_endpoint = endpoint, req_data = dat\<rparr>) w3 of
                (Throw e, w4) \<Rightarrow> (Throw e, w4)
              | (Ret sent, w4) \<Rightarrow>
                  if \<not> sent then (Throw (EpxError Transport (''failed to send request to: '' @ target_service)), on_connection c (erase_pending rid) w4)
                  else (Ret (c, rid), w4)))"

text \<open>After the wait: what \<open>get\<close> makes of the connection's state, be it that the condition holds or that the time is up.\<close>

definition closed_error :: "Connection \<Rightarrow> string \<Rightarrow> string \<Rightarrow> exn" where
  "closed_error conn target_service why =
     (if conn_death_reason conn = kErrRateLimited
      then EpxError RateLimited (''disconnected by '' @ quoted target_service @ '': '' @ conn_death_message conn)
      else EpxError Transport (''connection to '' @ quoted target_service @ why))"

definition get_finish :: "string \<Rightarrow> string \<Rightarrow> nat \<Rightarrow> u64 \<Rightarrow> cworld \<Rightarrow> bytes ex \<times> cworld" where
  "get_finish target_service endpoint c rid w =
     (case map_of (cw_store w) c of
        None \<Rightarrow> (Throw (EpxError Transport []), w)
      | Some conn \<Rightarrow>
          (let got = (case map_of (conn_pending conn) rid of Some (Some r) \<Rightarrow> Some r | _ \<Rightarrow> None);
               arrived = (\<not> conn_alive conn \<or> got \<noteq> None);
               w1 = on_connection c (erase_pending rid) w
           in if \<not> arrived then (Throw (EpxError Timeout (''request to '' @ quoted (target_service @ ''/'' @ endpoint) @ '' timed out'')), w1)
              else case got of
                None \<Rightarrow> (Throw (closed_error conn target_service '' closed before a response arrived''), w1)
              | Some resp \<Rightarrow>
                  (if resp_status resp = 2 then Throw (EpxError NotFound (''endpoint not found: '' @ endpoint))
                   else if resp_status resp = 3
                   then Throw (EpxError AccessDenied (''access denied by '' @ quoted target_service @ '' for endpoint '' @ quoted endpoint))
                   else if resp_status resp = 1 then Throw (EpxError Protocol (string_of_bytes (resp_data resp)))
                   else Ret (resp_data resp), w1)))"

definition get ::
  "sodium \<Rightarrow> wire_globals \<Rightarrow> connect_in \<Rightarrow> send_in \<Rightarrow> string \<Rightarrow> string \<Rightarrow> bytes \<Rightarrow> (cworld \<Rightarrow> cworld) \<Rightarrow> cworld \<Rightarrow> bytes ex \<times> cworld" where
  "get S g ci si target_service endpoint dat meanwhile w =
     (case get_begin S g ci si target_service endpoint dat w of
        (Throw e, w1) \<Rightarrow> (Throw e, w1)
      | (Ret (c, rid), w1) \<Rightarrow> get_finish target_service endpoint c rid (meanwhile w1))"

definition client_send ::
  "sodium \<Rightarrow> wire_globals \<Rightarrow> connect_in \<Rightarrow> send_in \<Rightarrow> string \<Rightarrow> string \<Rightarrow> bytes \<Rightarrow> cworld \<Rightarrow> unit ex \<times> cworld" where
  "client_send S g ci si target_service endpoint dat w =
     (case get_or_connect S g ci target_service w of
        (Throw e, w1) \<Rightarrow> (Throw e, w1)
      | (Ret c, w1) \<Rightarrow>
          (let (rid, w2) = fresh_id c w1
           in case send_on S si c Request (encode_request
                     \<lparr>req_request_id = rid, req_oneway = True, req_endpoint = endpoint, req_data = dat\<rparr>) w2 of
                (Throw e, w3) \<Rightarrow> (Throw e, w3)
              | (Ret ok, w3) \<Rightarrow>
                  if \<not> ok then (Throw (EpxError Transport (''failed to send to: '' @ target_service)), w3) else (Ret (), w3)))"

section \<open>Streams from the host\<close>

definition get_stream_begin ::
  "sodium \<Rightarrow> wire_globals \<Rightarrow> connect_in \<Rightarrow> send_in \<Rightarrow> string \<Rightarrow> string \<Rightarrow> bytes \<Rightarrow> nat option \<Rightarrow> cworld \<Rightarrow> (nat \<times> u64) ex \<times> cworld" where
  "get_stream_begin S g ci si target_service endpoint dat on_chunk w =
     (case get_or_connect S g ci target_service w of
        (Throw e, w1) \<Rightarrow> (Throw e, w1)
      | (Ret c, w1) \<Rightarrow>
          (let (rid, w2) = fresh_id c w1;
               w3 = on_connection c (set_sink rid (StreamSink_init\<lparr>sink_callback := map_option StreamCb on_chunk\<rparr>)) w2
           in case send_on S si c Request (encode_request
                     \<lparr>req_request_id = rid, req_oneway = False, req_endpoint = endpoint, req_data = dat\<rparr>) w3 of
                (Throw e, w4) \<Rightarrow> (Throw e, w4)
              | (Ret sent, w4) \<Rightarrow>
                  if \<not> sent then (Throw (EpxError Transport (''failed to send stream request to: '' @ target_service)), on_connection c (erase_sink rid) w4)
                  else (Ret (c, rid), w4)))"

definition sink_of :: "nat \<Rightarrow> u64 \<Rightarrow> cworld \<Rightarrow> StreamSink option" where
  "sink_of c rid w = (case map_of (cw_store w) c of None \<Rightarrow> None | Some conn \<Rightarrow> map_of (conn_stream_sinks conn) rid)"

definition stream_failure :: "StreamSink \<Rightarrow> string \<Rightarrow> string \<Rightarrow> exn" where
  "stream_failure k target_service endpoint =
     (if sink_fail_status k = 2 then EpxError NotFound (''endpoint not found: '' @ endpoint)
      else if sink_fail_status k = 3
      then EpxError AccessDenied (''access denied by '' @ quoted target_service @ '' for stream '' @ quoted endpoint)
      else EpxError Protocol (if sink_fail_message k = [] then ''stream request failed'' else sink_fail_message k))"

text \<open>The test after one wait; \<open>None\<close> stays in the loop.\<close>

definition stream_check :: "string \<Rightarrow> string \<Rightarrow> nat \<Rightarrow> u64 \<Rightarrow> u64 \<Rightarrow> cworld \<Rightarrow> unit ex option \<times> cworld" where
  "stream_check target_service endpoint c rid activity_before w =
     (case map_of (cw_store w) c of
        None \<Rightarrow> (Some (Throw (EpxError Transport [])), w)
      | Some conn \<Rightarrow>
          (let k = map_of (conn_stream_sinks conn) rid;
               done' = (case k of None \<Rightarrow> True | Some k \<Rightarrow> sink_done k);
               progressed = (\<not> conn_alive conn \<or> done' \<or> (case k of None \<Rightarrow> True | Some k \<Rightarrow> sink_activity k \<noteq> activity_before));
               w1 = on_connection c (erase_sink rid) w
           in if \<not> progressed \<and> \<not> done'
              then (Some (Throw (EpxError Timeout (''stream '' @ quoted (target_service @ ''/'' @ endpoint) @ '' stalled (no chunk within timeout)''))), w1)
              else if (case k of Some k \<Rightarrow> sink_failed k | None \<Rightarrow> False)
              then (Some (Throw (stream_failure (the k) target_service endpoint)), w1)
              else if done' then (Some (Ret ()), w1)
              else if \<not> conn_alive conn then (Some (Throw (closed_error conn target_service '' closed mid-stream'')), w1)
              else (None, w)))"

fun stream_wait :: "string \<Rightarrow> string \<Rightarrow> nat \<Rightarrow> u64 \<Rightarrow> (cworld \<Rightarrow> cworld) list \<Rightarrow> cworld \<Rightarrow> unit ex option \<times> cworld" where
  "stream_wait target_service endpoint c rid [] w = (None, w)"
| "stream_wait target_service endpoint c rid (meanwhile # waits) w =
     (let activity_before = (case sink_of c rid w of Some k \<Rightarrow> sink_activity k | None \<Rightarrow> 0)
      in case stream_check target_service endpoint c rid activity_before (meanwhile w) of
           (Some r, w1) \<Rightarrow> (Some r, w1)
         | (None, w1) \<Rightarrow> stream_wait target_service endpoint c rid waits w1)"

definition get_stream ::
  "sodium \<Rightarrow> wire_globals \<Rightarrow> connect_in \<Rightarrow> send_in \<Rightarrow> string \<Rightarrow> string \<Rightarrow> bytes \<Rightarrow> nat option \<Rightarrow> (cworld \<Rightarrow> cworld) list \<Rightarrow> cworld
   \<Rightarrow> unit ex option \<times> cworld" where
  "get_stream S g ci si target_service endpoint dat on_chunk waits w =
     (case get_stream_begin S g ci si target_service endpoint dat on_chunk w of
        (Throw e, w1) \<Rightarrow> (Some (Throw e), w1)
      | (Ret (c, rid), w1) \<Rightarrow> stream_wait target_service endpoint c rid waits w1)"

section \<open>Streams to the host\<close>

record OutputStream =
  out_conn :: nat
  out_target_service :: string
  out_endpoint :: string
  out_request_id :: u64
  out_seq :: u32
  out_finished :: bool

definition open_stream :: "sodium \<Rightarrow> wire_globals \<Rightarrow> connect_in \<Rightarrow> string \<Rightarrow> string \<Rightarrow> cworld \<Rightarrow> OutputStream ex \<times> cworld" where
  "open_stream S g ci target_service endpoint w =
     (case get_or_connect S g ci target_service w of
        (Throw e, w1) \<Rightarrow> (Throw e, w1)
      | (Ret c, w1) \<Rightarrow>
          (let (rid, w2) = fresh_id c w1
           in (Ret \<lparr>out_conn = c, out_target_service = target_service, out_endpoint = endpoint, out_request_id = rid,
                    out_seq = 0, out_finished = False\<rparr>, w2\<lparr>cw_handles := c # cw_handles w2\<rparr>)))"

text \<open>A moved-from stream has no implementation object.\<close>

definition out_chunk :: "OutputStream \<Rightarrow> bool \<Rightarrow> bytes \<Rightarrow> StreamChunkPayload" where
  "out_chunk o' is_last dat = \<lparr>chunk_request_id = out_request_id o', chunk_seq = out_seq o', chunk_is_last = is_last,
     chunk_endpoint = out_endpoint o', chunk_data = dat\<rparr>"

definition out_write :: "sodium \<Rightarrow> send_in \<Rightarrow> bytes \<Rightarrow> OutputStream option \<Rightarrow> cworld \<Rightarrow> bool ex \<times> OutputStream option \<times> cworld" where
  "out_write S si chunk impl w =
     (case impl of
        None \<Rightarrow> (Ret False, None, w)
      | Some o' \<Rightarrow>
          if out_finished o' then (Ret False, Some o', w)
          else (case send_on S si (out_conn o') StreamChunk (encode_stream_chunk (out_chunk o' False chunk)) w of
                  (r, w1) \<Rightarrow> (r, Some (o'\<lparr>out_seq := out_seq o' + 1\<rparr>), w1)))"

definition out_finish :: "sodium \<Rightarrow> send_in \<Rightarrow> OutputStream option \<Rightarrow> cworld \<Rightarrow> unit ex \<times> OutputStream option \<times> cworld" where
  "out_finish S si impl w =
     (case impl of
        None \<Rightarrow> (Ret (), None, w)
      | Some o' \<Rightarrow>
          if out_finished o' then (Ret (), Some o', w)
          else (case send_on S si (out_conn o') StreamChunk (encode_stream_chunk (out_chunk o' True [])) w of
                  (r, w1) \<Rightarrow> ((case r of Throw e \<Rightarrow> Throw e | Ret _ \<Rightarrow> Ret ()), Some (o'\<lparr>out_finished := True, out_seq := out_seq o' + 1\<rparr>), w1)))"

definition out_destroy :: "sodium \<Rightarrow> send_in \<Rightarrow> OutputStream option \<Rightarrow> cworld \<Rightarrow> cworld" where
  "out_destroy S si impl w =
     (case impl of
        None \<Rightarrow> w
      | Some o' \<Rightarrow> (case out_finish S si impl w of (_, _, w1) \<Rightarrow> w1\<lparr>cw_handles := remove1 (out_conn o') (cw_handles w1)\<rparr>))"

section \<open>Subscriptions\<close>

record Subscription =
  sb_conn :: nat
  sb_request_id :: u64
  sb_active :: nat

definition flag_of :: "nat \<Rightarrow> cworld \<Rightarrow> bool" where
  "flag_of a w = (map_of (cw_active w) a = Some True)"

definition subscription_active :: "Subscription option \<Rightarrow> cworld \<Rightarrow> bool" where
  "subscription_active impl w = (case impl of None \<Rightarrow> False | Some sb \<Rightarrow> flag_of (sb_active sb) w)"

definition unsubscribe :: "sodium \<Rightarrow> send_in \<Rightarrow> Subscription option \<Rightarrow> cworld \<Rightarrow> unit ex \<times> cworld" where
  "unsubscribe S si impl w =
     (case impl of
        None \<Rightarrow> (Ret (), w)
      | Some sb \<Rightarrow>
          if \<not> flag_of (sb_active sb) w then (Ret (), w)
          else
            (let c = sb_conn sb;
                 w1 = w\<lparr>cw_active := AList.update (sb_active sb) False (cw_active w)\<rparr>;
                 w2 = on_connection c (erase_sink (sb_request_id sb)) w1
             in case map_of (cw_store w2) c of
                  None \<Rightarrow> (Ret (), w2)
                | Some conn \<Rightarrow>
                    if conn_alive conn
                    then (let (rid, w3) = fresh_id c w2
                          in case send_on S si c Request (encode_request \<lparr>req_request_id = rid, req_oneway = True,
                                    req_endpoint = ''$epx/unsubscribe'', req_data = put_u64 [] (sb_request_id sb)\<rparr>) w3 of
                               (Throw e, w4) \<Rightarrow> (Throw e, w4)
                             | (Ret _, w4) \<Rightarrow> (Ret (), w4))
                    else (Ret (), w2)))"

definition subscription_destroy :: "sodium \<Rightarrow> send_in \<Rightarrow> Subscription option \<Rightarrow> cworld \<Rightarrow> cworld" where
  "subscription_destroy S si impl w =
     (case impl of
        None \<Rightarrow> w
      | Some sb \<Rightarrow> (case unsubscribe S si impl w of (_, w1) \<Rightarrow> w1\<lparr>cw_handles := remove1 (sb_conn sb) (cw_handles w1)\<rparr>))"

definition subscribe ::
  "sodium \<Rightarrow> wire_globals \<Rightarrow> connect_in \<Rightarrow> send_in \<Rightarrow> string \<Rightarrow> string \<Rightarrow> nat option \<Rightarrow> cworld \<Rightarrow> Subscription ex \<times> cworld" where
  "subscribe S g ci si target_service topic on_message w =
     (case get_or_connect S g ci target_service w of
        (Throw e, w1) \<Rightarrow> (Throw e, w1)
      | (Ret c, w1) \<Rightarrow>
          (let (rid, w2) = fresh_id c w1;
               flag = cw_next w2;
               w3 = w2\<lparr>cw_next := flag + 1, cw_active := AList.update flag True (cw_active w2)\<rparr>;
               w4 = on_connection c (set_sink rid (StreamSink_init\<lparr>sink_subscription := True,
                      sink_callback := Some (SubscriptionCb flag on_message)\<rparr>)) w3
           in case send_on S si c Request (encode_request
                     \<lparr>req_request_id = rid, req_oneway = False, req_endpoint = topic, req_data = []\<rparr>) w4 of
                (Throw e, w5) \<Rightarrow> (Throw e, w5)
              | (Ret sent, w5) \<Rightarrow>
                  if \<not> sent then (Throw (EpxError Transport (''failed to send subscribe to: '' @ target_service)), on_connection c (erase_sink rid) w5)
                  else (Ret \<lparr>sb_conn = c, sb_request_id = rid, sb_active = flag\<rparr>, w5\<lparr>cw_handles := c # cw_handles w5\<rparr>)))"

section \<open>What the parts of an operation leave alone\<close>

lemma invoke_frame [simp]:
  "cw_store (invoke cb d l w) = cw_store w" "cw_rx (invoke cb d l w) = cw_rx w" "cw_impl (invoke cb d l w) = cw_impl w"
  by (cases cb; simp add: Let_def split: option.splits)+

lemma fold_invoke_frame [simp]: "cw_store (fold (\<lambda>cb. invoke cb d l) cbs w) = cw_store w"
  by (induction cbs arbitrary: w) auto

lemma send_frame_locked_pending:
  "send_frame_locked S conn ty p = (ok, conn') \<Longrightarrow>
   conn_pending conn' = conn_pending conn \<and> conn_stream_sinks conn' = conn_stream_sinks conn \<and> conn_next_request_id conn' = conn_next_request_id conn"
  by (auto simp: send_frame_locked_def Let_def split: prod.splits)

lemma maybe_begin_rekey_pending:
  "maybe_begin_rekey_locked S conn now r = Ret conn' \<Longrightarrow>
   conn_pending conn' = conn_pending conn \<and> conn_stream_sinks conn' = conn_stream_sinks conn \<and> conn_next_request_id conn' = conn_next_request_id conn"
  by (auto simp: maybe_begin_rekey_locked_def dest: send_frame_locked_pending split: if_splits ex.splits prod.splits)

lemma seal_and_send_pending:
  "seal_and_send S conn now r ty p = Ret (ok, conn') \<Longrightarrow>
   conn_pending conn' = conn_pending conn \<and> conn_stream_sinks conn' = conn_stream_sinks conn \<and> conn_next_request_id conn' = conn_next_request_id conn"
  by (cases "maybe_begin_rekey_locked S conn now r")
    (auto simp: seal_and_send_def dest!: maybe_begin_rekey_pending send_frame_locked_pending split: prod.splits)

lemma client_recv_pending:
  "client_recv S conn rx now = (ev, conn', rx') \<Longrightarrow>
   conn_pending conn' = conn_pending conn \<and> conn_stream_sinks conn' = conn_stream_sinks conn \<and> conn_next_request_id conn' = conn_next_request_id conn"
  by (auto simp: client_recv_def Let_def switch_tx_def split: prod.splits option.splits FrameType.splits if_splits ex.splits)

lemma connect_and_shake_store: "connect_and_shake S g i tgt e w = (r, w') \<Longrightarrow> cw_store w' = cw_store w"
  by (auto simp: connect_and_shake_def Let_def set_cw_os_def split: prod.splits option.splits ex.splits if_splits)

section \<open>Ownership and trust\<close>

text \<open>A connection object whose last reference is gone (the table, a handle and its reader thread hold one
  each) while its \<open>std::thread\<close> was never joined: destroying it calls \<open>std::terminate\<close>.\<close>

definition terminates :: "cworld \<Rightarrow> nat \<Rightarrow> bool" where
  "terminates w c \<longleftrightarrow> map_of (cw_store w) c \<noteq> None \<and> c \<notin> snd ` set (cl_conns (cw_impl w)) \<and> c \<notin> set (cw_handles w)
     \<and> map_of (cw_rx w) c = None \<and> c \<notin> set (cw_joined w)"

text \<open>What the trust policy asks of the identity behind a new connection, given the key pinned so far.\<close>

fun identity_trusted :: "TrustPolicy \<Rightarrow> PublicKey set \<Rightarrow> PublicKey option \<Rightarrow> PublicKey \<Rightarrow> bool" where
  "identity_trusted AllowAll allowed pin pk \<longleftrightarrow> True"
| "identity_trusted RequireKnownPeer allowed pin pk \<longleftrightarrow> pk \<in> allowed"
| "identity_trusted TrustOnFirstUse allowed pin pk \<longleftrightarrow> pin = None \<or> pin = Some pk"

lemma client_side_trusted:
  "is_client_side_trusted p tgt e allowed s pk \<Longrightarrow> pk = en_identity_pubkey e \<and> identity_trusted p allowed (load_pinned_peer tgt s) pk"
  by (cases p) (auto simp: is_client_side_trusted_def split: if_splits option.splits)

lemma shaken_identity:
  assumes "connect_and_shake S g i tgt e w = (Ret (t, hs), w')"
  shows "\<exists>s. s = net_os (snd (connect (en_address e) (cw_net w))) \<and> hs_peer_identity hs = en_identity_pubkey e
    \<and> identity_trusted (cl_policy (cw_impl w)) (cl_allowed_peers (cw_impl w)) (load_pinned_peer tgt s) (hs_peer_identity hs)
    \<and> (cl_policy (cw_impl w) = TrustOnFirstUse \<and> load_pinned_peer tgt s = None \<longrightarrow> cw_os w' = snd (pin_peer tgt (hs_peer_identity hs) s))"
proof -
  obtain t0 n1 where cn: "connect (en_address e) (cw_net w) = (Some t0, n1)"
    using assms by (auto simp: connect_and_shake_def split: prod.splits option.splits)
  obtain rc1 rc2 rc3 where rc: "ci_sockopts i = (rc1, rc2, rc3)" using prod_cases3 by blast
  let ?t = "snd (set_recv_timeout (t0\<lparr>k_in := ci_arriving i\<rparr>) 5000 rc1)"
  let ?tr = "is_client_side_trusted (cl_policy (cw_impl w)) tgt e (cl_allowed_peers (cw_impl w)) (net_os n1)"
  obtain t1 where h: "client_handshake S g ?t (cl_identity (cw_impl w)) tgt ?tr (ci_ephemeral i) (ci_nonce i) = (Ret (Some hs), t1)"
    using assms cn rc by (auto simp: connect_and_shake_def Let_def cw_os_def split: prod.splits option.splits ex.splits if_splits)
  have "?tr (hs_peer_identity hs)"
    using h by (elim client_handshake_SomeE) (auto simp: client_check_ack_def Let_def split: if_splits)
  moreover have "cl_policy (cw_impl w) = TrustOnFirstUse \<and> load_pinned_peer tgt (net_os n1) = None \<Longrightarrow>
      cw_os w' = snd (pin_peer tgt (hs_peer_identity hs) (net_os n1))"
    using assms cn rc h by (auto simp: connect_and_shake_def Let_def cw_os_def set_cw_os_def split: prod.splits ex.splits)
  ultimately show ?thesis using client_side_trusted cn by auto
qed

section \<open>Properties\<close>

definition connected_to :: "string \<Rightarrow> cworld \<Rightarrow> cworld \<Rightarrow> nat \<Rightarrow> bool" where
  "connected_to tgt w w' c \<longleftrightarrow> (\<exists>entry s1 s pk. lookup tgt (cw_os w) = (Some entry, s1) \<and> pk = en_identity_pubkey entry
     \<and> s = net_os (snd (connect (en_address entry) (cw_net (set_cw_os s1 w))))
     \<and> identity_trusted (cl_policy (cw_impl w)) (cl_allowed_peers (cw_impl w)) (load_pinned_peer tgt s) pk
     \<and> cl_conns (cw_impl w') = AList.update tgt c (cl_conns (cw_impl w)))"

lemma connect_and_shake_impl: "connect_and_shake S g i tgt e w = (r, w') \<Longrightarrow> cw_impl w' = cw_impl w"
  by (auto simp: connect_and_shake_def Let_def set_cw_os_def split: prod.splits option.splits ex.splits if_splits)



section \<open>Instances\<close>

text \<open>A connection with one call waiting, one subscription, and a response on its way.\<close>

definition reply1 :: ResponsePayload where
  "reply1 = \<lparr>resp_request_id = 1, resp_status = 0, resp_data = [9]\<rparr>"

definition reply_bytes :: bytes where
  "reply_bytes = frame_bytes False \<lparr>rf_type = Response, rf_counter = 0, rf_epoch = 0,
     rf_body = seal toy_sodium (replicate 32 3) 0 3 (encode_response reply1)\<rparr>"

definition waiting_conn :: "bytes \<Rightarrow> Connection" where
  "waiting_conn inb = (Connection_init ((posix_transport 4 1000)\<lparr>k_in := inb\<rparr>) \<lparr>sk_rx = replicate 32 3, sk_tx = replicate 32 4\<rparr> 1
     \<lparr>rot_interval = 0, rot_max_bytes = 0\<rparr> 0)\<lparr>conn_pending := [(1, None)],
       conn_stream_sinks := [(2, StreamSink_init\<lparr>sink_subscription := True, sink_callback := Some (SubscriptionCb 7 (Some 5))\<rparr>)]\<rparr>"

definition waiting_world :: "bytes \<Rightarrow> cworld" where
  "waiting_world inb = \<lparr>cw_impl = (ClientImpl_init (toy_identity [1]) AllowAll)\<lparr>cl_conns := [(''notes'', 1)]\<rparr>,
     cw_net = \<lparr>net_os = demo_os, net_bound = [], net_next_fd = 3, net_socket_ok = (\<lambda>_. True), net_listen_ok = (\<lambda>_. True), net_peer_uid = (\<lambda>_. None)\<rparr>,
     cw_store = [(1, waiting_conn inb)], cw_rx = [(1, rx_start (replicate 32 3))], cw_joined = [], cw_handles = [], cw_active = [(7, True)],
     cw_next = 8, cw_calls = []\<rparr>"


end
