(* ===== verification/Epx_CApi.thy ===== *)
theory Epx_CApi
  imports Epx_Server Epx_Client
begin

text \<open>
  The C ABI (\<^verbatim>\<open>include/epx/epx_c.h\<close>, \<^verbatim>\<open>src/c_api.cpp\<close>) over the models of host and client. A pointer argument is an
  option, \<open>None\<close> for NULL, and an out-parameter a flag that tells whether it is not NULL; what the call
  stores there is part of its result. The object of a handle is passed and returned. A character or
  byte array is its contents, so a string is read up to the first NUL. The C functions of the
  application are function values that return; its functions that the client and the stop sequence call are
  the numbers used there, each standing for a function with its \<open>user_data\<close>. Every entry point gets and
  returns the calling thread's last error message where it may set it. Here a result that the caller has to release is its
  contents; the memory behind it is the subject of \<open>Epx_CHeap\<close>.
\<close>

section \<open>Types\<close>

datatype epx_status = EPX_OK | EPX_ERR_TIMEOUT | EPX_ERR_CONNECT_FAILED | EPX_ERR_HANDSHAKE_REJECTED | EPX_ERR_NOT_FOUND
  | EPX_ERR_TRANSPORT | EPX_ERR_PROTOCOL | EPX_ERR_ACCESS_DENIED | EPX_ERR_RATE_LIMITED | EPX_ERR_INVALID_ARGUMENT | EPX_ERR_INTERNAL

fun status_value :: "epx_status \<Rightarrow> nat" where
  "status_value EPX_OK = 0"
| "status_value EPX_ERR_TIMEOUT = 1"
| "status_value EPX_ERR_CONNECT_FAILED = 2"
| "status_value EPX_ERR_HANDSHAKE_REJECTED = 3"
| "status_value EPX_ERR_NOT_FOUND = 4"
| "status_value EPX_ERR_TRANSPORT = 5"
| "status_value EPX_ERR_PROTOCOL = 6"
| "status_value EPX_ERR_ACCESS_DENIED = 7"
| "status_value EPX_ERR_RATE_LIMITED = 8"
| "status_value EPX_ERR_INVALID_ARGUMENT = 100"
| "status_value EPX_ERR_INTERNAL = 101"

record epx_bytes =
  by_data :: "bytes option"
  by_len :: nat

datatype epx_trust_policy = EPX_TRUST_ON_FIRST_USE | EPX_TRUST_REQUIRE_KNOWN_PEER | EPX_TRUST_ALLOW_ALL

fun trust_policy_value :: "epx_trust_policy \<Rightarrow> nat" where
  "trust_policy_value EPX_TRUST_ON_FIRST_USE = 0"
| "trust_policy_value EPX_TRUST_REQUIRE_KNOWN_PEER = 1"
| "trust_policy_value EPX_TRUST_ALLOW_ALL = 2"

datatype epx_endpoint_kind = EPX_KIND_RECEIVE | EPX_KIND_SEND | EPX_KIND_STREAM_RECEIVE | EPX_KIND_STREAM_SEND | EPX_KIND_TOPIC

fun endpoint_kind_value :: "epx_endpoint_kind \<Rightarrow> nat" where
  "endpoint_kind_value EPX_KIND_RECEIVE = 0"
| "endpoint_kind_value EPX_KIND_SEND = 1"
| "endpoint_kind_value EPX_KIND_STREAM_RECEIVE = 2"
| "endpoint_kind_value EPX_KIND_STREAM_SEND = 3"
| "endpoint_kind_value EPX_KIND_TOPIC = 4"

datatype epx_access_tier = EPX_ACCESS_OPEN | EPX_ACCESS_PINNED_PEERS | EPX_ACCESS_CERTIFICATE | EPX_ACCESS_PROMPT_USER

fun access_tier_value :: "epx_access_tier \<Rightarrow> nat" where
  "access_tier_value EPX_ACCESS_OPEN = 0"
| "access_tier_value EPX_ACCESS_PINNED_PEERS = 1"
| "access_tier_value EPX_ACCESS_CERTIFICATE = 2"
| "access_tier_value EPX_ACCESS_PROMPT_USER = 3"

datatype epx_prompt_decision = EPX_PROMPT_DENY | EPX_PROMPT_ALLOW_ONCE | EPX_PROMPT_ALWAYS_ALLOW

fun prompt_decision_value :: "epx_prompt_decision \<Rightarrow> nat" where
  "prompt_decision_value EPX_PROMPT_DENY = 0"
| "prompt_decision_value EPX_PROMPT_ALLOW_ONCE = 1"
| "prompt_decision_value EPX_PROMPT_ALWAYS_ALLOW = 2"

text \<open>\<open>static_cast\<close> between the enumerations goes by value; these are the C++ enumerators in their order.\<close>

definition trust_policies :: "TrustPolicy list" where "trust_policies = [TrustOnFirstUse, RequireKnownPeer, AllowAll]"
definition endpoint_kinds :: "EndpointKind list" where "endpoint_kinds = [KReceive, KSend, KStreamReceive, KStreamSend, KTopic]"
definition access_tiers :: "AccessTier list" where "access_tiers = [Open, PinnedPeers, Certificate, PromptUser]"
definition prompt_decisions :: "PromptDecision list" where "prompt_decisions = [Deny, AllowOnce, AlwaysAllow]"

definition c_kinds :: "epx_endpoint_kind list" where
  "c_kinds = [EPX_KIND_RECEIVE, EPX_KIND_SEND, EPX_KIND_STREAM_RECEIVE, EPX_KIND_STREAM_SEND, EPX_KIND_TOPIC]"

fun kind_value :: "EndpointKind \<Rightarrow> nat" where
  "kind_value KReceive = 0" | "kind_value KSend = 1" | "kind_value KStreamReceive = 2" | "kind_value KStreamSend = 3" | "kind_value KTopic = 4"

record epx_peer_info =
  cp_public_key :: bytes
  cp_peer_uid :: int
  cp_key_was_pinned_now :: int

record epx_connection_limits =
  cl_handshakes_per_uid_per_sec :: u32
  cl_handshake_burst :: u32
  cl_max_requests_per_sec :: u32
  cl_request_burst :: u32
  cl_disconnect_after_delayed :: u32
  cl_max_subscriptions :: u32
  cl_stream_write_timeout :: int

record epx_endpoint_desc =
  ced_name :: string
  ced_kind :: epx_endpoint_kind

record epx_service_description =
  csd_service_name :: string
  csd_description :: string
  csd_pid :: int
  csd_identity_pubkey :: bytes
  csd_endpoints :: "epx_endpoint_desc list"
  csd_endpoint_count :: nat

text \<open>The application's C functions. A streaming handler is a tree of its calls of
  \<open>epx_stream_writer_write\<close> (the flag: whether the writer it passes is not NULL), branching on their results.\<close>

type_synonym epx_response_writer = AppResponse
type_synonym epx_handler_fn = "bytes option \<Rightarrow> nat \<Rightarrow> string \<Rightarrow> epx_peer_info \<Rightarrow> nat \<Rightarrow> epx_response_writer \<Rightarrow> epx_response_writer"
type_synonym epx_stream_recv_fn = "bytes option \<Rightarrow> nat \<Rightarrow> int \<Rightarrow> string \<Rightarrow> epx_peer_info \<Rightarrow> nat \<Rightarrow> unit"

datatype stream_prog = SReturn | SWrite bool "bytes option" nat "int \<Rightarrow> stream_prog"

type_synonym epx_stream_send_fn = "bytes option \<Rightarrow> nat \<Rightarrow> string \<Rightarrow> epx_peer_info \<Rightarrow> nat \<Rightarrow> stream_prog"
type_synonym epx_prompt_fn = "epx_peer_info \<Rightarrow> string \<Rightarrow> string \<Rightarrow> nat \<Rightarrow> epx_prompt_decision"

section \<open>Errors and conversions\<close>

text \<open>What a fallible call gives back: its status, what it stored in its out-parameter, and the thread's last error.\<close>

type_synonym 'a c_result = "epx_status \<times> 'a option \<times> string"

definition cstr :: "string \<Rightarrow> string" where
  "cstr p = takeWhile (\<lambda>c. c \<noteq> CHR 0x00) p"

fun map_code :: "ErrCode \<Rightarrow> epx_status" where
  "map_code Timeout = EPX_ERR_TIMEOUT"
| "map_code ConnectFailed = EPX_ERR_CONNECT_FAILED"
| "map_code HandshakeRejected = EPX_ERR_HANDSHAKE_REJECTED"
| "map_code NotFound = EPX_ERR_NOT_FOUND"
| "map_code Transport = EPX_ERR_TRANSPORT"
| "map_code Protocol = EPX_ERR_PROTOCOL"
| "map_code AccessDenied = EPX_ERR_ACCESS_DENIED"
| "map_code RateLimited = EPX_ERR_RATE_LIMITED"

text \<open>The text of \<open>bad_function_call\<close> is the one of libstdc++.\<close>

fun guarded :: "'a ex \<Rightarrow> string \<Rightarrow> 'a c_result" where
  "guarded (Ret x) err = (EPX_OK, Some x, err)"
| "guarded (Throw (EpxError c m)) err = (map_code c, None, cstr m)"
| "guarded (Throw (InvalidArgument m)) err = (EPX_ERR_INVALID_ARGUMENT, None, cstr m)"
| "guarded (Throw (RuntimeError m)) err = (EPX_ERR_INTERNAL, None, cstr m)"
| "guarded (Throw (OutOfRange m)) err = (EPX_ERR_INTERNAL, None, cstr m)"
| "guarded (Throw BadFunctionCall) err = (EPX_ERR_INTERNAL, None, ''bad_function_call'')"

definition null_argument :: "'a c_result" where
  "null_argument = (EPX_ERR_INVALID_ARGUMENT, None, ''NULL argument'')"

definition ptr_of :: "bytes \<Rightarrow> bytes option" where
  "ptr_of b = (if b = [] then None else Some b)"

definition to_c_bytes :: "bytes \<Rightarrow> epx_bytes" where
  "to_c_bytes b = (if b \<noteq> [] then \<lparr>by_data = Some b, by_len = length b\<rparr> else \<lparr>by_data = None, by_len = 0\<rparr>)"

definition c_str :: "string \<Rightarrow> string" where
  "c_str s = s @ [CHR 0x00]"

definition to_c_string :: "string \<Rightarrow> string" where
  "to_c_string s = take (length s + 1) (c_str s)"

definition to_cpp_bytes :: "bytes option \<Rightarrow> nat \<Rightarrow> bytes" where
  "to_cpp_bytes data len = (case data of Some p \<Rightarrow> if len \<noteq> 0 then take len p else [] | None \<Rightarrow> [])"

definition fill_peer :: "PeerInfo \<Rightarrow> epx_peer_info" where
  "fill_peer p = \<lparr>cp_public_key = take 32 (pi_public_key p), cp_peer_uid = pi_peer_uid p,
     cp_key_was_pinned_now = (if pi_key_was_pinned_now p then 1 else 0)\<rparr>"

definition to_pk :: "bytes \<Rightarrow> PublicKey" where
  "to_pk key = take 32 key"

definition to_policy :: "epx_access_tier \<Rightarrow> string option \<Rightarrow> AccessPolicy" where
  "to_policy tier reason =
     (let p = AccessPolicy_init\<lparr>ap_tier := access_tiers ! access_tier_value tier\<rparr>
      in case reason of Some r \<Rightarrow> p\<lparr>ap_prompt_reason := cstr r\<rparr> | None \<Rightarrow> p)"

definition EPX_C_ABI_VERSION :: nat where "EPX_C_ABI_VERSION = 1"
definition epx_c_abi_version :: nat where "epx_c_abi_version = EPX_C_ABI_VERSION"

section \<open>Identities and credentials\<close>

definition epx_identity_load_or_create :: "sodium \<Rightarrow> bytes \<Rightarrow> string option \<Rightarrow> bool \<Rightarrow> bool \<times> os \<Rightarrow> string \<Rightarrow> Identity c_result \<times> bool \<times> os" where
  "epx_identity_load_or_create S rnd app_name out_identity st err =
     (case (app_name, out_identity) of
        (Some n, True) \<Rightarrow> (case init_and_load_identity S rnd (cstr n) st of (r, st1) \<Rightarrow> (guarded r err, st1))
      | _ \<Rightarrow> (null_argument, st))"

definition epx_identity_public_key :: "Identity option \<Rightarrow> bool \<Rightarrow> bytes option" where
  "epx_identity_public_key identity out_key =
     (case identity of Some i \<Rightarrow> if out_key then Some (take 32 (id_public_key i)) else None | None \<Rightarrow> None)"

definition epx_make_credential :: "sodium \<Rightarrow> Identity option \<Rightarrow> bytes option \<Rightarrow> string option \<Rightarrow> u64 \<Rightarrow> bool \<Rightarrow> string \<Rightarrow> string c_result" where
  "epx_make_credential S issuer peer_public_key scope expires_unix out_credential_text err =
     (case (issuer, peer_public_key, scope, out_credential_text) of
        (Some i, Some pk, Some sc, True) \<Rightarrow> guarded (Ret (to_c_string (make_credential S i (to_pk pk) (cstr sc) expires_unix))) err
      | _ \<Rightarrow> null_argument)"

section \<open>Host\<close>

definition epx_host_create :: "string option \<Rightarrow> Identity option \<Rightarrow> epx_trust_policy \<Rightarrow> bool \<Rightarrow> string \<Rightarrow> HostImpl c_result" where
  "epx_host_create service_name identity pol out_host err =
     (case (service_name, identity, out_host) of
        (Some n, Some i, True) \<Rightarrow> guarded (Ret (HostImpl_init (cstr n) i (trust_policies ! trust_policy_value pol))) err
      | _ \<Rightarrow> null_argument)"

definition epx_host_free ::
  "sodium \<Rightarrow> wire_globals \<Rightarrow> (nat \<Rightarrow> setup_in) \<Rightarrow> conn_thread list \<Rightarrow> (nat \<times> world) option \<Rightarrow> nat option list \<Rightarrow> nat option list \<times> world option" where
  "epx_host_free S g ins ths host slots =
     (case host of None \<Rightarrow> (slots, None) | Some (h, w) \<Rightarrow> (case Host_destroy S g ins ths h slots w of (slots1, w1) \<Rightarrow> (slots1, Some w1)))"

definition epx_respond_ok :: "bytes option \<Rightarrow> nat \<Rightarrow> epx_response_writer option \<Rightarrow> epx_response_writer option" where
  "epx_respond_ok data len response =
     map_option (\<lambda>r. r\<lparr>resp_ok := True, resp_payload := to_cpp_bytes data len, resp_error := []\<rparr>) response"

definition epx_respond_error :: "string option \<Rightarrow> epx_response_writer option \<Rightarrow> epx_response_writer option" where
  "epx_respond_error message response =
     map_option (\<lambda>r. r\<lparr>resp_ok := False, resp_payload := [],
       resp_error := (case message of Some m \<Rightarrow> cstr m | None \<Rightarrow> ''error'')\<rparr>) response"

definition wrap_handler :: "epx_handler_fn \<Rightarrow> nat \<Rightarrow> Handler" where
  "wrap_handler handler user_data = (\<lambda>req endpoint peer.
     Ret (handler (ptr_of req) (length req) (c_str endpoint) (fill_peer peer) user_data
            \<lparr>resp_ok = True, resp_payload = [], resp_error = []\<rparr>))"

text \<open>Applying a method to the host behind a handle.\<close>

definition on_impl :: "(HostImpl \<Rightarrow> 'a ex \<times> HostImpl) \<Rightarrow> world \<Rightarrow> string \<Rightarrow> 'a c_result \<times> world option" where
  "on_impl f w err = (case f (w_host w) of (r, H1) \<Rightarrow> (guarded r err, Some (w\<lparr>w_host := H1\<rparr>)))"

definition set_impl :: "(HostImpl \<Rightarrow> HostImpl) \<Rightarrow> world \<Rightarrow> world" where
  "set_impl f w = w\<lparr>w_host := f (w_host w)\<rparr>"

definition epx_host_expose ::
  "world option \<Rightarrow> epx_endpoint_kind \<Rightarrow> string option \<Rightarrow> epx_handler_fn option \<Rightarrow> nat \<Rightarrow> string \<Rightarrow> unit c_result \<times> world option" where
  "epx_host_expose host kind endpoint handler user_data err =
     (case (host, endpoint, handler) of
        (Some w, Some ep, Some h) \<Rightarrow>
          on_impl (expose (endpoint_kinds ! endpoint_kind_value kind) (cstr ep) (Some (wrap_handler h user_data))) w err
      | _ \<Rightarrow> (null_argument, host))"

definition epx_host_expose_access ::
  "world option \<Rightarrow> epx_endpoint_kind \<Rightarrow> string option \<Rightarrow> epx_handler_fn option \<Rightarrow> nat \<Rightarrow> epx_access_tier \<Rightarrow> string option \<Rightarrow> string
   \<Rightarrow> unit c_result \<times> world option" where
  "epx_host_expose_access host kind endpoint handler user_data tier prompt_reason err =
     (case (host, endpoint, handler) of
        (Some w, Some ep, Some h) \<Rightarrow>
          on_impl (expose_policy (endpoint_kinds ! endpoint_kind_value kind) (cstr ep) (Some (wrap_handler h user_data))
                     (to_policy tier prompt_reason)) w err
      | _ \<Rightarrow> (null_argument, host))"

definition wrap_stream_recv :: "epx_stream_recv_fn \<Rightarrow> nat \<Rightarrow> StreamReceiveHandler" where
  "wrap_stream_recv handler user_data = (\<lambda>chunk is_last endpoint peer.
     Ret (handler (ptr_of chunk) (length chunk) (if is_last then 1 else 0) (c_str endpoint) (fill_peer peer) user_data))"

text \<open>The calls of \<open>epx_stream_writer_write\<close> that a C function makes, as writes of the \<open>StreamWriter\<close> behind its pointer.\<close>

primrec epx_stream_writer_write :: "stream_prog \<Rightarrow> writer_prog" where
  "epx_stream_writer_write SReturn = WDone"
| "epx_stream_writer_write (SWrite out chunk len k) =
     (if \<not> out then (\<lambda>r. epx_stream_writer_write (k r)) 0
      else WWrite (to_cpp_bytes chunk len) (\<lambda>ok. (\<lambda>r. epx_stream_writer_write (k r)) (if ok then 1 else 0)))"

definition wrap_stream_send :: "epx_stream_send_fn \<Rightarrow> nat \<Rightarrow> StreamSendHandler" where
  "wrap_stream_send handler user_data = (\<lambda>req endpoint peer.
     epx_stream_writer_write (handler (ptr_of req) (length req) (c_str endpoint) (fill_peer peer) user_data))"

definition epx_host_expose_stream_receive ::
  "world option \<Rightarrow> string option \<Rightarrow> epx_stream_recv_fn option \<Rightarrow> nat \<Rightarrow> string \<Rightarrow> unit c_result \<times> world option" where
  "epx_host_expose_stream_receive host endpoint handler user_data err =
     (case (host, endpoint, handler) of
        (Some w, Some ep, Some h) \<Rightarrow> on_impl (expose_stream_receive (cstr ep) (Some (wrap_stream_recv h user_data))) w err
      | _ \<Rightarrow> (null_argument, host))"

definition epx_host_expose_stream_receive_access ::
  "world option \<Rightarrow> string option \<Rightarrow> epx_stream_recv_fn option \<Rightarrow> nat \<Rightarrow> epx_access_tier \<Rightarrow> string option \<Rightarrow> string \<Rightarrow> unit c_result \<times> world option" where
  "epx_host_expose_stream_receive_access host endpoint handler user_data tier prompt_reason err =
     (case (host, endpoint, handler) of
        (Some w, Some ep, Some h) \<Rightarrow>
          on_impl (expose_stream_receive_policy (cstr ep) (Some (wrap_stream_recv h user_data)) (to_policy tier prompt_reason)) w err
      | _ \<Rightarrow> (null_argument, host))"

definition epx_host_expose_stream_send ::
  "world option \<Rightarrow> string option \<Rightarrow> epx_stream_send_fn option \<Rightarrow> nat \<Rightarrow> string \<Rightarrow> unit c_result \<times> world option" where
  "epx_host_expose_stream_send host endpoint handler user_data err =
     (case (host, endpoint, handler) of
        (Some w, Some ep, Some h) \<Rightarrow> on_impl (expose_stream_send (cstr ep) (Some (wrap_stream_send h user_data))) w err
      | _ \<Rightarrow> (null_argument, host))"

definition epx_host_expose_stream_send_access ::
  "world option \<Rightarrow> string option \<Rightarrow> epx_stream_send_fn option \<Rightarrow> nat \<Rightarrow> epx_access_tier \<Rightarrow> string option \<Rightarrow> string \<Rightarrow> unit c_result \<times> world option" where
  "epx_host_expose_stream_send_access host endpoint handler user_data tier prompt_reason err =
     (case (host, endpoint, handler) of
        (Some w, Some ep, Some h) \<Rightarrow>
          on_impl (expose_stream_send_policy (cstr ep) (Some (wrap_stream_send h user_data)) (to_policy tier prompt_reason)) w err
      | _ \<Rightarrow> (null_argument, host))"

text \<open>The handle of a topic holds the topic's number.\<close>

definition epx_host_expose_topic :: "world option \<Rightarrow> string option \<Rightarrow> bool \<Rightarrow> string \<Rightarrow> nat c_result \<times> world option" where
  "epx_host_expose_topic host topic out_topic err =
     (case (host, topic, out_topic) of
        (Some w, Some t, True) \<Rightarrow> (case expose_topic (cstr t) w of (r, w1) \<Rightarrow> (guarded r err, Some w1))
      | _ \<Rightarrow> (null_argument, host))"

definition epx_host_expose_topic_access ::
  "world option \<Rightarrow> string option \<Rightarrow> epx_access_tier \<Rightarrow> string option \<Rightarrow> bool \<Rightarrow> string \<Rightarrow> nat c_result \<times> world option" where
  "epx_host_expose_topic_access host topic tier prompt_reason out_topic err =
     (case (host, topic, out_topic) of
        (Some w, Some t, True) \<Rightarrow>
          (case expose_topic_policy (cstr t) (to_policy tier prompt_reason) w of (r, w1) \<Rightarrow> (guarded r err, Some w1))
      | _ \<Rightarrow> (null_argument, host))"

definition epx_topic_publish :: "sodium \<Rightarrow> nat option \<Rightarrow> bytes option \<Rightarrow> nat \<Rightarrow> world \<Rightarrow> nat \<times> world" where
  "epx_topic_publish S topic message len w =
     (case topic of
        None \<Rightarrow> (0, w)
      | Some t \<Rightarrow> (case handle_publish S (Some t) (to_cpp_bytes message len) (w_topics w) (w_conns w) of
                    (n, topics1, conns1) \<Rightarrow> (n, w\<lparr>w_topics := topics1, w_conns := conns1\<rparr>)))"

definition epx_topic_subscriber_count :: "nat option \<Rightarrow> world \<Rightarrow> nat" where
  "epx_topic_subscriber_count topic w = (case topic of Some t \<Rightarrow> handle_subscriber_count (Some t) (w_topics w) | None \<Rightarrow> 0)"

definition epx_host_on_authorization_prompt :: "world option \<Rightarrow> epx_prompt_fn option \<Rightarrow> nat \<Rightarrow> world option" where
  "epx_host_on_authorization_prompt host prompt user_data =
     (case host of
        None \<Rightarrow> None
      | Some w \<Rightarrow>
          Some (set_impl (on_authorization_prompt (case prompt of
             None \<Rightarrow> None
           | Some p \<Rightarrow> Some (\<lambda>peer endpoint reason.
               Ret (prompt_decisions ! prompt_decision_value (p (fill_peer peer) (c_str endpoint) (c_str reason) user_data))))) w))"

definition epx_host_add_issuer :: "world option \<Rightarrow> bytes option \<Rightarrow> world option" where
  "epx_host_add_issuer host issuer_public_key =
     (case (host, issuer_public_key) of (Some w, Some k) \<Rightarrow> Some (set_impl (add_issuer (to_pk k)) w) | _ \<Rightarrow> host)"

definition epx_host_add_credential :: "sodium \<Rightarrow> world option \<Rightarrow> string option \<Rightarrow> int \<times> world option" where
  "epx_host_add_credential S host credential_text =
     (case (host, credential_text) of
        (Some w, Some c) \<Rightarrow> (case add_credential S (cstr c) (w_host w) of (ok, H1) \<Rightarrow> (if ok then 1 else 0, Some (w\<lparr>w_host := H1\<rparr>)))
      | _ \<Rightarrow> (0, host))"

definition epx_host_set_default_access :: "world option \<Rightarrow> epx_access_tier \<Rightarrow> string option \<Rightarrow> world option" where
  "epx_host_set_default_access host tier prompt_reason = map_option (set_impl (set_default_access (to_policy tier prompt_reason))) host"

definition epx_host_set_limits :: "world option \<Rightarrow> epx_connection_limits option \<Rightarrow> world option" where
  "epx_host_set_limits host limits =
     (case (host, limits) of
        (Some w, Some l) \<Rightarrow> Some (set_impl (set_limits (ConnectionLimits_init\<lparr>
           handshakes_per_uid_per_sec := cl_handshakes_per_uid_per_sec l, handshake_burst := cl_handshake_burst l,
           max_requests_per_sec := cl_max_requests_per_sec l, request_burst := cl_request_burst l,
           disconnect_after_delayed := cl_disconnect_after_delayed l, max_subscriptions := cl_max_subscriptions l,
           stream_write_timeout_ms := cl_stream_write_timeout l\<rparr>)) w)
      | _ \<Rightarrow> host)"

definition epx_host_set_description :: "world option \<Rightarrow> string option \<Rightarrow> world option" where
  "epx_host_set_description host description =
     map_option (set_impl (set_description (case description of Some d \<Rightarrow> cstr d | None \<Rightarrow> []))) host"

definition epx_host_allow_peer :: "world option \<Rightarrow> bytes option \<Rightarrow> world option" where
  "epx_host_allow_peer host peer_public_key =
     (case (host, peer_public_key) of (Some w, Some k) \<Rightarrow> Some (set_impl (allow_peer (to_pk k)) w) | _ \<Rightarrow> host)"

definition epx_host_run :: "sodium \<Rightarrow> int \<Rightarrow> world option \<Rightarrow> string \<Rightarrow> unit c_result \<times> world option" where
  "epx_host_run S pid host err =
     (case host of
        None \<Rightarrow> ((EPX_ERR_INVALID_ARGUMENT, None, ''NULL host''), None)
      | Some w \<Rightarrow> (case run S pid w of (r, w1) \<Rightarrow> (guarded r err, Some w1)))"

definition epx_host_stop :: "sodium \<Rightarrow> wire_globals \<Rightarrow> (nat \<Rightarrow> setup_in) \<Rightarrow> conn_thread list \<Rightarrow> world option \<Rightarrow> world option" where
  "epx_host_stop S g ins ths host = map_option (stop S g ins ths) host"

definition epx_host_request_stop :: "world option \<Rightarrow> world option" where
  "epx_host_request_stop host = map_option (set_impl request_stop) host"

definition epx_host_stopped :: "world option \<Rightarrow> int" where
  "epx_host_stopped host = (case host of Some w \<Rightarrow> if stopped (w_host w) then 1 else 0 | None \<Rightarrow> 1)"

text \<open>\<open>None\<close>: not returned within the polls given.\<close>

definition epx_host_wait_until_stopped ::
  "sodium \<Rightarrow> wire_globals \<Rightarrow> (nat \<Rightarrow> setup_in) \<Rightarrow> conn_thread list \<Rightarrow> (bool \<times> bool) list \<Rightarrow> world option \<Rightarrow> world option option" where
  "epx_host_wait_until_stopped S g ins ths polls host =
     (case host of None \<Rightarrow> Some None | Some w \<Rightarrow> map_option Some (wait_until_stopped S g ins ths polls w))"

definition epx_host_stop_on_signals ::
  "nat option \<Rightarrow> int list option \<Rightarrow> nat \<Rightarrow> nat option list \<Rightarrow> int set \<Rightarrow> nat option list \<times> int set" where
  "epx_host_stop_on_signals host signals count slots installed =
     (case (host, signals) of
        (Some h, Some sigs) \<Rightarrow>
          fold (\<lambda>sig (slots, installed). stop_on_signals h [sig] slots installed) (take count sigs) (slots, installed)
      | _ \<Rightarrow> (slots, installed))"

definition epx_host_before_stop :: "world option \<Rightarrow> nat option \<Rightarrow> world option" where
  "epx_host_before_stop host hook =
     (case (host, hook) of (Some w, Some k) \<Rightarrow> Some (set_impl (before_stop (Some k)) w) | _ \<Rightarrow> host)"

definition epx_host_after_stop :: "world option \<Rightarrow> nat option \<Rightarrow> world option" where
  "epx_host_after_stop host hook =
     (case (host, hook) of (Some w, Some k) \<Rightarrow> Some (set_impl (after_stop (Some k)) w) | _ \<Rightarrow> host)"

definition epx_host_public_key :: "world option \<Rightarrow> bool \<Rightarrow> bytes option" where
  "epx_host_public_key host out_key =
     (case host of Some w \<Rightarrow> if out_key then Some (take 32 (public_key (w_host w))) else None | None \<Rightarrow> None)"

section \<open>Client\<close>

definition epx_client_create :: "Identity option \<Rightarrow> epx_trust_policy \<Rightarrow> bool \<Rightarrow> string \<Rightarrow> ClientImpl c_result" where
  "epx_client_create identity pol out_client err =
     (case (identity, out_client) of
        (Some i, True) \<Rightarrow> guarded (Ret (ClientImpl_init i (trust_policies ! trust_policy_value pol))) err
      | _ \<Rightarrow> null_argument)"

definition epx_client_free :: "cworld option \<Rightarrow> cworld option" where
  "epx_client_free client = map_option Client_destroy client"

definition on_client_impl :: "(ClientImpl \<Rightarrow> ClientImpl) \<Rightarrow> cworld \<Rightarrow> cworld" where
  "on_client_impl f w = w\<lparr>cw_impl := f (cw_impl w)\<rparr>"

definition epx_client_allow_peer :: "cworld option \<Rightarrow> bytes option \<Rightarrow> cworld option" where
  "epx_client_allow_peer client peer_public_key =
     (case (client, peer_public_key) of (Some w, Some k) \<Rightarrow> Some (on_client_impl (client_allow_peer (to_pk k)) w) | _ \<Rightarrow> client)"

definition epx_client_public_key :: "cworld option \<Rightarrow> bool \<Rightarrow> bytes option" where
  "epx_client_public_key client out_key =
     (case client of Some w \<Rightarrow> if out_key then Some (take 32 (client_public_key (cw_impl w))) else None | None \<Rightarrow> None)"

text \<open>The wait of a call is a function of the time it may take.\<close>

definition c_timeout :: "u32 \<Rightarrow> nat" where
  "c_timeout timeout_ms = (if timeout_ms \<noteq> 0 then unat timeout_ms else 5000)"

definition epx_client_get ::
  "sodium \<Rightarrow> wire_globals \<Rightarrow> connect_in \<Rightarrow> send_in \<Rightarrow> (nat \<Rightarrow> cworld \<Rightarrow> cworld) \<Rightarrow> cworld option \<Rightarrow> string option \<Rightarrow> string option
   \<Rightarrow> bytes option \<Rightarrow> nat \<Rightarrow> u32 \<Rightarrow> bool \<Rightarrow> string \<Rightarrow> epx_bytes c_result \<times> cworld option" where
  "epx_client_get S g ci si meanwhile client service endpoint data len timeout_ms out_response err =
     (case (client, service, endpoint, out_response) of
        (Some w, Some sv, Some ep, True) \<Rightarrow>
          (case get S g ci si (cstr sv) (cstr ep) (to_cpp_bytes data len) (meanwhile (c_timeout timeout_ms)) w of
             (r, w1) \<Rightarrow> (guarded (ex_bind r (\<lambda>resp. Ret (to_c_bytes resp))) err, Some w1))
      | _ \<Rightarrow> (null_argument, client))"

definition epx_client_send ::
  "sodium \<Rightarrow> wire_globals \<Rightarrow> connect_in \<Rightarrow> send_in \<Rightarrow> cworld option \<Rightarrow> string option \<Rightarrow> string option \<Rightarrow> bytes option \<Rightarrow> nat \<Rightarrow> string
   \<Rightarrow> unit c_result \<times> cworld option" where
  "epx_client_send S g ci si client service endpoint data len err =
     (case (client, service, endpoint) of
        (Some w, Some sv, Some ep) \<Rightarrow>
          (case client_send S g ci si (cstr sv) (cstr ep) (to_cpp_bytes data len) w of (r, w1) \<Rightarrow> (guarded r err, Some w1))
      | _ \<Rightarrow> (null_argument, client))"

text \<open>What the application's C function receives for a call of its callback.\<close>

fun c_delivery :: "callback_call \<Rightarrow> nat \<times> bytes option \<times> nat \<times> int" where
  "c_delivery (CallbackCall n dat flag) = (n, ptr_of dat, length dat, if flag then 1 else 0)"

text \<open>The first component is \<open>None\<close> while the call still waits after the turns given.\<close>

definition epx_client_get_stream ::
  "sodium \<Rightarrow> wire_globals \<Rightarrow> connect_in \<Rightarrow> send_in \<Rightarrow> (nat \<Rightarrow> (cworld \<Rightarrow> cworld) list) \<Rightarrow> cworld option \<Rightarrow> string option \<Rightarrow> string option
   \<Rightarrow> bytes option \<Rightarrow> nat \<Rightarrow> nat option \<Rightarrow> u32 \<Rightarrow> string \<Rightarrow> unit c_result option \<times> cworld option" where
  "epx_client_get_stream S g ci si waits client service endpoint data len on_chunk timeout_ms err =
     (case (client, service, endpoint, on_chunk) of
        (Some w, Some sv, Some ep, Some cb) \<Rightarrow>
          (case get_stream S g ci si (cstr sv) (cstr ep) (to_cpp_bytes data len) (Some cb) (waits (c_timeout timeout_ms)) w of
             (r, w1) \<Rightarrow> (map_option (\<lambda>r. guarded r err) r, Some w1))
      | _ \<Rightarrow> (Some null_argument, client))"

definition epx_client_open_stream ::
  "sodium \<Rightarrow> wire_globals \<Rightarrow> connect_in \<Rightarrow> cworld option \<Rightarrow> string option \<Rightarrow> string option \<Rightarrow> bool \<Rightarrow> string \<Rightarrow> OutputStream c_result \<times> cworld option" where
  "epx_client_open_stream S g ci client service endpoint out_stream err =
     (case (client, service, endpoint, out_stream) of
        (Some w, Some sv, Some ep, True) \<Rightarrow> (case open_stream S g ci (cstr sv) (cstr ep) w of (r, w1) \<Rightarrow> (guarded r err, Some w1))
      | _ \<Rightarrow> (null_argument, client))"

text \<open>Entry points without \<open>guarded\<close>: an exception of the method leaves the C function.\<close>

definition epx_output_stream_write ::
  "sodium \<Rightarrow> send_in \<Rightarrow> OutputStream option \<Rightarrow> bytes option \<Rightarrow> nat \<Rightarrow> cworld \<Rightarrow> int ex \<times> OutputStream option \<times> cworld" where
  "epx_output_stream_write S si stream chunk len w =
     (if stream = None then (Ret 0, stream, w)
      else case out_write S si (to_cpp_bytes chunk len) stream w of
             (r, stream1, w1) \<Rightarrow> (ex_bind r (\<lambda>ok. Ret (if ok then 1 else 0)), stream1, w1))"

definition epx_output_stream_finish :: "sodium \<Rightarrow> send_in \<Rightarrow> OutputStream option \<Rightarrow> cworld \<Rightarrow> unit ex \<times> OutputStream option \<times> cworld" where
  "epx_output_stream_finish S si stream w = (if stream = None then (Ret (), stream, w) else out_finish S si stream w)"

definition epx_output_stream_free :: "sodium \<Rightarrow> send_in \<Rightarrow> OutputStream option \<Rightarrow> cworld \<Rightarrow> cworld" where
  "epx_output_stream_free S si stream w = (if stream = None then w else out_destroy S si stream w)"

definition epx_client_subscribe ::
  "sodium \<Rightarrow> wire_globals \<Rightarrow> connect_in \<Rightarrow> send_in \<Rightarrow> cworld option \<Rightarrow> string option \<Rightarrow> string option \<Rightarrow> nat option \<Rightarrow> bool \<Rightarrow> string
   \<Rightarrow> Subscription c_result \<times> cworld option" where
  "epx_client_subscribe S g ci si client service topic on_message out_subscription err =
     (case (client, service, topic, on_message, out_subscription) of
        (Some w, Some sv, Some t, Some cb, True) \<Rightarrow>
          (case subscribe S g ci si (cstr sv) (cstr t) (Some cb) w of (r, w1) \<Rightarrow> (guarded r err, Some w1))
      | _ \<Rightarrow> (null_argument, client))"

definition epx_subscription_unsubscribe :: "sodium \<Rightarrow> send_in \<Rightarrow> Subscription option \<Rightarrow> cworld \<Rightarrow> unit ex \<times> cworld" where
  "epx_subscription_unsubscribe S si subscription w = (if subscription = None then (Ret (), w) else unsubscribe S si subscription w)"

definition epx_subscription_active :: "Subscription option \<Rightarrow> cworld \<Rightarrow> int" where
  "epx_subscription_active subscription w =
     (if subscription \<noteq> None then if subscription_active subscription w then 1 else 0 else 0)"

definition epx_subscription_free :: "sodium \<Rightarrow> send_in \<Rightarrow> Subscription option \<Rightarrow> cworld \<Rightarrow> cworld" where
  "epx_subscription_free S si subscription w = (if subscription = None then w else subscription_destroy S si subscription w)"

definition epx_client_disconnect :: "cworld option \<Rightarrow> string option \<Rightarrow> cworld option" where
  "epx_client_disconnect client service =
     (case (client, service) of (Some w, Some sv) \<Rightarrow> Some (disconnect (cstr sv) w) | _ \<Rightarrow> client)"

definition epx_client_set_stream_write_timeout :: "cworld option \<Rightarrow> int \<Rightarrow> cworld option" where
  "epx_client_set_stream_write_timeout client ms = map_option (on_client_impl (set_stream_write_timeout ms)) client"

text \<open>\<open>std::chrono::seconds\<close> counts in a signed 64-bit integer.\<close>

definition epx_client_enable_key_rotation :: "cworld option \<Rightarrow> u64 \<Rightarrow> u64 \<Rightarrow> cworld option" where
  "epx_client_enable_key_rotation client interval_seconds max_bytes =
     map_option (on_client_impl (enable_key_rotation \<lparr>rot_interval = sint interval_seconds, rot_max_bytes = max_bytes\<rparr>)) client"

definition epx_client_session_epoch :: "cworld option \<Rightarrow> string option \<Rightarrow> int" where
  "epx_client_session_epoch client service =
     (case (client, service) of (Some w, Some sv) \<Rightarrow> session_epoch (cstr sv) w | _ \<Rightarrow> -1)"

section \<open>Enumeration\<close>

definition epx_list_services :: "bool \<Rightarrow> bool \<Rightarrow> os \<Rightarrow> string \<Rightarrow> (string list \<times> nat) c_result \<times> os" where
  "epx_list_services out_names out_count s err =
     (if \<not> out_names \<or> \<not> out_count then (null_argument, s)
      else case list_services s of (names, s1) \<Rightarrow> (guarded (Ret (map to_c_string names, length names)) err, s1))"

definition c_endpoint :: "DescribedEndpoint \<Rightarrow> epx_endpoint_desc" where
  "c_endpoint e = \<lparr>ced_name = to_c_string (de_name e), ced_kind = c_kinds ! kind_value (de_kind e)\<rparr>"

definition epx_describe :: "string option \<Rightarrow> bool \<Rightarrow> os \<Rightarrow> string \<Rightarrow> epx_service_description c_result \<times> os" where
  "epx_describe service out_description s err =
     (case (service, out_description) of
        (Some sv, True) \<Rightarrow>
          (case describe (cstr sv) s of (d, s1) \<Rightarrow>
             (guarded (case d of
                None \<Rightarrow> Throw (EpxError NotFound (''no live service registered as '' @ quoted (cstr sv)))
              | Some d \<Rightarrow> Ret \<lparr>csd_service_name = to_c_string (sd_service_name d), csd_description = to_c_string (sd_description d),
                   csd_pid = sd_pid d, csd_identity_pubkey = take 32 (sd_identity_pubkey d),
                   csd_endpoints = map c_endpoint (sd_endpoints d), csd_endpoint_count = length (sd_endpoints d)\<rparr>) err, s1))
      | _ \<Rightarrow> (null_argument, s))"

section \<open>Enumerations, buffers and strings\<close>

text \<open>The casts keep the meaning of every enumerator.\<close>

lemma tier_of_C [simp]:
  "ap_tier (to_policy EPX_ACCESS_OPEN reason) = Open" "ap_tier (to_policy EPX_ACCESS_PINNED_PEERS reason) = PinnedPeers"
  "ap_tier (to_policy EPX_ACCESS_CERTIFICATE reason) = Certificate" "ap_tier (to_policy EPX_ACCESS_PROMPT_USER reason) = PromptUser"
  by (simp_all add: to_policy_def access_tiers_def Let_def split: option.split)

lemma c_kind_roundtrip: "c_kinds ! kind_value (endpoint_kinds ! endpoint_kind_value k) = k"
  by (cases k) (simp_all add: c_kinds_def endpoint_kinds_def)

lemma kind_roundtrip: "endpoint_kinds ! endpoint_kind_value (c_kinds ! kind_value k) = k"
  by (cases k) (simp_all add: c_kinds_def endpoint_kinds_def)

lemma bytes_roundtrip [simp]: "to_cpp_bytes (by_data (to_c_bytes b)) (by_len (to_c_bytes b)) = b"
  by (simp add: to_cpp_bytes_def to_c_bytes_def)

lemma ptr_roundtrip [simp]: "to_cpp_bytes (ptr_of b) (length b) = b"
  by (simp add: to_cpp_bytes_def ptr_of_def)

lemma c_string_roundtrip: "cstr (to_c_string s) = s \<longleftrightarrow> CHR 0x00 \<notin> set s"
proof
  assume "cstr (to_c_string s) = s"
  then have "\<forall>c \<in> set s. c \<noteq> CHR 0x00" by (metis cstr_def set_takeWhileD)
  then show "CHR 0x00 \<notin> set s" by blast
next
  assume "CHR 0x00 \<notin> set s"
  then have "\<And>c. c \<in> set s \<Longrightarrow> c \<noteq> CHR 0x00" by blast
  then show "cstr (to_c_string s) = s" by (simp add: cstr_def to_c_string_def c_str_def takeWhile_append2)
qed

lemma cstr_no_NUL [simp]: "CHR 0x00 \<notin> set (cstr p)"
  by (auto simp: cstr_def dest: set_takeWhileD)

lemma map_code_inject: "map_code c = map_code d \<longleftrightarrow> c = d"
  by (cases c; cases d) simp_all

lemma map_code_codes [simp]:
  "map_code c \<noteq> EPX_OK" "map_code c \<noteq> EPX_ERR_INVALID_ARGUMENT" "map_code c \<noteq> EPX_ERR_INTERNAL"
  by (cases c; simp)+

lemmas map_code_codes' [simp] = map_code_codes [symmetric]

section \<open>Failures\<close>

lemma guarded_Throw:
  "guarded (Throw e) err = (st, v, m) \<Longrightarrow> v = None \<and> st \<noteq> EPX_OK \<and> (st = map_code c \<longleftrightarrow> (\<exists>m. e = EpxError c m))"
  by (cases e) (auto simp: map_code_inject)

lemma guarded_status:
  assumes "guarded r err = (st, v, err')"
  shows "st = EPX_OK \<longleftrightarrow> (\<exists>x. r = Ret x)" "v = Some x \<longleftrightarrow> r = Ret x" "st = map_code c \<longleftrightarrow> (\<exists>m. r = Throw (EpxError c m))"
    "r = Throw (EpxError d m) \<Longrightarrow> err' = cstr m"
proof -
  have "(st = EPX_OK \<longleftrightarrow> (\<exists>x. r = Ret x)) \<and> (v = Some x \<longleftrightarrow> r = Ret x) \<and> (st = map_code c \<longleftrightarrow> (\<exists>m. r = Throw (EpxError c m)))"
  proof (cases r)
    case (Throw e)
    with assms guarded_Throw [of e err st v err' c] show ?thesis by auto
  qed (use assms in auto)
  then show "st = EPX_OK \<longleftrightarrow> (\<exists>x. r = Ret x)" "v = Some x \<longleftrightarrow> r = Ret x" "st = map_code c \<longleftrightarrow> (\<exists>m. r = Throw (EpxError c m))" by blast+
  show "r = Throw (EpxError d m) \<Longrightarrow> err' = cstr m" using assms by simp
qed

text \<open>A call of \<open>get\<close> through the C ABI tells the caller what the C++ method would: success with the same
  data, or the error's own code and its message. A NULL argument is refused and changes nothing.\<close>

theorem c_get_reports:
  assumes "epx_client_get S g ci si mw client service endpoint data len timeout out err = ((st, resp, err'), client')"
  shows "(client = None \<or> service = None \<or> endpoint = None \<or> \<not> out)
       \<and> status_value st = 100 \<and> resp = None \<and> client' = client \<and> err' = ''NULL argument''
     \<or> (\<exists>w sv ep r w1. client = Some w \<and> service = Some sv \<and> endpoint = Some ep \<and> out
          \<and> get S g ci si (cstr sv) (cstr ep) (to_cpp_bytes data len) (mw (c_timeout timeout)) w = (r, w1) \<and> client' = Some w1
          \<and> (\<forall>d. (\<exists>b. resp = Some b \<and> to_cpp_bytes (by_data b) (by_len b) = d) \<longleftrightarrow> r = Ret d)
          \<and> (status_value st = 0 \<longleftrightarrow> (\<exists>d. r = Ret d))
          \<and> (\<forall>c. st = map_code c \<longleftrightarrow> (\<exists>m. r = Throw (EpxError c m)))
          \<and> (\<forall>c m. r = Throw (EpxError c m) \<longrightarrow> err' = cstr m))"
proof (cases "client = None \<or> service = None \<or> endpoint = None \<or> \<not> out")
  case True
  with assms show ?thesis by (auto simp: epx_client_get_def null_argument_def split: option.splits)
next
  case False
  then obtain w sv ep where c: "client = Some w" "service = Some sv" "endpoint = Some ep" "out" by auto
  obtain r w1 where g: "get S g ci si (cstr sv) (cstr ep) (to_cpp_bytes data len) (mw (c_timeout timeout)) w = (r, w1)" by fastforce
  let ?r = "ex_bind r (\<lambda>resp. Ret (to_c_bytes resp))"
  from assms c g have e: "guarded ?r err = (st, resp, err')" and "client' = Some w1" by (auto simp: epx_client_get_def)
  moreover have "status_value st = 0 \<longleftrightarrow> st = EPX_OK" by (cases st) simp_all
  moreover have "(\<exists>b. resp = Some b \<and> to_cpp_bytes (by_data b) (by_len b) = d) \<longleftrightarrow> r = Ret d" for d
  proof (cases r)
    case (Ret x)
    then show ?thesis using e by auto
  next
    case (Throw x)
    then show ?thesis using guarded_status(2) [OF e] by auto
  qed
  ultimately show ?thesis using c g guarded_status(1,3,4) [OF e] by (cases r) auto
qed

section \<open>Serving with C functions\<close>

text \<open>A unary handler in C is a list of calls of \<open>epx_respond_ok\<close> and \<open>epx_respond_error\<close> for each input.\<close>

datatype respond_call = RespondOk "bytes option" nat | RespondError "string option"

fun respond :: "respond_call \<Rightarrow> epx_response_writer \<Rightarrow> epx_response_writer" where
  "respond (RespondOk data len) wr = the (epx_respond_ok data len (Some wr))"
| "respond (RespondError m) wr = the (epx_respond_error m (Some wr))"

definition c_handler :: "(bytes option \<Rightarrow> nat \<Rightarrow> string \<Rightarrow> epx_peer_info \<Rightarrow> nat \<Rightarrow> respond_call list) \<Rightarrow> epx_handler_fn" where
  "c_handler prog data len endpoint peer user_data wr = fold respond (prog data len endpoint peer user_data) wr"

text \<open>The documented answer: empty and ok without a call, else what the last call says.\<close>

definition c_answer :: "respond_call list \<Rightarrow> u8 \<times> bytes" where
  "c_answer calls =
     (if calls = [] then (0, [])
      else case last calls of
        RespondOk data len \<Rightarrow> (0, to_cpp_bytes data len)
      | RespondError m \<Rightarrow> (1, bytes_of_string (case m of Some m \<Rightarrow> cstr m | None \<Rightarrow> ''error'')))"

lemma fold_respond:
  "resp_ok wr \<Longrightarrow> resp_payload wr = [] \<Longrightarrow>
   (let r = fold respond calls wr in (if resp_ok r then (0, resp_payload r) else (1, bytes_of_string (resp_error r)))) = c_answer calls"
proof (cases calls rule: rev_cases)
  case (snoc cs c)
  then show ?thesis by (cases c) (simp_all add: c_answer_def epx_respond_ok_def epx_respond_error_def)
qed (simp add: c_answer_def)

lemma c_handler_result:
  "\<exists>wr. wrap_handler (c_handler prog) ud dat ep peer = Ret wr
     \<and> c_answer (prog (ptr_of dat) (length dat) (c_str ep) (fill_peer peer) ud)
         = (if resp_ok wr then (0, resp_payload wr) else (1, bytes_of_string (resp_error wr)))"
  unfolding wrap_handler_def c_handler_def by (subst fold_respond [symmetric, of "\<lparr>resp_ok = True, resp_payload = [], resp_error = []\<rparr>"]) (auto simp: Let_def)

lemma c_dispatch:
  assumes "ee_kind e \<in> {KReceive, KSend}" "ee_unary e = Some (wrap_handler (c_handler prog) ud)"
  shows "dispatch S e req th w
      = (Again th, case c_answer (prog (ptr_of (req_data req)) (length (req_data req)) (c_str (req_endpoint req)) (fill_peer (ct_peer th)) ud) of
           (status, dat) \<Rightarrow> reply S (ct_cs th) req status dat (log_call (UnaryCall (req_endpoint req) (req_data req) (ct_peer th)) w))"
proof -
  obtain wr where "wrap_handler (c_handler prog) ud (req_data req) (req_endpoint req) (ct_peer th) = Ret wr"
    "c_answer (prog (ptr_of (req_data req)) (length (req_data req)) (c_str (req_endpoint req)) (fill_peer (ct_peer th)) ud)
       = (if resp_ok wr then (0, resp_payload wr) else (1, bytes_of_string (resp_error wr)))"
    using c_handler_result by blast
  with assms show ?thesis by (auto simp: dispatch_def Let_def)
qed

lemma exposed_entry:
  assumes "epx_host_expose_access (Some w) kind (Some ep) (Some h) ud tier reason err = ((EPX_OK, v, err'), Some w')"
  shows "w' = w\<lparr>w_host := w_host w'\<rparr> \<and> cstr ep \<noteq> kUnsubscribeEndpoint
    \<and> (\<exists>e. map_of (h_handlers (w_host w')) (cstr ep) = Some e \<and> ee_kind e \<in> {KReceive, KSend} \<and> ee_unary e = Some (wrap_handler h ud)
         \<and> entry_access (w_host w') e = to_policy tier reason)"
  using assms
  by (auto simp: epx_host_expose_access_def on_impl_def expose_policy_def check_endpoint_name_def kUnsubscribeEndpoint_def kReservedPrefix_def
      set_entry_def update_conv' entry_access_def split: if_splits prod.splits)

text \<open>C20: When \<open>epx_host_expose_access\<close> reports success, a request to that endpoint that is within the request limit is answered from the
  C function's last call of \<open>epx_respond_ok\<close> or \<open>epx_respond_error\<close> (empty and ok without one), and the function sees the request's
  bytes, the endpoint, the authenticated peer and its own \<open>user_data\<close>; a peer that the requested tier does not permit gets
  status 3 and the function is not called.\<close>

theorem c_endpoint_answers:
  assumes exposed: "epx_host_expose_access (Some w) kind (Some ep) (Some (c_handler prog)) ud tier reason err = ((EPX_OK, v, err'), Some w')"
    and req: "decode_request opened = Ok req" "req_endpoint req = cstr ep"
    and rate: "rate_limit (h_limits (w_host w')) i th = (True, th1)"
    and auth: "authorize (w_host w') (ct_peer th) (cstr ep) (to_policy tier reason) (ti_unix_time i) (ct_cache th1) (w_os w') = (Ret allowed, cache1, s1)"
  shows "handle_request S i opened th w' =
      (Again (th1\<lparr>ct_cache := cache1\<rparr>),
       if \<not> allowed then reply S (ct_cs th) req 3 (bytes_of_string ''access denied'') (set_os s1 w')
       else (case c_answer (prog (ptr_of (req_data req)) (length (req_data req)) (c_str (cstr ep)) (fill_peer (ct_peer th)) ud) of (status, dat) \<Rightarrow>
               reply S (ct_cs th) req status dat (log_call (UnaryCall (cstr ep) (req_data req) (ct_peer th)) (set_os s1 w'))))
    \<and> (map_of (ct_cache th1) (cstr ep) = None \<longrightarrow>
      allowed = permitted (w_host w') (ct_peer th) (cstr ep) (to_policy tier reason) (ti_unix_time i) (w_os w'))" (is "?served \<and> ?decided")
proof -
  obtain e where e: "map_of (h_handlers (w_host w')) (cstr ep) = Some e" "ee_kind e \<in> {KReceive, KSend}"
      "ee_unary e = Some (wrap_handler (c_handler prog) ud)" "entry_access (w_host w') e = to_policy tier reason"
    and n: "cstr ep \<noteq> kUnsubscribeEndpoint" using exposed_entry [OF exposed] by blast
  have t: "ct_cs th1 = ct_cs th" "ct_peer th1 = ct_peer th"
    using rate by (auto simp: rate_limit_def Let_def split: if_splits prod.splits bool.splits)
  have "ee_kind e \<noteq> KTopic" using e(2) by auto
  with c_dispatch [OF e(2,3), of S req "th1\<lparr>ct_cache := cache1\<rparr>" "set_os s1 w'"]
  have ?served
    by (simp add: handle_request_def req n rate e(1,4) auth Let_def t)
  moreover have ?decided
  proof
    assume "map_of (ct_cache th1) (cstr ep) = None"
    with auth have "authorize_fresh (w_host w') (ct_peer th) (cstr ep) (to_policy tier reason) (ti_unix_time i) (w_os w') = (Ret allowed, s1)"
      by (auto simp: authorize_def split: prod.splits ex.splits)
    then show "allowed = permitted (w_host w') (ct_peer th) (cstr ep) (to_policy tier reason) (ti_unix_time i) (w_os w')"
      by (rule authorize_fresh_permitted)
  qed
  ultimately show ?thesis ..
qed

text \<open>The caller of \<open>epx_stream_writer_write\<close> is told what the writer says, and a NULL writer writes nothing.\<close>

lemma c_stream_writes:
  "run_writer S c rid (epx_stream_writer_write (SWrite True chunk len k)) sq conns =
     (case on_conn c (\<lambda>cs. send_chunk S cs rid sq False (to_cpp_bytes chunk len)) conns of
        (ok, conns1) \<Rightarrow> run_writer S c rid (epx_stream_writer_write (k (if ok then 1 else 0))) (sq + 1) conns1)"
  "run_writer S c rid (epx_stream_writer_write (SWrite False chunk len k)) sq conns = run_writer S c rid (epx_stream_writer_write (k 0)) sq conns"
  by (simp_all split: prod.split)

section \<open>Signals and exceptions at the boundary\<close>

text \<open>The host is entered into the table once for every signal.\<close>

lemma register_again:
  "register_signal_host h (replicate m (Some x) @ replicate n None)
     = (if n = 0 then replicate m (Some x) else replicate m (Some x) @ Some h # replicate (n - 1) None)"
  by (induction m) (cases n; simp)+

lemma signals_fill_table:
  "length sigs + m \<le> 8 \<Longrightarrow>
   fold (\<lambda>sig (slots, ins). stop_on_signals h [sig] slots ins) sigs (replicate m (Some h) @ replicate (8 - m) None, ins)
     = (replicate (m + length sigs) (Some h) @ replicate (8 - (m + length sigs)) None, ins \<union> set sigs)"
proof (induction sigs arbitrary: m ins)
  case (Cons s sigs)
  have "register_signal_host h (replicate m (Some h) @ replicate (8 - m) None) = replicate (Suc m) (Some h) @ replicate (8 - Suc m) None"
    using Cons.prems by (subst register_again) (simp add: replicate_app_Cons_same)
  then show ?case using Cons.IH [of "Suc m" "insert s ins"] Cons.prems by (simp add: stop_on_signals_def)
qed simp

theorem c_signals_use_one_slot_each:
  assumes "length sigs = count" "count \<le> kMaxSignalHosts"
  shows "fst (epx_host_stop_on_signals (Some h) (Some sigs) count g_signal_hosts_init {})
           = replicate count (Some h) @ replicate (kMaxSignalHosts - count) None"
  using assms signals_fill_table [of sigs 0 h "{}"]
  by (simp add: epx_host_stop_on_signals_def g_signal_hosts_init_def kMaxSignalHosts_def)

theorem c_signals_lose_later_hosts:
  assumes "length sigs = kMaxSignalHosts" "h' \<noteq> h"
  shows "Some h' \<notin> set (fst (epx_host_stop_on_signals (Some h') (Some sigs') n
           (fst (epx_host_stop_on_signals (Some h) (Some sigs) kMaxSignalHosts g_signal_hosts_init {})) {}))"
proof -
  have "fst (fold (\<lambda>sig (slots, ins). stop_on_signals h' [sig] slots ins) ss (replicate 8 (Some h), ins)) = replicate 8 (Some h)" for ss ins
  proof (induction ss arbitrary: ins)
    case (Cons s ss)
    have "register_signal_host h' (replicate 8 (Some h)) = replicate 8 (Some h)" using register_again [of h' 8 h 0] by simp
    with Cons show ?case by (simp add: stop_on_signals_def)
  qed simp
  moreover have "fst (epx_host_stop_on_signals (Some h) (Some sigs) kMaxSignalHosts g_signal_hosts_init {}) = replicate 8 (Some h)"
    using assms(1) by (subst c_signals_use_one_slot_each) (simp_all add: kMaxSignalHosts_def)
  ultimately show ?thesis using assms(2) by (simp add: epx_host_stop_on_signals_def)
qed

text \<open>A failing key generation leaves \<open>epx_output_stream_write\<close> as a C++ exception.\<close>

theorem c_write_lets_exception_out:
  assumes "map_of (cw_store w) (out_conn st) = Some conn" "\<not> out_finished st" "rotation_due conn (se_now si)"
    "crypto_kx_keypair S (se_ephemeral si) = None"
  shows "fst (epx_output_stream_write S si (Some st) chunk len w) = Throw (RuntimeError ''crypto_kx_keypair failed'')"
  using assms
  by (simp add: epx_output_stream_write_def out_write_def send_on_def seal_and_send_def maybe_begin_rekey_locked_def generate_ephemeral_def)

section \<open>Instance\<close>

definition echo_prog :: "bytes option \<Rightarrow> nat \<Rightarrow> string \<Rightarrow> epx_peer_info \<Rightarrow> nat \<Rightarrow> respond_call list" where
  "echo_prog data len endpoint peer user_data = [RespondError None, RespondOk data len]"

theorem c_endpoint_answers_witness:
  "\<exists>w'. epx_host_expose_access (Some (demo_world [])) EPX_KIND_RECEIVE (Some ''echo'') (Some (c_handler echo_prog)) 7 EPX_ACCESS_OPEN None []
          = ((EPX_OK, Some (), []), Some w')
     \<and> handle_request toy_sodium demo_turn (encode_request demo_request) demo_thread w'
         = (Again (demo_thread\<lparr>ct_cache := [(''echo'', True)]\<rparr>),
            reply toy_sodium 1 demo_request 0 [5, 6] (log_call (UnaryCall ''echo'' [5, 6] demo_peer) w'))"
proof -
  obtain w' where x: "epx_host_expose_access (Some (demo_world [])) EPX_KIND_RECEIVE (Some ''echo'') (Some (c_handler echo_prog)) 7 EPX_ACCESS_OPEN None []
          = ((EPX_OK, Some (), []), Some w')" and l: "h_limits (w_host w') = ConnectionLimits_init"
    by (auto simp: epx_host_expose_access_def on_impl_def expose_policy_def check_endpoint_name_def kReservedPrefix_def endpoint_kinds_def cstr_def
        set_entry_def demo_world_def demo_host_def HostImpl_init_def)
  have r: "decode_request (encode_request demo_request) = Ok demo_request" "req_endpoint demo_request = cstr ''echo''"
    by (simp_all add: request_roundtrip demo_request_fields cstr_def)
  have "rate_limit (h_limits (w_host w')) demo_turn demo_thread = (True, demo_thread)"
    by (simp add: l rate_limit_def ConnectionLimits_init_def)
  moreover have "authorize (w_host w') (ct_peer demo_thread) (cstr ''echo'') (to_policy EPX_ACCESS_OPEN None) (ti_unix_time demo_turn) (ct_cache demo_thread) (w_os w')
      = (Ret True, [(''echo'', True)], w_os w')"
    by (simp add: authorize_def authorize_fresh_def demo_thread_def cstr_def)
  ultimately have "handle_request toy_sodium demo_turn (encode_request demo_request) demo_thread w' = (Again (demo_thread\<lparr>ct_cache := [(''echo'', True)]\<rparr>),
      case c_answer (echo_prog (ptr_of [5, 6]) 2 (c_str ''echo'') (fill_peer demo_peer) 7) of (status, dat) \<Rightarrow>
        reply toy_sodium 1 demo_request status dat (log_call (UnaryCall ''echo'' [5, 6] demo_peer) (set_os (w_os w') w')))"
    using c_endpoint_answers [OF x r, of demo_turn demo_thread demo_thread True "[(''echo'', True)]" "w_os w'" toy_sodium]
    by (simp add: demo_request_fields demo_thread_def cstr_def numeral_2_eq_2)
  moreover have "c_answer (echo_prog (ptr_of [5, 6]) 2 (c_str ''echo'') (fill_peer demo_peer) 7) = (0, [5, 6])"
    by (simp add: c_answer_def echo_prog_def ptr_of_def to_cpp_bytes_def)
  ultimately show ?thesis using x by (auto simp: set_os_def w_os_def)
qed

end
