(* ===== verification/Epx_Calls.thy ===== *)
theory Epx_Calls
  imports Epx_Client
begin

text \<open>
  Concurrent calls on a client (\<^verbatim>\<open>src/client.cpp\<close>): what its operations and its reader threads do to the tables of pending requests
  and stream sinks, in any interleaving. The locale \<open>call_tables\<close> goes through the operations once; it is interpreted
  on the responses that wait in the tables and on the request ids in use.
\<close>

section \<open>The call tables of a connection\<close>

definition in_use :: "Connection \<Rightarrow> u64 set" where
  "in_use conn = fst ` set (conn_pending conn) \<union> fst ` set (conn_stream_sinks conn)"

definition answered :: "Connection \<Rightarrow> (u64 \<times> ResponsePayload) set" where
  "answered conn = {(rid, resp). map_of (conn_pending conn) rid = Some (Some resp)}"

text \<open>A change that at most adds a call with the id \<open>rid\<close>, which has no answer yet; one that adds no call at all.\<close>

definition enters :: "u64 \<Rightarrow> Connection \<Rightarrow> Connection \<Rightarrow> bool" where
  "enters rid conn conn' \<longleftrightarrow> conn_next_request_id conn' = conn_next_request_id conn \<and> in_use conn' \<subseteq> insert rid (in_use conn)
     \<and> answered conn' \<subseteq> answered conn"

definition calm :: "Connection \<Rightarrow> Connection \<Rightarrow> bool" where
  "calm conn conn' \<longleftrightarrow> conn_next_request_id conn' = conn_next_request_id conn \<and> in_use conn' \<subseteq> in_use conn \<and> answered conn' \<subseteq> answered conn"

lemma calm_enters: "calm conn conn' \<Longrightarrow> enters rid conn conn'"
  by (auto simp: calm_def enters_def)

lemma calm_same:
  "conn_pending conn' = conn_pending conn \<Longrightarrow> conn_stream_sinks conn' = conn_stream_sinks conn \<Longrightarrow>
   conn_next_request_id conn' = conn_next_request_id conn \<Longrightarrow> calm conn conn'"
  by (simp add: calm_def in_use_def answered_def)

lemma enters_intros [intro]:
  "enters rid conn (set_sink rid k conn)" "enters rid conn (set_pending rid None conn)"
  by (auto simp: enters_def in_use_def answered_def set_sink_def set_pending_def dom_update update_conv' split: if_splits)

lemma calm_intros [intro]:
  "calm conn (erase_sink rid conn)" "calm conn (erase_pending rid conn)" "calm conn conn"
  using dom_delete_subset [of rid "conn_pending conn"] dom_delete_subset [of rid "conn_stream_sinks conn"]
  by (auto simp: calm_def in_use_def answered_def erase_sink_def erase_pending_def delete_conv' split: if_splits)

lemma calm_set_sink: "map_of (conn_stream_sinks conn) rid \<noteq> None \<Longrightarrow> calm conn (set_sink rid k conn)"
  by (auto simp: calm_def in_use_def answered_def set_sink_def dom_update map_of_eq_None_iff)

lemma store_on_connection:
  "map_of (cw_store (on_connection c f w)) = (case map_of (cw_store w) c of None \<Rightarrow> map_of (cw_store w) | Some conn \<Rightarrow> (map_of (cw_store w))(c \<mapsto> f conn))"
  by (simp add: on_connection_def update_conv' split: option.splits)

text \<open>The response payloads that a turn of the reader authenticates.\<close>

definition opened_responses :: "sodium \<Rightarrow> int \<Rightarrow> nat \<Rightarrow> cworld \<Rightarrow> (nat \<times> bytes) list" where
  "opened_responses S now c w =
     (case (map_of (cw_store w) c, map_of (cw_rx w) c) of
        (Some conn, Some rx) \<Rightarrow>
          (case client_recv S conn rx now of (ev, _, _) \<Rightarrow>
             (case ev of CResponse p \<Rightarrow> if conn_alive conn then [(c, p)] else [] | _ \<Rightarrow> []))
      | _ \<Rightarrow> [])"

text \<open>What the application's threads do, call by call, and the network.\<close>

inductive client_op :: "sodium \<Rightarrow> wire_globals \<Rightarrow> cworld \<Rightarrow> cworld \<Rightarrow> bool" for S g where
  dialling: "get_or_connect S g ci tgt w = (r0, w') \<Longrightarrow> client_op S g w w'"
| get1: "get_begin S g ci si tgt ep d w = (r, w') \<Longrightarrow> client_op S g w w'"
| get2: "get_finish tgt ep c rid w = (r', w') \<Longrightarrow> client_op S g w w'"
| oneway: "client_send S g ci si tgt ep d w = (r2, w') \<Longrightarrow> client_op S g w w'"
| stream1: "get_stream_begin S g ci si tgt ep d cb w = (r, w') \<Longrightarrow> client_op S g w w'"
| stream2: "stream_check tgt ep c rid b w = (r3, w') \<Longrightarrow> client_op S g w w'"
| open_out: "open_stream S g ci tgt ep w = (r4, w') \<Longrightarrow> client_op S g w w'"
| writing: "out_write S si d impl w = (r5, impl', w') \<Longrightarrow> client_op S g w w'"
| finishing: "out_finish S si impl w = (r6, impl', w') \<Longrightarrow> client_op S g w w'"
| subscribing: "subscribe S g ci si tgt ep cb w = (r7, w') \<Longrightarrow> client_op S g w w'"
| unsubscribing: "unsubscribe S si sb w = (r8, w') \<Longrightarrow> client_op S g w w'"
| closing: "client_op S g w (close_connection tgt w)"
| configuring: "client_op S g w (w\<lparr>cw_impl := I\<rparr>)"
| network: "client_op S g w (on_connection c (\<lambda>conn. conn\<lparr>conn_transport := t'\<rparr>) w)"
| files: "client_op S g w (set_cw_os s w)"

section \<open>One pass over the operations\<close>

locale call_tables =
  fixes R :: "nat \<Rightarrow> cworld \<Rightarrow> cworld \<Rightarrow> bool"
  assumes same: "map_of (cw_store w') = map_of (cw_store w) \<Longrightarrow> R 0 w w'"
    and mono: "R j w w' \<Longrightarrow> j \<le> k \<Longrightarrow> R k w w'"
    and trans: "R j w w' \<Longrightarrow> R k w' w'' \<Longrightarrow> R (j + k) w w''"
    and change: "map_of (cw_store w) c = Some conn \<Longrightarrow> calm conn conn' \<Longrightarrow> map_of (cw_store w') = (map_of (cw_store w))(c \<mapsto> conn') \<Longrightarrow> R 0 w w'"
    and draw: "map_of (cw_store w) c = Some conn \<Longrightarrow> enters (conn_next_request_id conn) (conn\<lparr>conn_next_request_id := conn_next_request_id conn + 1\<rparr>) conn' \<Longrightarrow>
      map_of (cw_store w') = (map_of (cw_store w))(c \<mapsto> conn') \<Longrightarrow> R 1 w w'"
    and install: "conn_next_request_id conn' = 1 \<Longrightarrow> in_use conn' = {} \<Longrightarrow> map_of (cw_store w') = (map_of (cw_store w))(c \<mapsto> conn') \<Longrightarrow> R 0 w w'"
begin

lemma after: "R k w w' \<Longrightarrow> R 0 w' w'' \<Longrightarrow> R k w w''" "R 0 w w' \<Longrightarrow> R k w' w'' \<Longrightarrow> R k w w''"
  using trans [of k w w' 0 w''] trans [of 0 w w' k w''] by simp_all

lemma on_connection_calm: "(\<And>conn. map_of (cw_store w) c = Some conn \<Longrightarrow> calm conn (f conn)) \<Longrightarrow> R 0 w (on_connection c f w)"
  by (cases "map_of (cw_store w) c") (auto intro: same change simp: store_on_connection)

lemma after_calm: "R k w x \<Longrightarrow> (\<And>conn. calm conn (f conn)) \<Longrightarrow> R k w (on_connection c f x)"
  by (rule after(1) [OF _ on_connection_calm])

lemma send_on_calm: "send_on S i c ty p w = (r, w') \<Longrightarrow> R 0 w w'"
  by (auto simp: send_on_def same split: option.splits ex.splits prod.splits dest!: seal_and_send_pending
      intro!: change [OF _ calm_same] simp: update_conv')

lemma fresh_then:
  assumes "fresh_id c w = (rid, w1)" "\<And>conn. enters rid conn (f conn)" "map_of (cw_store w2) = map_of (cw_store (on_connection c f w1))"
  shows "R 1 w w2"
proof (cases "map_of (cw_store w) c")
  case None
  with assms show ?thesis by (auto simp: fresh_id_def store_on_connection intro: mono same)
next
  case (Some conn)
  then have r: "rid = conn_next_request_id conn" "map_of (cw_store w1) = (map_of (cw_store w))(c \<mapsto> conn\<lparr>conn_next_request_id := conn_next_request_id conn + 1\<rparr>)"
    using assms(1) by (auto simp: fresh_id_def store_on_connection)
  show ?thesis
    by (rule draw [OF Some, of "f (conn\<lparr>conn_next_request_id := conn_next_request_id conn + 1\<rparr>)"]) (use assms(2,3) r in \<open>auto simp: store_on_connection\<close>)
qed

lemma fresh_draws: "fresh_id c w = (rid, w') \<Longrightarrow> R 1 w w'"
  by (rule fresh_then [where f = id]) (auto simp: store_on_connection intro: calm_enters split: option.splits)

lemma dial_calm: "get_or_connect S g i tgt w = (r, w') \<Longrightarrow> R 0 w w'"
proof -
  assume a: "get_or_connect S g i tgt w = (r, w')"
  have "cw_store w' = cw_store w \<or> (\<exists>w1 t hs c. cw_store w1 = cw_store w \<and> install_connection tgt t hs (ci_now i) w1 = (c, w'))"
    using a unfolding get_or_connect_def Let_def
    by (auto simp: set_cw_os_def split: option.splits prod.splits if_splits ex.splits dest!: connect_and_shake_store)
  then show ?thesis
  proof (elim disjE exE conjE)
    fix w1 t hs c assume w1: "cw_store w1 = cw_store w" and i: "install_connection tgt t hs (ci_now i) w1 = (c, w')"
    show "R 0 w w'"
      by (rule install [of "Connection_init t (hs_keys hs) (hs_version hs) (cl_rotation_policy (cw_impl w1)) (ci_now i)" _ _ c])
        (use w1 i in \<open>auto simp: install_connection_def Let_def update_conv' Connection_init_def in_use_def\<close>)
  qed (simp add: same)
qed

lemma request_draws:
  assumes "get_or_connect S g ci tgt w = (Ret c, w1)" "fresh_id c w1 = (rid, w2)" "\<And>conn. enters rid conn (f conn)"
    and "map_of (cw_store w3) = map_of (cw_store (on_connection c f w2))" "send_on S si c ty p w3 = (r, w4)"
  shows "R 1 w w4"
  using after(1) [OF after(2) [OF dial_calm [OF assms(1)] fresh_then [OF assms(2-4)]] send_on_calm [OF assms(5)]] .

lemma get_begin_draws: "get_begin S g ci si tgt ep d w = (r, w') \<Longrightarrow> R 1 w w'"
  by (cases "get_or_connect S g ci tgt w"; cases "fst (get_or_connect S g ci tgt w)")
    (auto simp: get_begin_def Let_def intro!: after_calm split: prod.splits ex.splits if_splits
      dest: mono [OF dial_calm, of _ _ _ _ _ _ _ 1] request_draws [OF _ _ _ refl])

lemma get_stream_begin_draws: "get_stream_begin S g ci si tgt ep d cb w = (r, w') \<Longrightarrow> R 1 w w'"
  by (cases "get_or_connect S g ci tgt w"; cases "fst (get_or_connect S g ci tgt w)")
    (auto simp: get_stream_begin_def Let_def intro!: after_calm split: prod.splits ex.splits if_splits
      dest: mono [OF dial_calm, of _ _ _ _ _ _ _ 1] request_draws [OF _ _ _ refl])

lemma client_send_draws: "client_send S g ci si tgt ep d w = (r, w') \<Longrightarrow> R 1 w w'"
  by (cases "get_or_connect S g ci tgt w"; cases "fst (get_or_connect S g ci tgt w)")
    (auto simp: client_send_def Let_def split: prod.splits ex.splits if_splits
      dest: mono [OF dial_calm, of _ _ _ _ _ _ _ 1] after(1) [OF after(2) [OF dial_calm fresh_draws] send_on_calm])

lemma handle_calm: "R k w x \<Longrightarrow> R k w (x\<lparr>cw_handles := hs\<rparr>)"
  by (rule after(1) [OF _ same]) simp_all

lemma open_stream_draws: "open_stream S g ci tgt ep w = (r, w') \<Longrightarrow> R 1 w w'"
  by (cases "get_or_connect S g ci tgt w"; cases "fst (get_or_connect S g ci tgt w)")
    (auto simp: open_stream_def Let_def split: prod.splits intro!: handle_calm
      dest: mono [OF dial_calm, of _ _ _ _ _ _ _ 1] after(2) [OF dial_calm fresh_draws])

lemma subscribe_draws: "subscribe S g ci si tgt ep cb w = (r, w') \<Longrightarrow> R 1 w w'"
proof -
  have st: "map_of (cw_store (on_connection c f (x\<lparr>cw_next := n, cw_active := a\<rparr>))) = map_of (cw_store (on_connection c f x))" for c f x n a
    by (cases "map_of (cw_store x) c") (simp_all add: on_connection_def)
  show "subscribe S g ci si tgt ep cb w = (r, w') \<Longrightarrow> R 1 w w'"
    by (cases "get_or_connect S g ci tgt w"; cases "fst (get_or_connect S g ci tgt w)")
      (auto simp: subscribe_def Let_def intro!: after_calm handle_calm split: prod.splits ex.splits if_splits
        dest: mono [OF dial_calm, of _ _ _ _ _ _ _ 1] request_draws [OF _ _ _ st])
qed

lemma unsubscribe_draws: "unsubscribe S si impl w = (r, w') \<Longrightarrow> R 1 w w'"
proof (cases impl)
  case (Some sb)
  let ?w1 = "w\<lparr>cw_active := AList.update (sb_active sb) False (cw_active w)\<rparr>"
  let ?w2 = "on_connection (sb_conn sb) (erase_sink (sb_request_id sb)) ?w1"
  have 2: "R 0 w ?w2" by (rule after_calm) (auto intro: same)
  assume "unsubscribe S si impl w = (r, w')"
  with Some 2 show ?thesis
    by (auto simp: unsubscribe_def Let_def split: if_splits option.splits prod.splits ex.splits intro: mono [OF 2, of "Suc 0"] mono [OF same, of _ _ "Suc 0"]
        dest: after(1) [OF after(2) [OF 2 fresh_draws] send_on_calm])
qed (auto simp: unsubscribe_def intro: mono [OF same])

lemma out_calm:
  "out_write S si b impl w = (r, impl', w') \<Longrightarrow> R 0 w w'" "out_finish S si impl w = (r2, impl', w') \<Longrightarrow> R 0 w w'"
  by (auto simp: out_write_def out_finish_def same dest: send_on_calm split: option.splits if_splits prod.splits)

lemma finish_calm:
  "get_finish tgt ep c rid w = (r, w') \<Longrightarrow> R 0 w w'" "stream_check tgt ep c rid b w = (r2, w') \<Longrightarrow> R 0 w w'"
proof -
  have e: "R 0 w (on_connection c (erase_pending rid) w)" "R 0 w (on_connection c (erase_sink rid) w)"
    by (auto intro: on_connection_calm)
  show "get_finish tgt ep c rid w = (r, w') \<Longrightarrow> R 0 w w'" using e(1)
    by (auto simp: get_finish_def Let_def same split: option.splits if_splits)
  show "stream_check tgt ep c rid b w = (r2, w') \<Longrightarrow> R 0 w w'" using e(2)
    by (auto simp: stream_check_def Let_def same split: option.splits if_splits)
qed

lemma reader_exit_calm: "R 0 w (reader_exit c w)"
proof (cases "map_of (cw_store w) c")
  case (Some conn)
  let ?o = "snd (partition (\<lambda>(rid, k). sink_subscription k) (conn_stream_sinks conn))"
  have "R 0 w (on_connection c (\<lambda>conn. conn\<lparr>conn_alive := False, conn_stream_sinks := ?o\<rparr>) w)"
    by (rule on_connection_calm) (use Some in \<open>auto simp: calm_def in_use_def answered_def\<close>)
  moreover have "map_of (cw_store (reader_exit c w)) = map_of (cw_store (on_connection c (\<lambda>conn. conn\<lparr>conn_alive := False, conn_stream_sinks := ?o\<rparr>) w))"
    using Some by (simp add: reader_exit_def)
  ultimately show ?thesis using after(1) same by blast
qed (simp add: reader_exit_def same)

lemma close_calm: "R 0 w (close_connection tgt w)"
proof (cases "map_of (cl_conns (cw_impl w)) tgt")
  case (Some c)
  let ?w1 = "w\<lparr>cw_impl := (cw_impl w)\<lparr>cl_conns := AList.delete tgt (cl_conns (cw_impl w))\<rparr>\<rparr>"
  let ?w2 = "on_connection c (\<lambda>conn. conn\<lparr>conn_alive := False, conn_transport := transport_close (conn_transport conn)\<rparr>) ?w1"
  have "R 0 w ?w2" by (rule after_calm) (auto intro: same calm_same)
  then have "R 0 w (if map_of (cw_rx ?w2) c \<noteq> None then reader_exit c ?w2 else ?w2)"
    using reader_exit_calm after(1) by auto
  then show ?thesis by (rule after(1)) (use Some in \<open>simp add: close_connection_def Let_def same\<close>)
qed (simp add: close_connection_def same)

lemma invoke_calm: "R k w x \<Longrightarrow> R k w (invoke cb d l x)"
  by (rule after(1) [OF _ same]) simp_all

lemma deliver_chunk_calm: "deliver_chunk c p w = (r, w') \<Longrightarrow> R 0 w w'"
  by (auto simp: deliver_chunk_def Let_def same intro!: after_calm invoke_calm on_connection_calm calm_set_sink
      split: option.splits if_splits)

text \<open>A response either finds no call waiting in \<open>get\<close>, or it becomes the answer of the one that waits under its id.\<close>

lemma deliver_response_calm:
  "deliver_response c p w = (r, w') \<Longrightarrow> R 0 w w' \<or> (\<exists>resp conn. decode_response p = Ok resp \<and> map_of (cw_store w) c = Some conn
     \<and> map_of (conn_pending conn) (resp_request_id resp) \<noteq> None \<and> w' = on_connection c (set_pending (resp_request_id resp) (Some resp)) w)"
  by (auto simp: deliver_response_def Let_def same intro!: invoke_calm on_connection_calm calm_set_sink split: option.splits if_splits)

lemma record_death_calm: "R 0 w (record_death c p w)"
  by (auto simp: record_death_def same intro!: on_connection_calm calm_same split: option.splits)

lemma reader_turn_calm:
  assumes "reader_turn S now c w = (r, w')"
  obtains "R 0 w w'"
  | w1 p resp conn where "R 0 w w1" "opened_responses S now c w = [(c, p)]" "decode_response p = Ok resp" "map_of (cw_store w1) c = Some conn"
      "map_of (conn_pending conn) (resp_request_id resp) \<noteq> None" "w' = on_connection c (set_pending (resp_request_id resp) (Some resp)) w1"
proof (cases "map_of (cw_store w) c = None \<or> map_of (cw_rx w) c = None \<or> (\<exists>conn. map_of (cw_store w) c = Some conn \<and> \<not> conn_alive conn)")
  case True
  then have "w' = w" using assms(1) by (auto simp: reader_turn_def split: option.splits)
  then show ?thesis using that(1) same by simp
next
  case False
  then obtain conn rx where c: "map_of (cw_store w) c = Some conn" "map_of (cw_rx w) c = Some rx" "conn_alive conn" by auto
  obtain ev conn1 rx1 where cr: "client_recv S conn rx now = (ev, conn1, rx1)" using prod_cases3 by blast
  let ?w1 = "w\<lparr>cw_store := AList.update c conn1 (cw_store w), cw_rx := AList.update c rx1 (cw_rx w)\<rparr>"
  have n: "R 0 w ?w1" using client_recv_pending [OF cr] by (intro change [OF c(1) calm_same]) (auto simp: update_conv')
  show ?thesis
  proof (cases ev)
    case (CResponse p)
    then have dr: "deliver_response c p ?w1 = (r, w')" using assms(1) c cr by (simp add: reader_turn_def)
    have l: "opened_responses S now c w = [(c, p)]" using c cr CResponse by (simp add: opened_responses_def)
    from deliver_response_calm [OF dr] show ?thesis
    proof (elim disjE exE conjE)
      fix resp conn' assume "decode_response p = Ok resp" "map_of (cw_store ?w1) c = Some conn'"
        "map_of (conn_pending conn') (resp_request_id resp) \<noteq> None" "w' = on_connection c (set_pending (resp_request_id resp) (Some resp)) ?w1"
      then show ?thesis by (rule that(2) [OF n l])
    qed (auto intro: that(1) after(1) [OF n])
  qed (use assms c cr n in \<open>auto simp: reader_turn_def intro: that(1) after(1) [OF n deliver_chunk_calm] after(1) [OF n record_death_calm]\<close>)
qed

lemma client_op_draws: "client_op S g w w' \<Longrightarrow> R 1 w w'"
proof (induction rule: client_op.induct)
  case (network w c t')
  have "R 0 w (on_connection c (\<lambda>conn. conn\<lparr>conn_transport := t'\<rparr>) w)" by (intro on_connection_calm calm_same) simp_all
  then show ?case by (rule mono) simp
qed (auto intro: get_begin_draws client_send_draws get_stream_begin_draws open_stream_draws subscribe_draws unsubscribe_draws
      mono [OF dial_calm] mono [OF finish_calm(1)] mono [OF finish_calm(2)] mono [OF out_calm(1)] mono [OF out_calm(2)] mono [OF close_calm] mono [OF same]
      simp: set_cw_os_def simp del: One_nat_def)

end

section \<open>Answers\<close>

text \<open>The responses that waiting calls may pick up.\<close>

definition answer :: "cworld \<Rightarrow> nat \<Rightarrow> u64 \<Rightarrow> ResponsePayload \<Rightarrow> bool" where
  "answer w c rid resp \<longleftrightarrow> (\<exists>conn. map_of (cw_store w) c = Some conn \<and> map_of (conn_pending conn) rid = Some (Some resp))"

definition no_new_answers :: "nat \<Rightarrow> cworld \<Rightarrow> cworld \<Rightarrow> bool" where
  "no_new_answers k w w' \<longleftrightarrow> (\<forall>c rid resp. answer w' c rid resp \<longrightarrow> answer w c rid resp)"

lemma answer_iff: "answer w c rid resp \<longleftrightarrow> (\<exists>conn. map_of (cw_store w) c = Some conn \<and> (rid, resp) \<in> answered conn)"
  by (simp add: answer_def answered_def)

interpretation answers: call_tables no_new_answers
proof
  fix w w' :: cworld and c conn conn'
  assume "map_of (cw_store w) c = Some conn" "calm conn conn'" "map_of (cw_store w') = (map_of (cw_store w))(c \<mapsto> conn')"
  then show "no_new_answers 0 w w'" by (auto simp: no_new_answers_def answer_iff calm_def split: if_splits)
next
  fix w w' :: cworld and c conn conn'
  assume "map_of (cw_store w) c = Some conn" "map_of (cw_store w') = (map_of (cw_store w))(c \<mapsto> conn')"
    "enters (conn_next_request_id conn) (conn\<lparr>conn_next_request_id := conn_next_request_id conn + 1\<rparr>) conn'"
  then show "no_new_answers 1 w w'" by (auto simp: no_new_answers_def answer_iff enters_def answered_def split: if_splits)
next
  fix w w' :: cworld and c conn'
  assume "in_use conn' = {}" "map_of (cw_store w') = (map_of (cw_store w))(c \<mapsto> conn')"
  then show "no_new_answers 0 w w'" by (auto simp: no_new_answers_def answer_def in_use_def split: if_splits)
qed (auto simp: no_new_answers_def answer_def)

lemma reader_turn_answers:
  assumes "reader_turn S now c w = (r, w')" "answer w' d rid x"
  shows "answer w d rid x \<or> (\<exists>p. (d, p) \<in> set (opened_responses S now c w) \<and> decode_response p = Ok x \<and> rid = resp_request_id x)"
proof (rule answers.reader_turn_calm [OF assms(1)])
  fix w1 p resp conn
  assume w1: "no_new_answers 0 w w1" and o: "opened_responses S now c w = [(c, p)]" "decode_response p = Ok resp"
    and w': "w' = on_connection c (set_pending (resp_request_id resp) (Some resp)) w1"
  from w' assms(2) have "answer w1 d rid x \<or> (d = c \<and> rid = resp_request_id resp \<and> x = resp)"
    by (auto simp: answer_def on_connection_def set_pending_def update_conv' split: option.splits if_splits)
  with w1 o show ?thesis by (auto simp: no_new_answers_def)
qed (use assms(2) in \<open>simp add: no_new_answers_def\<close>)

inductive client_run :: "sodium \<Rightarrow> wire_globals \<Rightarrow> cworld \<Rightarrow> (nat \<times> bytes) list \<Rightarrow> cworld \<Rightarrow> bool" for S g w0 where
  start: "client_run S g w0 [] w0"
| reading: "client_run S g w0 log w \<Longrightarrow> reader_turn S now c w = (r, w') \<Longrightarrow> client_run S g w0 (log @ opened_responses S now c w) w'"
| exiting: "client_run S g w0 log w \<Longrightarrow> client_run S g w0 log (reader_exit c w)"
| calling: "client_run S g w0 log w \<Longrightarrow> client_op S g w w' \<Longrightarrow> client_run S g w0 log w'"

lemma client_run_answers:
  assumes "client_run S g w0 log w" "\<And>c rid x. \<not> answer w0 c rid x" "answer w c rid x"
  shows "\<exists>p. (c, p) \<in> set log \<and> decode_response p = Ok x \<and> rid = resp_request_id x"
  using assms(1,3)
proof (induction arbitrary: c rid x rule: client_run.induct)
  case (reading log w now d r w')
  from reader_turn_answers [OF reading.hyps(2) reading.prems] show ?case
  proof
    assume "answer w c rid x"
    from reading.IH [OF this] show ?thesis by auto
  qed auto
next
  case (exiting log w d)
  with answers.reader_exit_calm [of w d] show ?case by (auto simp: no_new_answers_def)
next
  case (calling log w w')
  with answers.client_op_draws [OF calling.hyps(2)] show ?case by (auto simp: no_new_answers_def)
qed (use assms(2) in blast)

section \<open>Request ids\<close>

text \<open>The next id of a connection and the ids in use on it; a connection that is yet to be made starts at 1.\<close>

definition ids :: "cworld \<Rightarrow> nat \<Rightarrow> u64 \<times> u64 set" where
  "ids w c = (case map_of (cw_store w) c of None \<Rightarrow> (1, {}) | Some conn \<Rightarrow> (conn_next_request_id conn, in_use conn))"

text \<open>At most \<open>k\<close> ids were drawn from one state of the counter to the other, and only they were put to use.\<close>

definition drawn :: "nat \<Rightarrow> u64 \<times> u64 set \<Rightarrow> u64 \<times> u64 set \<Rightarrow> bool" where
  "drawn k a b \<longleftrightarrow> (\<exists>j \<le> k. fst b = fst a + of_nat j \<and> snd b \<subseteq> snd a \<union> (\<lambda>i. fst a + of_nat i) ` {..<j})"

definition draws :: "nat \<Rightarrow> cworld \<Rightarrow> cworld \<Rightarrow> bool" where
  "draws k w w' \<longleftrightarrow> (\<forall>c. drawn k (ids w c) (ids w' c) \<or> drawn k (1, {}) (ids w' c))"

lemma drawn_0: "drawn 0 a b \<longleftrightarrow> fst b = fst a \<and> snd b \<subseteq> snd a"
  by (auto simp: drawn_def)

lemma drawn_mono: "drawn j a b \<Longrightarrow> j \<le> k \<Longrightarrow> drawn k a b"
  by (auto simp: drawn_def intro: order_trans)

lemma drawn_trans:
  assumes "drawn j a b" "drawn k b c"
  shows "drawn (j + k) a c"
proof -
  define r :: "u64 \<Rightarrow> nat \<Rightarrow> u64 set" where "r l n = (\<lambda>i. l + of_nat i) ` {..<n}" for l n
  obtain j' k' where j: "j' \<le> j" "fst b = fst a + of_nat j'" "snd b \<subseteq> snd a \<union> r (fst a) j'"
    and k: "k' \<le> k" "fst c = fst b + of_nat k'" "snd c \<subseteq> snd b \<union> r (fst b) k'"
    using assms unfolding drawn_def r_def by auto
  have "r (fst b) k' \<subseteq> r (fst a) (j' + k')"
    using j(2) by (auto simp: r_def intro!: image_eqI [where x = "j' + i" for i])
  moreover have "r (fst a) j' \<subseteq> r (fst a) (j' + k')" by (auto simp: r_def)
  ultimately have "snd c \<subseteq> snd a \<union> r (fst a) (j' + k')" using j(3) k(3) by blast
  with j(1,2) k(1,2) show ?thesis unfolding drawn_def r_def by (intro exI [of _ "j' + k'"]) simp
qed

interpretation ids: call_tables draws
proof
  fix j k and w w' w'' :: cworld
  assume "draws j w w'" "draws k w' w''"
  then show "draws (j + k) w w''" unfolding draws_def by (meson drawn_trans drawn_mono le_add2)
next
  fix w w' :: cworld and c conn conn'
  assume "map_of (cw_store w) c = Some conn" "calm conn conn'" "map_of (cw_store w') = (map_of (cw_store w))(c \<mapsto> conn')"
  then show "draws 0 w w'" by (auto simp: draws_def ids_def drawn_0 calm_def)
next
  fix w w' :: cworld and c conn conn'
  assume a: "map_of (cw_store w) c = Some conn" "map_of (cw_store w') = (map_of (cw_store w))(c \<mapsto> conn')"
    "enters (conn_next_request_id conn) (conn\<lparr>conn_next_request_id := conn_next_request_id conn + 1\<rparr>) conn'"
  have "drawn 1 (ids w d) (ids w' d)" for d
  proof (cases "d = c")
    case True
    with a show ?thesis unfolding drawn_def by (intro exI [of _ 1]) (auto simp: ids_def enters_def in_use_def)
  qed (use a in \<open>auto simp: ids_def intro: drawn_mono [of 0] simp: drawn_0\<close>)
  then show "draws 1 w w'" by (simp add: draws_def)
next
  fix w w' :: cworld and c conn'
  assume "conn_next_request_id conn' = 1" "in_use conn' = {}" "map_of (cw_store w') = (map_of (cw_store w))(c \<mapsto> conn')"
  then show "draws 0 w w'" by (auto simp: draws_def ids_def drawn_0)
qed (auto simp: draws_def ids_def drawn_0 intro: drawn_mono)

text \<open>One move of the application, of a reader thread or of the network.\<close>

definition client_move :: "sodium \<Rightarrow> wire_globals \<Rightarrow> cworld \<Rightarrow> cworld \<Rightarrow> bool" where
  "client_move S g w w' \<longleftrightarrow> client_op S g w w' \<or> (\<exists>now c r. reader_turn S now c w = (r, w')) \<or> (\<exists>c. w' = reader_exit c w)"

lemma client_move_draws: "client_move S g w w' \<Longrightarrow> draws 1 w w'"
proof -
  have "draws 1 w w'" if r: "reader_turn S now c w = (r, w')" for now c r
  proof (rule ids.reader_turn_calm [OF r])
    fix w1 p resp conn
    assume 1: "draws 0 w w1" "map_of (cw_store w1) c = Some conn" "map_of (conn_pending conn) (resp_request_id resp) \<noteq> None"
      "w' = on_connection c (set_pending (resp_request_id resp) (Some resp)) w1"
    then have "draws 0 w1 w'"
      by (auto simp: draws_def ids_def drawn_0 store_on_connection set_pending_def in_use_def dom_update map_of_eq_None_iff)
    then show ?thesis using ids.after(1) [OF 1(1)] ids.mono by blast
  qed (rule ids.mono, auto)
  then show "client_move S g w w' \<Longrightarrow> draws 1 w w'"
    using ids.client_op_draws ids.mono [OF ids.reader_exit_calm] unfolding client_move_def by auto
qed

lemma client_moves_draw: "(client_move S g ^^ n) w w' \<Longrightarrow> draws n w w'"
proof (induction n arbitrary: w')
  case (Suc n)
  then obtain x where "(client_move S g ^^ n) w x" "client_move S g x w'" by auto
  then show ?case using Suc.IH client_move_draws ids.trans [of n w x 1 w'] by simp
qed (simp add: ids.same)

lemma next_id_unused:
  assumes "draws n w0 w" "\<forall>c. ids w0 c = (1, {})" "n < 2 ^ 64"
  shows "fst (fresh_id c w) \<notin> snd (ids w c)"
proof (cases "map_of (cw_store w) c")
  case (Some conn)
  from assms(1,2) have "drawn n (1, {}) (ids w c)" unfolding draws_def by simp
  with Some obtain j where j: "j \<le> n" "conn_next_request_id conn = 1 + of_nat j" "in_use conn \<subseteq> (\<lambda>i. 1 + of_nat i) ` {..<j}"
    by (auto simp: ids_def drawn_def)
  have u: "unat (of_nat i :: u64) = i" if "i \<le> j" for i using that j(1) assms(3) by (intro of_nat_inverse [OF refl]) simp
  have "(of_nat i :: u64) \<noteq> of_nat j" if "i < j" for i using u [of i] u [of j] that by auto
  then have "1 + of_nat j \<notin> (\<lambda>i. 1 + of_nat i :: u64) ` {..<j}" by fastforce
  with Some j(2,3) show ?thesis by (auto simp: fresh_id_def ids_def)
qed (simp add: ids_def)

lemma call_id_is_fresh:
  "fst (get_begin S g ci si tgt ep d w) = Ret (c, rid) \<Longrightarrow> \<exists>w1. get_or_connect S g ci tgt w = (Ret c, w1) \<and> rid = fst (fresh_id c w1)"
  "fst (get_stream_begin S g ci si tgt ep d cb w) = Ret (c, rid) \<Longrightarrow> \<exists>w1. get_or_connect S g ci tgt w = (Ret c, w1) \<and> rid = fst (fresh_id c w1)"
  "fst (subscribe S g ci si tgt ep cb w) = Ret \<lparr>sb_conn = c, sb_request_id = rid, sb_active = flag\<rparr> \<Longrightarrow>
     \<exists>w1. get_or_connect S g ci tgt w = (Ret c, w1) \<and> rid = fst (fresh_id c w1)"
  by (cases "get_or_connect S g ci tgt w"; cases "fst (get_or_connect S g ci tgt w)";
      auto simp: get_begin_def get_stream_begin_def subscribe_def Let_def split: prod.splits ex.splits if_splits)+

section \<open>Leaving nobody behind\<close>

lemma invoke_flag: "flag_of a (invoke cb d l w) \<Longrightarrow> flag_of a w"
  by (cases cb) (auto simp: flag_of_def Let_def update_conv' split: option.splits if_splits)

lemma fold_invoke_flag: "flag_of a (fold (\<lambda>cb. invoke cb d l) cbs w) \<Longrightarrow> flag_of a w"
  by (induction cbs arbitrary: w) (auto dest: invoke_flag)

lemma fold_invoke_closes:
  "SubscriptionCb a cb \<in> set cbs \<Longrightarrow> \<not> flag_of a (fold (\<lambda>cb. invoke cb d True) cbs w)"
proof (induction cbs arbitrary: w)
  case (Cons y cbs)
  show ?case
  proof (cases "y = SubscriptionCb a cb")
    case True
    have "\<not> flag_of a (invoke (SubscriptionCb a cb) d True w)"
      by (auto simp: flag_of_def Let_def update_conv' split: option.splits)
    with True fold_invoke_flag show ?thesis by (metis fold_simps(2))
  qed (use Cons in auto)
qed simp

lemma invoke_calls: "\<exists>xs. cw_calls (invoke cb d l w) = cw_calls w @ xs"
  by (cases cb) (auto simp: Let_def split: option.splits)

lemma fold_invoke_calls: "\<exists>xs. cw_calls (fold (\<lambda>cb. invoke cb d l) cbs w) = cw_calls w @ xs"
proof (induction cbs arbitrary: w)
  case (Cons y cbs)
  from Cons.IH [of "invoke y d l w"] invoke_calls [of y d l w] show ?case by auto
qed simp

lemma fold_invoke_called:
  "SubscriptionCb a (Some n) \<in> set cbs \<Longrightarrow>
   \<exists>xs. cw_calls (fold (\<lambda>cb. invoke cb d True) cbs w) = cw_calls w @ xs \<and> CallbackCall n d True \<in> set xs"
proof (induction cbs arbitrary: w)
  case (Cons y cbs)
  show ?case
  proof (cases "y = SubscriptionCb a (Some n)")
    case True
    then show ?thesis using fold_invoke_calls [where l = True and d = d and cbs = cbs and w = "invoke y d True w"] by (auto simp: Let_def)
  next
    case False
    with Cons.prems have "SubscriptionCb a (Some n) \<in> set cbs" by simp
    from Cons.IH [OF this, of "invoke y d True w"] invoke_calls [of y d True w] show ?thesis by auto
  qed
qed simp

text \<open>The bytes that the reader of a connection has not read yet.\<close>

definition unread :: "nat \<Rightarrow> cworld \<Rightarrow> nat" where
  "unread c w = (case map_of (cw_store w) c of None \<Rightarrow> 0 | Some conn \<Rightarrow> length (k_in (conn_transport conn)))"

lemma unread_on_connection: "(\<And>conn. conn_transport (f conn) = conn_transport conn) \<Longrightarrow> unread c (on_connection d f w) = unread c w"
  by (auto simp: unread_def on_connection_def update_conv' split: option.splits)

lemma unread_invoke [simp]: "unread c (invoke cb d l w) = unread c w"
  by (simp add: unread_def)

lemma sink_transport [simp]:
  "conn_transport (set_sink rid k conn) = conn_transport conn" "conn_transport (erase_sink rid conn) = conn_transport conn"
  "conn_transport (set_pending rid r conn) = conn_transport conn"
  by (simp_all add: set_sink_def erase_sink_def set_pending_def)

lemma deliver_unread:
  "deliver_chunk c p w = (r, w') \<Longrightarrow> unread c w' = unread c w" "deliver_response c p w = (r, w') \<Longrightarrow> unread c w' = unread c w"
  by (auto simp: deliver_chunk_def deliver_response_def Let_def unread_on_connection split: option.splits if_splits)

lemma client_recv_consumes:
  assumes "client_recv S conn rx now = (ev, conn', rx')" "ev \<noteq> CStop"
  shows "length (k_in (conn_transport conn')) < length (k_in (conn_transport conn))"
proof -
  obtain fr t1 where rd: "read_frame (conn_transport conn) (2 \<le> conn_version conn) = (fr, t1)" by fastforce
  with assms obtain f where f: "fr = Ok f" by (cases fr) (auto simp: client_recv_def Let_def)
  have "length (k_in t1) < length (k_in (conn_transport conn))"
    using read_frame_sound [OF rd [unfolded f]] by (auto simp: frame_bytes_def)
  moreover have "conn_transport conn' = t1"
    using assms rd f by (auto simp: client_recv_def Let_def switch_tx_def split: FrameType.splits if_splits option.splits prod.splits ex.splits)
  ultimately show ?thesis by simp
qed

lemma reader_turn_consumes:
  assumes "reader_turn S now c w = (RAgain, w')"
  shows "unread c w' < unread c w"
proof -
  from assms obtain conn rx where c: "map_of (cw_store w) c = Some conn" "map_of (cw_rx w) c = Some rx" "conn_alive conn"
    by (auto simp: reader_turn_def split: option.splits if_splits)
  obtain ev conn1 rx1 where cr: "client_recv S conn rx now = (ev, conn1, rx1)" using prod_cases3 by blast
  let ?w1 = "w\<lparr>cw_store := AList.update c conn1 (cw_store w), cw_rx := AList.update c rx1 (cw_rx w)\<rparr>"
  have "ev \<noteq> CStop" using assms c cr by (auto simp: reader_turn_def)
  then have "unread c ?w1 < unread c w" using client_recv_consumes [OF cr] c by (simp add: unread_def update_conv')
  moreover have "unread c w' = unread c ?w1"
    using assms c cr by (cases ev) (auto simp: reader_turn_def dest: deliver_unread)
  ultimately show ?thesis by simp
qed

text \<open>The reader thread is gone, and with it every subscription of the connection.\<close>

definition released :: "nat \<Rightarrow> cworld \<Rightarrow> bool" where
  "released c w \<longleftrightarrow> (case map_of (cw_store w) c of
       None \<Rightarrow> True
     | Some conn \<Rightarrow> \<not> conn_alive conn \<and> map_of (cw_rx w) c = None \<and> (\<forall>(rid, k) \<in> set (conn_stream_sinks conn). \<not> sink_subscription k))"

lemma reader_exit_released: "released c (reader_exit c w)"
  by (cases "map_of (cw_store w) c") (auto simp: released_def reader_exit_def on_connection_def update_conv' delete_conv' Let_def)

section \<open>Properties\<close>

text \<open>C11: A call gets its own answer. In any run of the reader threads and any number of concurrent calls, when
  \<open>get\<close> returns data, that data came in a response which the reader of that very connection
  authenticated, which carries the request id of this call and a success status.\<close>

theorem responses_match_requests:
  assumes "client_run S g w0 log w" "\<And>c rid x. \<not> answer w0 c rid x"
    and "get_finish tgt ep c rid w = (Ret d, w')"
  shows "\<exists>p resp. (c, p) \<in> set log \<and> decode_response p = Ok resp \<and> resp_request_id resp = rid \<and> resp_data resp = d
    \<and> resp_status resp \<notin> {1, 2, 3}"
proof -
  from assms(3) obtain resp where "answer w c rid resp" "resp_data resp = d" "resp_status resp \<notin> {1, 2, 3}"
    by (auto simp: get_finish_def answer_def Let_def split: option.splits if_splits)
  with client_run_answers [OF assms(1,2)] show ?thesis by metis
qed

text \<open>C12: No two calls share a request id. From a client on whose connections no call was made yet, in any interleaving of fewer than
  2^64 - 1 moves of the application, the readers and the network, the id that \<open>get\<close>, \<open>get_stream\<close> or \<open>subscribe\<close>
  draws for a new call is not the id of any call, stream or subscription that the connection still has in its tables.\<close>

theorem request_ids_unique:
  assumes "(client_move S g ^^ n) w0 w" "\<forall>c. ids w0 c = (1, {})" "n < 2 ^ 64 - 1"
    and "fst (get_begin S g ci si tgt ep d w) = Ret (c, rid) \<or> fst (get_stream_begin S g ci si tgt ep d cb w) = Ret (c, rid)
      \<or> fst (subscribe S g ci si tgt ep cb w) = Ret \<lparr>sb_conn = c, sb_request_id = rid, sb_active = flag\<rparr>"
  shows "\<exists>w1. get_or_connect S g ci tgt w = (Ret c, w1) \<and> rid \<notin> snd (ids w1 c)"
proof -
  from assms(4) obtain w1 where w1: "get_or_connect S g ci tgt w = (Ret c, w1)" "rid = fst (fresh_id c w1)" using call_id_is_fresh by metis
  have "fst (fresh_id c w1) \<notin> snd (ids w1 c)"
  proof (rule next_id_unused)
    from w1(1) have "client_move S g w w1" by (auto simp: client_move_def intro: client_op.dialling)
    with assms(1) show "draws (Suc n) w0 w1" by (intro client_moves_draw) auto
  qed (use assms in auto)
  with w1 show ?thesis by blast
qed

text \<open>C13: Nobody waits for a dead connection. When the reader leaves its loop, every call waiting on the
  connection is released at once: a pending \<open>get\<close> that has no answer fails with the reason the host
  gave (or a transport error), a \<open>get_stream\<close> leaves its loop, every subscription is no longer active
  and its callback has been told that the feed is closed.\<close>

theorem reader_exit_releases:
  assumes "map_of (cw_store w) c = Some conn"
  shows "(\<forall>tgt ep rid. fst (get_finish tgt ep c rid (reader_exit c w)) =
      (case map_of (conn_pending conn) rid of
         Some (Some resp) \<Rightarrow> fst (get_finish tgt ep c rid w)
       | _ \<Rightarrow> Throw (closed_error conn tgt '' closed before a response arrived'')))
    \<and> (\<forall>tgt ep rid before. fst (stream_check tgt ep c rid before (reader_exit c w)) \<noteq> None)
    \<and> (\<forall>rid k flag cb. (rid, k) \<in> set (conn_stream_sinks conn) \<and> sink_subscription k \<and> sink_callback k = Some (SubscriptionCb flag cb) \<longrightarrow>
        \<not> flag_of flag (reader_exit c w)
        \<and> (case cb of Some n \<Rightarrow> CallbackCall n [] True \<in> set (drop (length (cw_calls w)) (cw_calls (reader_exit c w))) | None \<Rightarrow> True))"
proof -
  let ?cbs = "List.map_filter (\<lambda>(rid, k). sink_callback k) (filter (\<lambda>(rid, k). sink_subscription k) (conn_stream_sinks conn))"
  let ?o = "filter (\<lambda>x. \<not> (case x of (rid, k) \<Rightarrow> sink_subscription k)) (conn_stream_sinks conn)"
  let ?w1 = "on_connection c (\<lambda>conn. conn\<lparr>conn_alive := False, conn_stream_sinks := ?o\<rparr>) w"
  have e: "reader_exit c w = (fold (\<lambda>cb. invoke cb [] True) ?cbs ?w1)\<lparr>cw_rx := AList.delete c (cw_rx w)\<rparr>"
    using assms by (simp add: reader_exit_def o_def)
  have st: "map_of (cw_store (reader_exit c w)) c = Some (conn\<lparr>conn_alive := False, conn_stream_sinks := ?o\<rparr>)"
    unfolding e using assms by (simp add: on_connection_def update_conv')
  have calls: "cw_calls ?w1 = cw_calls w" using assms by (simp add: on_connection_def)
  have cb: "\<not> flag_of flag (reader_exit c w) \<and> (case cb of Some n \<Rightarrow> CallbackCall n [] True \<in> set (drop (length (cw_calls w)) (cw_calls (reader_exit c w))) | None \<Rightarrow> True)"
    if "(rid, k) \<in> set (conn_stream_sinks conn)" "sink_subscription k" "sink_callback k = Some (SubscriptionCb flag cb)" for rid k flag cb
  proof -
    have m: "SubscriptionCb flag cb \<in> set ?cbs" using that by (force simp: map_filter_def)
    have "\<not> flag_of flag (reader_exit c w)" using fold_invoke_closes [OF m, of "[]" ?w1] unfolding e flag_of_def by simp
    moreover have "CallbackCall n [] True \<in> set (drop (length (cw_calls w)) (cw_calls (reader_exit c w)))" if "cb = Some n" for n
      using fold_invoke_called [OF m [unfolded that], of "[]" ?w1] calls unfolding e by auto
    ultimately show ?thesis by (cases cb) auto
  qed
  have "fst (get_finish tgt ep c rid (reader_exit c w)) = (case map_of (conn_pending conn) rid of
      Some (Some resp) \<Rightarrow> fst (get_finish tgt ep c rid w) | _ \<Rightarrow> Throw (closed_error conn tgt '' closed before a response arrived''))" for tgt ep rid
    using st assms by (auto simp: get_finish_def closed_error_def Let_def split: option.splits)
  moreover have "fst (stream_check tgt ep c rid b (reader_exit c w)) \<noteq> None" for tgt ep rid b
    using st by (simp add: stream_check_def Let_def)
  ultimately show ?thesis using cb by blast
qed

text \<open>C17: A reader ends. Once the peer sends no more, the reader thread needs at most one turn more than there are
  unread bytes to leave its loop, whatever the bytes are; it leaves through \<open>reader_exit\<close>, so the connection is marked
  dead and nobody waits on it. (The only other way out is an exception of the cryptographic library while keys rotate.)\<close>

theorem reader_terminates:
  assumes "unread c w < length clock" "reader_loop S clock c w = (r, w')"
  shows "(\<exists>e. r = Throw e) \<or> (r = Ret () \<and> released c w' \<and> (\<exists>w1. w' = reader_exit c w1))"
  using assms
proof (induction clock arbitrary: w)
  case (Cons now clock)
  obtain x w1 where t: "reader_turn S now c w = (x, w1)" by fastforce
  show ?case
  proof (cases x)
    case RAgain
    with Cons.prems t reader_turn_consumes [of S now c w w1] Cons.IH [of w1] show ?thesis by simp
  qed (use Cons.prems t reader_exit_released in auto)
qed simp

section \<open>Instances\<close>

lemma demo_client_recv:
  "client_recv toy_sodium (waiting_conn reply_bytes) (rx_start (replicate 32 3)) now
   = (CResponse (encode_response reply1), waiting_conn [], (rx_start (replicate 32 3))\<lparr>rx_counter := 1\<rparr>)"
proof -
  let ?t = "(posix_transport 4 1000)\<lparr>k_in := reply_bytes\<rparr>"
  have k: "usable_key toy_sodium (replicate 32 3)" using toy_laws by (simp add: usable_key_def)
  have l: "length (seal toy_sodium (replicate 32 3) 0 3 (encode_response reply1)) \<le> 16000000"
    by (simp add: seal_def seal_impl_def toy_sodium_def encode_response_def reply1_def Let_def)
  have "read_frame ?t False = (Ok \<lparr>rf_type = Response, rf_counter = 0, rf_epoch = 0,
      rf_body = seal toy_sodium (replicate 32 3) 0 3 (encode_response reply1)\<rparr>, ?t\<lparr>k_in := []\<rparr>)"
    using l by (intro read_frame_healthy) (auto simp: healthy_def posix_transport_def reply_bytes_def frame_wf_def frame_type_wf_def)
  moreover have "open_v1 toy_sodium (replicate 32 3) 0 3 (seal toy_sodium (replicate 32 3) 0 3 (encode_response reply1)) = Some (encode_response reply1)"
    using k by (rule open_seal_v1)
  ultimately show ?thesis
    by (simp add: client_recv_def waiting_conn_def Connection_init_def reader_open_checked_def rx_start_def)
qed

lemma demo_reply: "decode_response (encode_response reply1) = Ok reply1"
  by (rule response_roundtrip) (simp add: reply1_def)

theorem responses_match_requests_witness:
  "\<exists>w w' p. client_run toy_sodium wire_globals_init (waiting_world reply_bytes) [(1, p)] w
     \<and> get_finish ''notes'' ''read'' 1 1 w = (Ret [9], w') \<and> decode_response p = Ok reply1"
proof -
  obtain r w where t: "reader_turn toy_sodium 0 1 (waiting_world reply_bytes) = (r, w)" by fastforce
  have l: "opened_responses toy_sodium 0 1 (waiting_world reply_bytes) = [(1, encode_response reply1)]"
    using demo_client_recv [of 0] by (simp add: opened_responses_def waiting_world_def) (simp add: waiting_conn_def Connection_init_def)
  have run: "client_run toy_sodium wire_globals_init (waiting_world reply_bytes) [(1, encode_response reply1)] w"
    using client_run.reading [OF client_run.start t, of wire_globals_init] l by simp
  have na: "\<not> answer (waiting_world reply_bytes) c rid x" for c rid x
    by (simp add: answer_def waiting_world_def waiting_conn_def)
  have al: "conn_alive (waiting_conn reply_bytes)" by (simp add: waiting_conn_def Connection_init_def)
  have w: "map_of (cw_store w) 1 = Some (set_pending 1 (Some reply1) (waiting_conn []))"
    using t demo_client_recv [of 0] demo_reply al
    by (simp add: reader_turn_def waiting_world_def deliver_response_def Let_def on_connection_def update_conv')
      (auto simp: reply1_def waiting_conn_def on_connection_def split: if_splits)
  obtain w' where f: "get_finish ''notes'' ''read'' 1 1 w = (Ret [9], w')"
    using w by (simp add: get_finish_def set_pending_def update_conv' reply1_def Let_def)
  from responses_match_requests [OF run na f] run f demo_reply show ?thesis by auto
qed

theorem reader_exit_releases_witness:
  "fst (get_finish ''notes'' ''read'' 1 1 (reader_exit 1 (waiting_world [])))
     = Throw (EpxError Transport (''connection to '' @ quoted ''notes'' @ '' closed before a response arrived''))
   \<and> \<not> flag_of 7 (reader_exit 1 (waiting_world []))"
proof -
  have "map_of (cw_store (waiting_world [])) 1 = Some (waiting_conn [])" by (simp add: waiting_world_def)
  note r = reader_exit_releases [OF this]
  have "(2, StreamSink_init\<lparr>sink_subscription := True, sink_callback := Some (SubscriptionCb 7 (Some 5))\<rparr>) \<in> set (conn_stream_sinks (waiting_conn []))"
    by (simp add: waiting_conn_def)
  with r have "\<not> flag_of 7 (reader_exit 1 (waiting_world []))" by fastforce
  moreover have "closed_error (waiting_conn []) ''notes'' x = EpxError Transport (''connection to '' @ quoted ''notes'' @ x)" for x
    by (simp add: closed_error_def waiting_conn_def Connection_init_def kErrRateLimited_def)
  moreover have "map_of (conn_pending (waiting_conn [])) 1 = Some None" by (simp add: waiting_conn_def)
  ultimately show ?thesis using r by simp
qed

text \<open>A client with a connection on which no call was made yet.\<close>

definition fresh_world :: cworld where
  "fresh_world = (waiting_world [])\<lparr>cw_store := [(1, (waiting_conn [])\<lparr>conn_pending := [], conn_stream_sinks := []\<rparr>)]\<rparr>"

lemma fresh_sends:
  "\<exists>conn. seal_and_send toy_sodium (set_pending rid None ((waiting_conn [])\<lparr>conn_pending := [], conn_stream_sinks := [], conn_next_request_id := n\<rparr>)) 0 [] Request p
     = Ret (True, conn)"
  by (simp add: seal_and_send_def maybe_begin_rekey_locked_def rotation_due_def send_frame_locked_def Let_def waiting_conn_def Connection_init_def
      set_pending_def write_frame_healthy healthy_def posix_transport_def)

theorem request_ids_unique_witness:
  "\<exists>w1. get_or_connect toy_sodium wire_globals_init \<lparr>ci_ephemeral = [], ci_nonce = [], ci_now = 0, ci_arriving = [], ci_sockopts = (0, 0, 0)\<rparr> ''notes'' fresh_world = (Ret 1, w1)
     \<and> 1 \<notin> snd (ids w1 1)"
proof -
  let ?ci = "\<lparr>ci_ephemeral = [], ci_nonce = [], ci_now = 0, ci_arriving = [], ci_sockopts = (0, 0, 0)\<rparr>" and ?si = "\<lparr>se_now = 0, se_ephemeral = []\<rparr>"
  have f: "\<forall>c. ids fresh_world c = (1, {})" by (simp add: ids_def fresh_world_def in_use_def waiting_conn_def Connection_init_def)
  have r: "(client_move toy_sodium wire_globals_init ^^ 0) fresh_world fresh_world" by simp
  have wc: "conn_next_request_id (waiting_conn []) = 1" "conn_alive (waiting_conn [])" by (simp_all add: waiting_conn_def Connection_init_def)
  obtain conn where "seal_and_send toy_sodium (set_pending 1 None ((waiting_conn [])\<lparr>conn_pending := [], conn_stream_sinks := [], conn_next_request_id := 2\<rparr>)) 0 [] Request
      (encode_request \<lparr>req_request_id = 1, req_oneway = False, req_endpoint = ''echo'', req_data = []\<rparr>) = Ret (True, conn)"
    using fresh_sends by blast
  then have "fst (get_begin toy_sodium wire_globals_init ?ci ?si ''notes'' ''echo'' [] fresh_world) = Ret (1, 1)"
    by (simp add: wc get_begin_def get_or_connect_def live_connection_def fresh_world_def waiting_world_def fresh_id_def on_connection_def send_on_def Let_def)
  from request_ids_unique [OF r f _ disjI1 [OF this]] show ?thesis by simp
qed

theorem reader_terminates_witness:
  "\<exists>r w'. reader_loop toy_sodium [0] 1 (waiting_world []) = (r, w') \<and> ((\<exists>e. r = Throw e) \<or> (r = Ret () \<and> released 1 w' \<and> (\<exists>w1. w' = reader_exit 1 w1)))"
proof -
  obtain r w' where l: "reader_loop toy_sodium [0] 1 (waiting_world []) = (r, w')" by fastforce
  have "unread 1 (waiting_world []) < length [0 :: int]" by (simp add: unread_def waiting_world_def waiting_conn_def Connection_init_def)
  from reader_terminates [OF this l] l show ?thesis by simp
qed

end
