(* ===== verification/Epx_System.thy ===== *)
theory Epx_System
  imports Epx_Rotation Epx_CApi Epx_Calls
begin

text \<open>
  Client and host together. The bytes that one side has written are carried to the other, and each side
  takes turns of its loop as long as it has something to read; a read on an empty socket blocks. The
  theorem of this theory composes the client's \<open>get\<close>, the sealed session with its key rotation, the framing,
  the payload codecs, the host's loop, its access decision and the dispatch to the endpoint's handler.
\<close>

section \<open>The wire between a client and a host\<close>

definition client_out :: "nat \<Rightarrow> cworld \<Rightarrow> bytes" where
  "client_out c cw = (case map_of (cw_store cw) c of Some conn \<Rightarrow> k_out (conn_transport conn) | None \<Rightarrow> [])"

definition client_in :: "nat \<Rightarrow> cworld \<Rightarrow> bytes" where
  "client_in c cw = (case map_of (cw_store cw) c of Some conn \<Rightarrow> k_in (conn_transport conn) | None \<Rightarrow> [])"

definition host_out :: "nat \<Rightarrow> world \<Rightarrow> bytes" where
  "host_out h w = (case map_of (w_conns w) h of Some cs \<Rightarrow> k_out (cs_t cs) | None \<Rightarrow> [])"

definition host_in :: "nat \<Rightarrow> world \<Rightarrow> bytes" where
  "host_in h w = (case map_of (w_conns w) h of Some cs \<Rightarrow> k_in (cs_t cs) | None \<Rightarrow> [])"

text \<open>Bytes in flight from the client arrive at the host, and the other way round.\<close>

definition carry_to_host :: "nat \<Rightarrow> nat \<Rightarrow> cworld \<times> world \<Rightarrow> cworld \<times> world" where
  "carry_to_host c h s = (case s of (cw, w) \<Rightarrow>
     (on_connection c (\<lambda>conn. conn\<lparr>conn_transport := (conn_transport conn)\<lparr>k_out := []\<rparr>\<rparr>) cw,
      w_send h (\<lambda>cs. (True, cs\<lparr>cs_t := (cs_t cs)\<lparr>k_in := k_in (cs_t cs) @ client_out c cw\<rparr>\<rparr>)) w))"

definition carry_to_client :: "nat \<Rightarrow> nat \<Rightarrow> cworld \<times> world \<Rightarrow> cworld \<times> world" where
  "carry_to_client c h s = (case s of (cw, w) \<Rightarrow>
     (on_connection c (\<lambda>conn. conn\<lparr>conn_transport := (conn_transport conn)\<lparr>k_in := k_in (conn_transport conn) @ host_out h w\<rparr>\<rparr>) cw,
      w_send h (\<lambda>cs. (True, cs\<lparr>cs_t := (cs_t cs)\<lparr>k_out := []\<rparr>\<rparr>)) w))"

text \<open>Turns of the connection's thread, and of the reader, until nothing is left to read.\<close>

fun host_serves :: "sodium \<Rightarrow> turn_in list \<Rightarrow> conn_thread \<Rightarrow> world \<Rightarrow> turn \<times> world" where
  "host_serves S [] th w = (Again th, w)"
| "host_serves S (i # ins) th w =
     (if host_in (ct_cs th) w = [] then (Again th, w)
      else case connection_turn S i th w of
             (Again th1, w1) \<Rightarrow> host_serves S ins th1 w1
           | (Leave th1, w1) \<Rightarrow> (Leave th1, w1)
           | (Raise e, w1) \<Rightarrow> (Raise e, w1))"

fun client_reads :: "sodium \<Rightarrow> int list \<Rightarrow> nat \<Rightarrow> cworld \<Rightarrow> reader_result \<times> cworld" where
  "client_reads S [] c cw = (RAgain, cw)"
| "client_reads S (now # clock) c cw =
     (if client_in c cw = [] then (RAgain, cw)
      else case reader_turn S now c cw of
             (RAgain, cw1) \<Rightarrow> client_reads S clock c cw1
           | (RStop, cw1) \<Rightarrow> (RStop, cw1)
           | (RRaise e, cw1) \<Rightarrow> (RRaise e, cw1))"

text \<open>What happens while a call waits: its frames reach the host, the host serves them, the answer reaches
  the client and its reader takes it.\<close>

definition exchange :: "sodium \<Rightarrow> turn_in list \<Rightarrow> int list \<Rightarrow> nat \<Rightarrow> conn_thread \<Rightarrow> cworld \<times> world \<Rightarrow> turn \<times> reader_result \<times> cworld \<times> world" where
  "exchange S ins clock c th s =
     (case carry_to_host c (ct_cs th) s of (cw1, w1) \<Rightarrow>
      case host_serves S ins th w1 of (t, w2) \<Rightarrow>
      case carry_to_client c (ct_cs th) (cw1, w2) of (cw2, w3) \<Rightarrow>
      case client_reads S clock c cw2 of (r, cw3) \<Rightarrow> (t, r, cw3, w3))"

text \<open>Both ends of an established session, in step and with nothing in flight.\<close>

definition session_between :: "sodium \<Rightarrow> nat \<Rightarrow> cworld \<Rightarrow> conn_thread \<Rightarrow> world \<Rightarrow> bool" where
  "session_between S c cw th w \<longleftrightarrow>
     (\<exists>conn crx cs ph. map_of (cw_store cw) c = Some conn \<and> conn_alive conn \<and> map_of (cw_rx cw) c = Some crx
        \<and> map_of (w_conns w) (ct_cs th) = Some cs \<and> h_running (w_host w)
        \<and> sinv S conn crx cs (ct_rx th) [] [] [] [] ph [] [])"

section \<open>What a call amounts to\<close>

text \<open>The answer the host's configuration gives to a call, as the caller sees it; \<open>None\<close> if it gives none (a
  handler that throws, a decision that cannot be made, an endpoint that answers with a stream).\<close>

definition entry_outcome :: "EndpointEntry \<Rightarrow> PeerInfo \<Rightarrow> string \<Rightarrow> bytes \<Rightarrow> bytes ex option" where
  "entry_outcome e peer ep dat =
     (if ee_kind e = KStreamReceive then Some (Throw (EpxError Protocol ''wrong call shape''))
      else if ee_kind e = KReceive \<or> ee_kind e = KSend
      then (case ee_unary e of
              None \<Rightarrow> None
            | Some f \<Rightarrow> (case f dat ep peer of
                           Throw _ \<Rightarrow> None
                         | Ret r \<Rightarrow> Some (if resp_ok r then Ret (resp_payload r) else Throw (EpxError Protocol (resp_error r)))))
      else None)"

definition call_outcome :: "HostImpl \<Rightarrow> PeerInfo \<Rightarrow> (string \<times> bool) list \<Rightarrow> u64 \<Rightarrow> os \<Rightarrow> string \<Rightarrow> string \<Rightarrow> bytes \<Rightarrow> bytes ex option" where
  "call_outcome H peer cache now s sv ep dat =
     (case map_of (h_handlers H) ep of
        None \<Rightarrow> Some (Throw (EpxError NotFound (''endpoint not found: '' @ ep)))
      | Some e \<Rightarrow>
          (case fst (authorize H peer ep (entry_access H e) now cache s) of
             Throw _ \<Rightarrow> None
           | Ret allowed \<Rightarrow>
               if \<not> allowed then Some (Throw (EpxError AccessDenied (''access denied by '' @ quoted sv @ '' for endpoint '' @ quoted ep)))
               else entry_outcome e peer ep dat))"

definition outcome_size :: "bytes ex \<Rightarrow> nat" where
  "outcome_size r = (case r of Ret d \<Rightarrow> length d | Throw (EpxError c m) \<Rightarrow> length m | _ \<Rightarrow> 0)"

text \<open>What \<open>get\<close> makes of a status and its data.\<close>

definition client_view :: "string \<Rightarrow> string \<Rightarrow> u8 \<Rightarrow> bytes \<Rightarrow> bytes ex" where
  "client_view sv ep status dat =
     (if status = 2 then Throw (EpxError NotFound (''endpoint not found: '' @ ep))
      else if status = 3 then Throw (EpxError AccessDenied (''access denied by '' @ quoted sv @ '' for endpoint '' @ quoted ep))
      else if status = 1 then Throw (EpxError Protocol (string_of_bytes dat))
      else Ret dat)"

lemma dispatch_answers:
  assumes "entry_outcome e (ct_peer th) (req_endpoint req) (req_data req) = Some r"
  obtains w1 status d where "ee_kind e \<noteq> KTopic" "dispatch S e req th w = (Again th, reply S (ct_cs th) req status d w1)"
    "w_conns w1 = w_conns w" "w_host w1 = w_host w" "client_view sv (req_endpoint req) status d = r" "length d \<le> outcome_size r"
proof (cases "ee_kind e = KStreamReceive")
  case True
  with assms show ?thesis
    by (intro that [of 1 "bytes_of_string ''wrong call shape''" w])
      (auto simp: entry_outcome_def client_view_def outcome_size_def dispatch_def)
next
  case False
  with assms obtain f resp where f: "ee_kind e = KReceive \<or> ee_kind e = KSend" "ee_unary e = Some f"
    "f (req_data req) (req_endpoint req) (ct_peer th) = Ret resp"
    "r = (if resp_ok resp then Ret (resp_payload resp) else Throw (EpxError Protocol (resp_error resp)))"
    by (auto simp: entry_outcome_def split: if_splits option.splits ex.splits)
  let ?st = "if resp_ok resp then 0 else 1 :: u8" and ?d = "if resp_ok resp then resp_payload resp else bytes_of_string (resp_error resp)"
  from f show ?thesis
    by (intro that [of ?st ?d "log_call (UnaryCall (req_endpoint req) (req_data req) (ct_peer th)) w"])
      (auto simp: client_view_def outcome_size_def dispatch_def Let_def)
qed

lemma handle_request_answers:
  assumes "decode_request opened = Ok req" "req_endpoint req = ep" "req_data req = dat" "\<not> req_oneway req" "ep \<noteq> kUnsubscribeEndpoint"
    and "fst (rate_limit (h_limits (w_host w)) i th)"
    and "call_outcome (w_host w) (ct_peer th) (ct_cache th) (ti_unix_time i) (w_os w) sv ep dat = Some r"
  obtains th' w1 status d where "handle_request S i opened th w = (Again th', reply S (ct_cs th) req status d w1)"
    "w_conns w1 = w_conns w" "w_host w1 = w_host w" "ct_cs th' = ct_cs th" "ct_rx th' = ct_rx th" "client_view sv ep status d = r" "length d \<le> outcome_size r"
proof -
  obtain th1 where rl: "rate_limit (h_limits (w_host w)) i th = (True, th1)" using assms(6) by (metis prod.collapse)
  have t: "ct_cs th1 = ct_cs th" "ct_rx th1 = ct_rx th" "ct_peer th1 = ct_peer th" "ct_cache th1 = ct_cache th"
    using rl by (auto simp: rate_limit_def Let_def split: if_splits prod.splits bool.splits)
  show ?thesis
  proof (cases "map_of (h_handlers (w_host w)) ep")
    case None
    with assms rl t show ?thesis
      by (intro that [of th1 2 "[]" w]) (auto simp: handle_request_def call_outcome_def client_view_def outcome_size_def)
  next
    case (Some e)
    obtain a cache1 s1 where au: "authorize (w_host w) (ct_peer th) ep (entry_access (w_host w) e) (ti_unix_time i) (ct_cache th) (w_os w) = (a, cache1, s1)"
      by (metis prod_cases3)
    with assms(7) Some obtain allowed where a: "a = Ret allowed" by (cases a) (auto simp: call_outcome_def)
    note h = handle_request_def assms(1-5) rl Some au a t Let_def
    show ?thesis
    proof (cases allowed)
      case False
      with assms(7) show ?thesis
        by (intro that [of "th1\<lparr>ct_cache := cache1\<rparr>" 3 "bytes_of_string ''access denied''" "set_os s1 w"])
          (auto simp: h call_outcome_def client_view_def outcome_size_def quoted_def)
    next
      case True
      with assms(2,3,7) have o: "entry_outcome e (ct_peer (th1\<lparr>ct_cache := cache1\<rparr>)) (req_endpoint req) (req_data req) = Some r"
        by (simp add: call_outcome_def Some au a t)
      obtain w1 status d where "ee_kind e \<noteq> KTopic"
        "dispatch S e req (th1\<lparr>ct_cache := cache1\<rparr>) (set_os s1 w) = (Again (th1\<lparr>ct_cache := cache1\<rparr>), reply S (ct_cs th) req status d w1)"
        "w_conns w1 = w_conns w" "w_host w1 = w_host w" "client_view sv ep status d = r" "length d \<le> outcome_size r"
        by (rule dispatch_answers [OF o, where S = S and w = "set_os s1 w" and sv = sv]) (simp add: t assms(2))
      then show ?thesis by (intro that [of "th1\<lparr>ct_cache := cache1\<rparr>" status d w1]) (auto simp: h True)
    qed
  qed
qed

section \<open>The turns of a call\<close>

lemma sinv_unrelated [simp]:
  "sinv S (conn\<lparr>conn_pending := x\<rparr>) crx h hrx a1 a2 b1 b2 ph hl cl = sinv S conn crx h hrx a1 a2 b1 b2 ph hl cl"
  "sinv S (conn\<lparr>conn_next_request_id := y\<rparr>) crx h hrx a1 a2 b1 b2 ph hl cl = sinv S conn crx h hrx a1 a2 b1 b2 ph hl cl"
  by (simp_all add: sinv_def)

lemma seal_and_send_alive: "seal_and_send S conn now r ty p = Ret (ok, conn') \<Longrightarrow> conn_alive conn' = conn_alive conn"
  by (auto simp: seal_and_send_def maybe_begin_rekey_locked_def send_frame_locked_def Let_def ex_bind_eq_Ret_iff split: if_splits ex.splits prod.splits)

lemma client_recv_alive: "client_recv S conn rx now = (ev, conn', rx') \<Longrightarrow> conn_alive conn' = conn_alive conn"
  by (auto simp: client_recv_def Let_def switch_tx_def split: prod.splits option.splits FrameType.splits if_splits ex.splits)

lemma generate_ephemeral_total: "\<forall>r. crypto_kx_keypair S r \<noteq> None \<Longrightarrow> \<exists>eph. generate_ephemeral S r = Ret eph"
  by (auto simp: generate_ephemeral_def split: option.split)

text \<open>The frames of a request: one, or two if a rotation is due.\<close>

definition request_frames :: "RawFrame list \<Rightarrow> bool" where
  "request_frames fs \<longleftrightarrow> (\<exists>f. rf_type f = Request \<and> (fs = [f] \<or> (\<exists>k. rf_type k = Rekey \<and> fs = [k, f])))"

lemma seal_request:
  assumes "sinv S c crx h hrx [] [] [] [] ph [] []" "length p \<le> max_payload"
    and S: "sodium_sizes S" "\<forall>r. crypto_kx_keypair S r \<noteq> None"
  obtains c' fs ph' where "seal_and_send S c now r Request p = Ret (True, c')" "request_frames fs"
    "sinv S c' crx h hrx [] fs [] [] ph' [(Request, p)] []"
proof -
  obtain c1 fs1 ph1 where m: "maybe_begin_rekey_locked S c now r = Ret c1" "sinv S c1 crx h hrx [] fs1 [] [] ph1 [] []"
    "fs1 = [] \<or> (\<exists>k. rf_type k = Rekey \<and> fs1 = [k])"
  proof (cases "rotation_due c now")
    case True
    from generate_ephemeral_total [OF S(2)] obtain eph where eph: "generate_ephemeral S r = Ret eph" by blast
    from sinv_begin_rekey [OF assms(1) True eph S(1)] obtain c' f where
      "send_frame_locked S c Rekey (eph_public_key eph) = (True, c')" "rf_type f = Rekey"
      "sinv S (c'\<lparr>conn_pending_eph := Some eph, conn_rekey_in_progress := True\<rparr>) crx h hrx [] [f] [] [] (Offered eph) [] []" by auto
    with True eph show ?thesis by (intro that [of _ "[f]"]) (auto simp: maybe_begin_rekey_locked_def)
  qed (use assms(1) in \<open>auto intro!: that [of c "[]" ph] simp: maybe_begin_rekey_locked_def\<close>)
  from sinv_client_frame [OF m(2) _ assms(2), of Request] obtain c2 f where
    "send_frame_locked S c1 Request p = (True, c2)" "rf_type f = Request" "sinv S c2 crx h hrx [] (fs1 @ [f]) [] [] ph1 [(Request, p)] []" by auto
  with m show ?thesis
    by (intro that [of "c2\<lparr>conn_bytes_since_rotation := conn_bytes_since_rotation c2 + word_of_nat (length p)\<rparr>" "fs1 @ [f]" ph1])
      (auto simp: seal_and_send_def request_frames_def)
qed

text \<open>The host's turns.\<close>

lemma host_reads_rekey:
  assumes "sinv S c crx h (ct_rx th) (k # fs) a2 b1 b2 ph hl cl" "rf_type k = Rekey" "map_of (w_conns w) (ct_cs th) = Some h" "h_running (w_host w)"
    and S: "sodium_sizes S" "kx_agrees S" "aead_correct S" "\<forall>r. crypto_kx_keypair S r \<noteq> None"
  obtains h' hrx' ak ph' where "rf_type ak = RekeyAck" "sinv S c crx h' hrx' fs a2 b1 (b2 @ [ak]) ph' hl cl"
    "connection_turn S i th w = (Again (th\<lparr>ct_rx := hrx'\<rparr>), w\<lparr>w_conns := AList.update (ct_cs th) h' (w_conns w)\<rparr>)"
proof -
  from generate_ephemeral_total [OF S(4)] obtain eph where eph: "generate_ephemeral S (ti_ephemeral i) = Ret eph" by blast
  from host_answers_rekey [OF assms(1) refl assms(2) S(1-3) eph] obtain h' hrx' ak e spk nk where
    "host_recv S h (ct_rx th) (ti_ephemeral i) = (HAgain, h', hrx')" "rf_type ak = RekeyAck"
    "sinv S c crx h' hrx' fs a2 b1 (b2 @ [ak]) (Acked e spk nk) hl cl" by metis
  with assms(3,4) show ?thesis by (intro that [of ak h' hrx']) (auto simp: connection_turn_def Let_def)
qed

lemma host_reads_request:
  assumes "sinv S c crx h (ct_rx th) [f] a2 b1 b2 ph [(Request, p)] cl" "rf_type f = Request" "map_of (w_conns w) (ct_cs th) = Some h" "h_running (w_host w)"
    and S: "sodium_sizes S" "kx_agrees S" "aead_correct S" "\<forall>r. crypto_kx_keypair S r \<noteq> None"
  obtains h' hrx' ph' where "sinv S c crx h' hrx' [] a2 b1 b2 ph' [] cl"
    "connection_turn S i th w = handle_request S i p (th\<lparr>ct_rx := hrx'\<rparr>) (w\<lparr>w_conns := AList.update (ct_cs th) h' (w_conns w)\<rparr>)"
proof -
  have rd: "read_frame (cs_t h) (cs_v2 h) = (Ok f, (cs_t h)\<lparr>k_in := []\<rparr>)"
    using assms(1) by (intro read_frame_healthy) (auto simp: sinv_def)
  let ?h = "h\<lparr>cs_t := (cs_t h)\<lparr>k_in := []\<rparr>\<rparr>"
  have core: "core S (cs_v2 h) (sk_tx (conn_keys c)) (conn_epoch c) (conn_tx_counter c) (conn_rekey_in_progress c)
     (conn_pending_eph c) crx (cs_tx_key h) (cs_epoch h) (cs_tx_counter h) (ct_rx th) (f # ([] @ a2)) (b1 @ b2) ph [(Request, p)] cl"
    using sinv_core [OF assms(1)] by simp
  have nr: "rf_type f \<noteq> Rekey" using assms(2) by simp
  from core_host_reads_data [OF core nr] obtain q rx1 hl' where q: "open_checked S (cs_v2 h) (ct_rx th) f = (Some q, rx1)" "[(Request, p)] = (rf_type f, q) # hl'"
    "core S (cs_v2 h) (sk_tx (conn_keys c)) (conn_epoch c) (conn_tx_counter c) (conn_rekey_in_progress c)
        (conn_pending_eph c) crx (cs_tx_key h) (cs_epoch h) (cs_tx_counter h) rx1 ([] @ a2) (b1 @ b2) ph hl' cl" by metis
  then have o: "open_checked S (cs_v2 h) (ct_rx th) f = (Some p, rx1)"
    "core S (cs_v2 h) (sk_tx (conn_keys c)) (conn_epoch c) (conn_tx_counter c) (conn_rekey_in_progress c)
        (conn_pending_eph c) crx (cs_tx_key h) (cs_epoch h) (cs_tx_counter h) rx1 a2 (b1 @ b2) ph [] cl" by simp_all
  have "host_recv S h (ct_rx th) (ti_ephemeral i) = (HRequest p, ?h, rx1)"
    using assms(2) o(1) by (simp add: host_recv_def rd Let_def)
  moreover have "sinv S c crx ?h rx1 [] a2 b1 b2 ph [] cl" using o(2) assms(1) by (auto simp: sinv_def)
  ultimately show ?thesis using assms(3,4) by (intro that [of ?h rx1 ph]) (auto simp: connection_turn_def Let_def)
qed

text \<open>The client's turns.\<close>

lemma reader_event:
  assumes "sinv S conn crx h hrx a1 a2 (f # fs) b2 ph hl cl" "client_recv S conn crx now = (ev, conn', crx')"
  shows "rf_type f = RekeyAck \<Longrightarrow> ev \<in> {CAgain, CStop} \<union> range CThrow"
    and "rf_type f = Response \<Longrightarrow> ev \<in> {CStop} \<union> range CResponse"
proof -
  have v: "(2 \<le> conn_version conn) = cs_v2 h" using assms(1) by (simp add: sinv_def)
  have rd: "read_frame (conn_transport conn) (cs_v2 h) = (Ok f, (conn_transport conn)\<lparr>k_in := stream (cs_v2 h) fs\<rparr>)"
    using assms(1) by (intro read_frame_healthy) (auto simp: sinv_def)
  show "rf_type f = RekeyAck \<Longrightarrow> ev \<in> {CAgain, CStop} \<union> range CThrow" "rf_type f = Response \<Longrightarrow> ev \<in> {CStop} \<union> range CResponse"
    using assms(2) by (auto simp: client_recv_def v rd Let_def split: prod.splits option.splits if_splits ex.splits)
qed

lemma client_reads_ack:
  assumes "sinv S conn crx h hrx a1 a2 (k # fs) b2 ph hl cl" "rf_type k = RekeyAck" "map_of (cw_store cw) c = Some conn" "map_of (cw_rx cw) c = Some crx"
    "conn_alive conn"
  obtains conn' crx' ph' where "sinv S conn' crx' h hrx a1 a2 fs b2 ph' hl cl" "conn_alive conn'" "conn_pending conn' = conn_pending conn"
    "reader_turn S now c cw = (RAgain, cw\<lparr>cw_store := AList.update c conn' (cw_store cw), cw_rx := AList.update c crx' (cw_rx cw)\<rparr>)"
proof -
  obtain ev conn' crx' where r: "client_recv S conn crx now = (ev, conn', crx')" by (metis prod_cases3)
  from sinv_client_read [OF assms(1) _ r] obtain ph' cl' where s: "\<not> client_leaves ev" "cl = client_log ev @ cl'"
    "sinv S conn' crx' h hrx a1 a2 fs b2 ph' hl cl'" by auto
  from reader_event(1) [OF assms(1) r assms(2)] s(1) have "ev = CAgain" by auto
  with s r client_recv_alive [OF r] client_recv_pending [OF r] assms show ?thesis
    by (intro that [of conn' crx' ph']) (auto simp: reader_turn_def Let_def)
qed

lemma client_reads_response:
  assumes "sinv S conn crx h hrx a1 a2 [f] b2 ph hl [(Response, p)]" "rf_type f = Response" "map_of (cw_store cw) c = Some conn" "map_of (cw_rx cw) c = Some crx"
    "conn_alive conn" "map_of (conn_pending conn) rid = Some None"
    and resp: "decode_response p = Ok resp" "resp_request_id resp = rid"
  obtains conn' crx' ph' cw' where "sinv S conn' crx' h hrx a1 a2 [] b2 ph' hl []" "conn_alive conn'"
    "map_of (conn_pending conn') rid = Some (Some resp)" "map_of (cw_store cw') c = Some conn'" "map_of (cw_rx cw') c = Some crx'"
    "reader_turn S now c cw = (RAgain, cw')"
proof -
  obtain ev conn' crx' where r: "client_recv S conn crx now = (ev, conn', crx')" by (metis prod_cases3)
  from sinv_client_read [OF assms(1) _ r] obtain ph' cl' where s: "\<not> client_leaves ev" "[(Response, p)] = client_log ev @ cl'"
    "sinv S conn' crx' h hrx a1 a2 [] b2 ph' hl cl'" by auto
  from reader_event(2) [OF assms(1) r assms(2)] s(1,2) have ev: "ev = CResponse p" and "cl' = []" by auto
  with s r client_recv_alive [OF r] client_recv_pending [OF r] assms show ?thesis
    by (intro that [of "set_pending rid (Some resp) conn'" crx' ph'])
      (auto simp: reader_turn_def Let_def deliver_response_def on_connection_def update_conv' set_pending_def)
qed

section \<open>A call from one end to the other\<close>

lemma get_begin_live:
  assumes "map_of (cl_conns (cw_impl cw)) sv = Some c" "map_of (cw_store cw) c = Some conn" "conn_alive conn"
    and "sinv S conn crx h hrx [] [] [] [] ph [] []" "sodium_sizes S" "\<forall>r. crypto_kx_keypair S r \<noteq> None"
    and "length ep < 256" "length ep + length dat + 14 \<le> max_payload"
  obtains req cw1 conn1 fs ph1 where "get_begin S g ci si sv ep dat cw = (Ret (c, req_request_id req), cw1)"
    "req = \<lparr>req_request_id = conn_next_request_id conn, req_oneway = False, req_endpoint = ep, req_data = dat\<rparr>"
    "map_of (cw_store cw1) c = Some conn1" "conn_alive conn1" "map_of (conn_pending conn1) (req_request_id req) = Some None"
    "cw_rx cw1 = cw_rx cw" "request_frames fs" "sinv S conn1 crx h hrx [] fs [] [] ph1 [(Request, encode_request req)] []"
proof -
  define req where "req = \<lparr>req_request_id = conn_next_request_id conn, req_oneway = False, req_endpoint = ep, req_data = dat\<rparr>"
  define conn0 where "conn0 = set_pending (conn_next_request_id conn) None (conn\<lparr>conn_next_request_id := conn_next_request_id conn + 1\<rparr>)"
  have "sinv S conn0 crx h hrx [] [] [] [] ph [] []" using assms(4) by (simp add: conn0_def set_pending_def)
  moreover have "length (encode_request req) \<le> max_payload"
    using assms(7,8) by (simp add: encode_request_def req_def put_u64_def put_u32_def put_str8_def put_bytes_def)
  ultimately obtain conn1 fs ph1 where sent: "seal_and_send S conn0 (se_now si) (se_ephemeral si) Request (encode_request req) = Ret (True, conn1)"
    "request_frames fs" "sinv S conn1 crx h hrx [] fs [] [] ph1 [(Request, encode_request req)] []"
    using seal_request assms(5,6) by metis
  have c1: "conn_alive conn1" "map_of (conn_pending conn1) (req_request_id req) = Some None"
    using seal_and_send_alive [OF sent(1)] seal_and_send_pending [OF sent(1)] assms(3) by (simp_all add: conn0_def set_pending_def update_conv' req_def)
  define cw0 where "cw0 = on_connection c (set_pending (conn_next_request_id conn) None) (on_connection c (\<lambda>conn. conn\<lparr>conn_next_request_id := conn_next_request_id conn + 1\<rparr>) cw)"
  have s0: "map_of (cw_store cw0) c = Some conn0" "cw_rx cw0 = cw_rx cw"
    using assms(2) by (simp_all add: cw0_def on_connection_def update_conv' conn0_def)
  show ?thesis
    using assms(1-3) sent c1 s0
    by (intro that [of req "cw0\<lparr>cw_store := AList.update c conn1 (cw_store cw0)\<rparr>" conn1 fs ph1])
      (simp_all add: get_begin_def get_or_connect_def live_connection_def fresh_id_def cw0_def [symmetric] send_on_def Let_def req_def [symmetric] update_conv',
        simp_all add: req_def)
qed

text \<open>The request that a call sends and the conditions under which the host answers it.\<close>

definition answers :: "conn_thread \<Rightarrow> world \<Rightarrow> turn_in \<Rightarrow> string \<Rightarrow> RequestPayload \<Rightarrow> bytes ex \<Rightarrow> bool" where
  "answers th w i sv req r \<longleftrightarrow>
     \<not> req_oneway req \<and> req_endpoint req \<noteq> kUnsubscribeEndpoint \<and> length (req_endpoint req) < 256
     \<and> length (req_data req) < 2 ^ 32 \<and> fst (rate_limit (h_limits (w_host w)) i th) \<and> outcome_size r + 13 \<le> max_payload
     \<and> call_outcome (w_host w) (ct_peer th) (ct_cache th) (ti_unix_time i) (w_os w) sv (req_endpoint req) (req_data req) = Some r"

lemma rate_limit_rx [simp]: "fst (rate_limit l i (th\<lparr>ct_rx := x\<rparr>)) = fst (rate_limit l i th)"
  by (simp add: rate_limit_def Let_def split: prod.splits bool.splits)

lemma answers_rx [simp]:
  "answers (th\<lparr>ct_rx := x\<rparr>) w i sv req r = answers th w i sv req r" "answers th (w\<lparr>w_conns := y\<rparr>) i sv req r = answers th w i sv req r"
  by (simp_all add: answers_def w_os_def)

lemma on_conn_Some: "map_of conns c = Some cs \<Longrightarrow> f cs = (ok, cs') \<Longrightarrow> on_conn c f conns = (ok, AList.update c cs' conns)"
  by (simp add: on_conn_def)

lemma max_payload_u32: "n \<le> max_payload \<Longrightarrow> n < 2 ^ 32"
  by (simp add: max_payload_def)

definition answer_frame :: "RequestPayload \<Rightarrow> u8 \<Rightarrow> bytes \<Rightarrow> ResponsePayload" where
  "answer_frame req status d = \<lparr>resp_request_id = req_request_id req, resp_status = status, resp_data = d\<rparr>"

lemma host_turn_answers:
  assumes "sinv S conn crx h (ct_rx th) [f] [] [] b2 ph [(Request, encode_request req)] []" "rf_type f = Request"
    and w: "map_of (w_conns w) (ct_cs th) = Some h" "h_running (w_host w)" and ans: "answers th w i sv req r"
    and S: "sodium_sizes S" "kx_agrees S" "aead_correct S" "\<forall>r. crypto_kx_keypair S r \<noteq> None"
  obtains th' w' h' g ph' status d where "connection_turn S i th w = (Again th', w')" "ct_cs th' = ct_cs th"
    "map_of (w_conns w') (ct_cs th) = Some h'" "h_running (w_host w')" "rf_type g = Response"
    "sinv S conn crx h' (ct_rx th') [] [] [] (b2 @ [g]) ph' [] [(Response, encode_response (answer_frame req status d))]"
    "client_view sv (req_endpoint req) status d = r" "length d + 13 \<le> max_payload"
proof -
  note a = ans [unfolded answers_def]
  obtain h1 hrx1 ph1 where inv: "sinv S conn crx h1 hrx1 [] [] [] b2 ph1 [] []"
    and turn: "connection_turn S i th w = handle_request S i (encode_request req) (th\<lparr>ct_rx := hrx1\<rparr>) (w\<lparr>w_conns := AList.update (ct_cs th) h1 (w_conns w)\<rparr>)"
    by (rule host_reads_request [OF assms(1,2) w S])
  let ?th = "th\<lparr>ct_rx := hrx1\<rparr>" and ?w = "w\<lparr>w_conns := AList.update (ct_cs th) h1 (w_conns w)\<rparr>"
  have dec: "decode_request (encode_request req) = Ok req" using a by (intro request_roundtrip) auto
  obtain th' w1 status d where hr: "handle_request S i (encode_request req) ?th ?w = (Again th', reply S (ct_cs ?th) req status d w1)"
    "w_conns w1 = w_conns ?w" "w_host w1 = w_host ?w" "ct_cs th' = ct_cs ?th" "ct_rx th' = ct_rx ?th"
    "client_view sv (req_endpoint req) status d = r" "length d \<le> outcome_size r"
    by (rule handle_request_answers [OF dec refl refl, of ?w i ?th sv r S]) (use a in \<open>auto simp: w_os_def\<close>)
  have len: "length (encode_response (answer_frame req status d)) \<le> max_payload" "length d + 13 \<le> max_payload"
    using hr(7) a by (auto simp: encode_response_def answer_frame_def put_u64_def put_u32_def)
  obtain ok h2 where s: "send_sealed S h1 Response (encode_response (answer_frame req status d)) = (ok, h2)" by fastforce
  from sinv_send_sealed [OF inv _ len(1) s] obtain g where g: "rf_type g = Response"
    "sinv S conn crx h2 hrx1 [] [] [] (b2 @ [g]) ph1 [] ([] @ [(Response, encode_response (answer_frame req status d))])" by auto
  have "map_of (w_conns w1) (ct_cs th) = Some h1" by (simp add: hr(2) update_conv')
  then have "w_conns (reply S (ct_cs th) req status d w1) = AList.update (ct_cs th) h2 (w_conns w1)"
    using a s on_conn_Some [of "w_conns w1" "ct_cs th" h1 "\<lambda>cs. send_sealed S cs Response (encode_response (answer_frame req status d))" ok h2]
    by (simp add: reply_def w_send_def answer_frame_def)
  moreover have "w_host (reply S (ct_cs th) req status d w1) = w_host w" using hr(3) by (simp add: reply_def)
  ultimately show ?thesis using hr g turn w(2) len(2)
    by (intro that [of th' "reply S (ct_cs th) req status d w1" h2 g ph1 status d]) (auto simp: update_conv')
qed

definition answer_frames :: "RawFrame list \<Rightarrow> bool" where
  "answer_frames bs \<longleftrightarrow> (\<exists>g. rf_type g = Response \<and> (bs = [g] \<or> (\<exists>k. rf_type k = RekeyAck \<and> bs = [k, g])))"

lemma host_serves_quiet: "host_in (ct_cs th) w = [] \<Longrightarrow> host_serves S ins th w = (Again th, w)"
  by (cases ins) simp_all

lemma host_in_sinv: "sinv S conn crx h hrx a1 a2 b1 b2 ph hl cl \<Longrightarrow> map_of (w_conns w) c = Some h \<Longrightarrow> host_in c w = [] \<longleftrightarrow> a1 = []"
  by (simp add: sinv_def host_in_def)

lemma client_in_sinv: "sinv S conn crx h hrx a1 a2 b1 b2 ph hl cl \<Longrightarrow> map_of (cw_store cw) c = Some conn \<Longrightarrow> client_in c cw = [] \<longleftrightarrow> b1 = []"
  by (simp add: sinv_def client_in_def)

lemma host_serves_call:
  assumes "sinv S conn crx h (ct_rx th) fs [] [] [] ph [(Request, encode_request req)] []" "request_frames fs" "2 \<le> length ins"
    and w: "map_of (w_conns w) (ct_cs th) = Some h" "h_running (w_host w)" and ans: "\<forall>i \<in> set ins. answers th w i sv req r"
    and S: "sodium_sizes S" "kx_agrees S" "aead_correct S" "\<forall>r. crypto_kx_keypair S r \<noteq> None"
  obtains th' w' h' bs ph' status d where "host_serves S ins th w = (Again th', w')" "ct_cs th' = ct_cs th"
    "map_of (w_conns w') (ct_cs th) = Some h'" "h_running (w_host w')" "answer_frames bs"
    "sinv S conn crx h' (ct_rx th') [] [] [] bs ph' [] [(Response, encode_response (answer_frame req status d))]"
    "client_view sv (req_endpoint req) status d = r" "length d + 13 \<le> max_payload"
proof -
  obtain i1 i2 rest where ins: "ins = i1 # i2 # rest" using assms(3) by (cases ins; cases "tl ins") auto
  from assms(2) obtain f where f: "rf_type f = Request" "fs = [f] \<or> (\<exists>k. rf_type k = Rekey \<and> fs = [k, f])" by (auto simp: request_frames_def)
  have ne: "host_in (ct_cs th) w \<noteq> []" using host_in_sinv [OF assms(1) w(1)] f by auto
  from f(2) show ?thesis
  proof (elim disjE exE conjE)
    assume fs: "fs = [f]"
    have a: "answers th w i1 sv req r" using ans ins by simp
    obtain th' w' h' g ph' status d where *: "connection_turn S i1 th w = (Again th', w')" "ct_cs th' = ct_cs th"
      "map_of (w_conns w') (ct_cs th) = Some h'" "h_running (w_host w')" "rf_type g = Response"
      "sinv S conn crx h' (ct_rx th') [] [] [] ([] @ [g]) ph' [] [(Response, encode_response (answer_frame req status d))]"
      "client_view sv (req_endpoint req) status d = r" "length d + 13 \<le> max_payload"
      by (rule host_turn_answers [OF assms(1) [unfolded fs] f(1) w a S])
    moreover have "host_in (ct_cs th') w' = []" using host_in_sinv [OF *(6,3)] *(2) by simp
    ultimately show ?thesis using ne
      by (intro that [of th' w' h' "[g]" ph' status d]) (auto simp: ins host_serves_quiet answer_frames_def)
  next
    fix k assume k: "rf_type k = Rekey" "fs = [k, f]"
    obtain h1 hrx1 ak ph1 where 1: "rf_type ak = RekeyAck" "sinv S conn crx h1 hrx1 [f] [] [] ([] @ [ak]) ph1 [(Request, encode_request req)] []"
      "connection_turn S i1 th w = (Again (th\<lparr>ct_rx := hrx1\<rparr>), w\<lparr>w_conns := AList.update (ct_cs th) h1 (w_conns w)\<rparr>)"
      by (rule host_reads_rekey [OF assms(1) [unfolded k(2)] k(1) w S])
    let ?th = "th\<lparr>ct_rx := hrx1\<rparr>" and ?w = "w\<lparr>w_conns := AList.update (ct_cs th) h1 (w_conns w)\<rparr>"
    have w1: "map_of (w_conns ?w) (ct_cs ?th) = Some h1" "h_running (w_host ?w)" and a: "answers ?th ?w i2 sv req r"
      using ans ins w by (simp_all add: update_conv')
    have inv: "sinv S conn crx h1 (ct_rx ?th) [f] [] [] [ak] ph1 [(Request, encode_request req)] []" using 1(2) by simp
    obtain th' w' h' g ph' status d where *: "connection_turn S i2 ?th ?w = (Again th', w')" "ct_cs th' = ct_cs ?th"
      "map_of (w_conns w') (ct_cs ?th) = Some h'" "h_running (w_host w')" "rf_type g = Response"
      "sinv S conn crx h' (ct_rx th') [] [] [] ([ak] @ [g]) ph' [] [(Response, encode_response (answer_frame req status d))]"
      "client_view sv (req_endpoint req) status d = r" "length d + 13 \<le> max_payload"
      by (rule host_turn_answers [OF inv f(1) w1 a S])
    moreover have "host_in (ct_cs th') w' = []" "host_in (ct_cs th) ?w \<noteq> []"
      using host_in_sinv [OF *(6,3)] *(2) host_in_sinv [OF inv w1(1)] by simp_all
    ultimately show ?thesis using ne 1(1,3)
      by (intro that [of th' w' h' "[ak, g]" ph' status d]) (auto simp: ins host_serves_quiet answer_frames_def)
  qed
qed

lemma client_reads_quiet: "client_in c cw = [] \<Longrightarrow> client_reads S clock c cw = (RAgain, cw)"
  by (cases clock) simp_all

lemma client_takes_answer:
  assumes "sinv S conn crx h hrx [] [] bs [] ph [] [(Response, encode_response (answer_frame req status d))]" "answer_frames bs" "2 \<le> length clock"
    and cw: "map_of (cw_store cw) c = Some conn" "map_of (cw_rx cw) c = Some crx" "conn_alive conn" "map_of (conn_pending conn) (req_request_id req) = Some None"
    and d: "length d + 13 \<le> max_payload"
  obtains conn' crx' ph' cw' where "client_reads S clock c cw = (RAgain, cw')" "map_of (cw_store cw') c = Some conn'" "map_of (cw_rx cw') c = Some crx'"
    "conn_alive conn'" "map_of (conn_pending conn') (req_request_id req) = Some (Some (answer_frame req status d))"
    "sinv S conn' crx' h hrx [] [] [] [] ph' [] []"
proof -
  obtain n1 n2 rest where clock: "clock = n1 # n2 # rest" using assms(3) by (cases clock; cases "tl clock") auto
  from assms(2) obtain g where g: "rf_type g = Response" "bs = [g] \<or> (\<exists>k. rf_type k = RekeyAck \<and> bs = [k, g])" by (auto simp: answer_frames_def)
  have ne: "client_in c cw \<noteq> []" using client_in_sinv [OF assms(1) cw(1)] g by auto
  have dec: "decode_response (encode_response (answer_frame req status d)) = Ok (answer_frame req status d)"
    "resp_request_id (answer_frame req status d) = req_request_id req"
    using d by (simp_all add: response_roundtrip answer_frame_def max_payload_def)
  from g(2) show ?thesis
  proof (elim disjE exE conjE)
    assume bs: "bs = [g]"
    obtain conn' crx' ph' cw' where *: "sinv S conn' crx' h hrx [] [] [] [] ph' [] []" "conn_alive conn'"
      "map_of (conn_pending conn') (req_request_id req) = Some (Some (answer_frame req status d))" "map_of (cw_store cw') c = Some conn'"
      "map_of (cw_rx cw') c = Some crx'" "reader_turn S n1 c cw = (RAgain, cw')"
      by (rule client_reads_response [OF assms(1) [unfolded bs] g(1) cw dec])
    moreover have "client_in c cw' = []" using client_in_sinv [OF *(1,4)] by simp
    ultimately show ?thesis using ne by (intro that [of cw' conn' crx' ph']) (auto simp: clock client_reads_quiet)
  next
    fix k assume k: "rf_type k = RekeyAck" "bs = [k, g]"
    obtain conn1 crx1 ph1 where 1: "sinv S conn1 crx1 h hrx [] [] [g] [] ph1 [] [(Response, encode_response (answer_frame req status d))]"
      "conn_alive conn1" "conn_pending conn1 = conn_pending conn"
      "reader_turn S n1 c cw = (RAgain, cw\<lparr>cw_store := AList.update c conn1 (cw_store cw), cw_rx := AList.update c crx1 (cw_rx cw)\<rparr>)"
      by (rule client_reads_ack [OF assms(1) [unfolded k(2)] k(1) cw(1-3)])
    let ?cw = "cw\<lparr>cw_store := AList.update c conn1 (cw_store cw), cw_rx := AList.update c crx1 (cw_rx cw)\<rparr>"
    have cw1: "map_of (cw_store ?cw) c = Some conn1" "map_of (cw_rx ?cw) c = Some crx1" "map_of (conn_pending conn1) (req_request_id req) = Some None"
      using cw(4) 1(3) by (simp_all add: update_conv')
    obtain conn' crx' ph' cw' where *: "sinv S conn' crx' h hrx [] [] [] [] ph' [] []" "conn_alive conn'"
      "map_of (conn_pending conn') (req_request_id req) = Some (Some (answer_frame req status d))" "map_of (cw_store cw') c = Some conn'"
      "map_of (cw_rx cw') c = Some crx'" "reader_turn S n2 c ?cw = (RAgain, cw')"
      by (rule client_reads_response [OF 1(1) g(1) cw1(1,2) 1(2) cw1(3) dec])
    moreover have "client_in c cw' = []" "client_in c ?cw \<noteq> []" using client_in_sinv [OF *(1,4)] client_in_sinv [OF 1(1) cw1(1)] by simp_all
    ultimately show ?thesis using ne 1(4) by (intro that [of cw' conn' crx' ph']) (auto simp: clock client_reads_quiet)
  qed
qed

lemma get_finish_answered:
  assumes "map_of (cw_store cw) c = Some conn" "map_of (conn_pending conn) (req_request_id req) = Some (Some (answer_frame req status d))"
  shows "get_finish sv ep c (req_request_id req) cw = (client_view sv ep status d, on_connection c (erase_pending (req_request_id req)) cw)"
  using assms by (simp add: get_finish_def client_view_def answer_frame_def Let_def)

lemma on_connection_frame [simp]: "cw_impl (on_connection c f cw) = cw_impl cw" "cw_rx (on_connection c f cw) = cw_rx cw"
  by (simp_all add: on_connection_def split: option.splits)

lemma reader_turn_impl: "reader_turn S now c cw = (r, cw') \<Longrightarrow> cw_impl cw' = cw_impl cw"
  by (auto simp: reader_turn_def deliver_chunk_def deliver_response_def record_death_def Let_def split: option.splits prod.splits if_splits client_event.splits)

lemma client_reads_impl: "client_reads S clock c cw = (r, cw') \<Longrightarrow> cw_impl cw' = cw_impl cw"
  by (induction clock arbitrary: cw) (auto dest: reader_turn_impl split: if_splits prod.splits reader_result.splits)

lemma get_begin_impl: "live_connection sv cw = Some c \<Longrightarrow> get_begin S g ci si sv ep dat cw = (r, cw') \<Longrightarrow> cw_impl cw' = cw_impl cw"
  by (auto simp: get_begin_def get_or_connect_def fresh_id_def send_on_def Let_def split: option.splits prod.splits if_splits ex.splits)

lemma exchange_answers:
  assumes S: "sodium_sizes S" "kx_agrees S" "aead_correct S" "\<forall>r. crypto_kx_keypair S r \<noteq> None"
    and inv: "sinv S conn crx h (ct_rx th) [] fs [] [] ph [(Request, encode_request req)] []" "request_frames fs"
    and cw: "map_of (cw_store cw) c = Some conn" "map_of (cw_rx cw) c = Some crx" "conn_alive conn" "map_of (conn_pending conn) (req_request_id req) = Some None"
    and w: "map_of (w_conns w) (ct_cs th) = Some h" "h_running (w_host w)"
    and turns: "\<forall>i \<in> set ins. answers th w i sv req r" "2 \<le> length ins" "2 \<le> length clock"
  obtains th' w' cw' conn' crx' h' ph' status d where "exchange S ins clock c th (cw, w) = (Again th', RAgain, cw', w')" "ct_cs th' = ct_cs th"
    "map_of (w_conns w') (ct_cs th) = Some h'" "h_running (w_host w')" "map_of (cw_store cw') c = Some conn'" "map_of (cw_rx cw') c = Some crx'"
    "conn_alive conn'" "map_of (conn_pending conn') (req_request_id req) = Some (Some (answer_frame req status d))" "cw_impl cw' = cw_impl cw"
    "sinv S conn' crx' h' (ct_rx th') [] [] [] [] ph' [] []" "client_view sv (req_endpoint req) status d = r"
proof -
  let ?conn2 = "conn\<lparr>conn_transport := (conn_transport conn)\<lparr>k_out := []\<rparr>\<rparr>"
  let ?h2 = "h\<lparr>cs_t := (cs_t h)\<lparr>k_in := k_in (cs_t h) @ k_out (conn_transport conn)\<rparr>\<rparr>"
  obtain cw2 w2 where up: "carry_to_host c (ct_cs th) (cw, w) = (cw2, w2)" by fastforce
  then have 2: "map_of (cw_store cw2) c = Some ?conn2" "cw_rx cw2 = cw_rx cw" "cw_impl cw2 = cw_impl cw" "w2 = w\<lparr>w_conns := AList.update (ct_cs th) ?h2 (w_conns w)\<rparr>"
    using cw w(1) by (auto simp: carry_to_host_def client_out_def w_send_def on_conn_def on_connection_def update_conv')
  have inv2: "sinv S ?conn2 crx ?h2 (ct_rx th) fs [] [] [] ph [(Request, encode_request req)] []" using sinv_deliver_host [OF inv(1)] by simp
  have w2: "map_of (w_conns w2) (ct_cs th) = Some ?h2" "h_running (w_host w2)" and ans: "\<forall>i \<in> set ins. answers th w2 i sv req r"
    using w(2) turns(1) by (simp_all add: 2 update_conv')
  obtain th' w3 h3 bs ph3 status d where hs: "host_serves S ins th w2 = (Again th', w3)" "ct_cs th' = ct_cs th"
    "map_of (w_conns w3) (ct_cs th) = Some h3" "h_running (w_host w3)" "answer_frames bs"
    "sinv S ?conn2 crx h3 (ct_rx th') [] [] [] bs ph3 [] [(Response, encode_response (answer_frame req status d))]"
    "client_view sv (req_endpoint req) status d = r" "length d + 13 \<le> max_payload"
    by (rule host_serves_call [OF inv2 inv(2) turns(2) w2 ans S])
  let ?conn4 = "?conn2\<lparr>conn_transport := (conn_transport ?conn2)\<lparr>k_in := k_in (conn_transport ?conn2) @ k_out (cs_t h3)\<rparr>\<rparr>"
  let ?h4 = "h3\<lparr>cs_t := (cs_t h3)\<lparr>k_out := []\<rparr>\<rparr>"
  obtain cw4 w4 where down: "carry_to_client c (ct_cs th) (cw2, w3) = (cw4, w4)" by fastforce
  then have 4: "map_of (cw_store cw4) c = Some ?conn4" "cw_rx cw4 = cw_rx cw" "cw_impl cw4 = cw_impl cw" "w4 = w3\<lparr>w_conns := AList.update (ct_cs th) ?h4 (w_conns w3)\<rparr>"
    using 2 hs(3) by (auto simp: carry_to_client_def host_out_def w_send_def on_conn_def on_connection_def update_conv')
  have inv4: "sinv S ?conn4 crx ?h4 (ct_rx th') [] [] bs [] ph3 [] [(Response, encode_response (answer_frame req status d))]"
    using sinv_deliver_client [OF hs(6)] by simp
  have c4: "map_of (cw_rx cw4) c = Some crx" "conn_alive ?conn4" "map_of (conn_pending ?conn4) (req_request_id req) = Some None"
    using 4(2) cw by simp_all
  obtain conn5 crx5 ph5 cw5 where cl: "client_reads S clock c cw4 = (RAgain, cw5)" "map_of (cw_store cw5) c = Some conn5" "map_of (cw_rx cw5) c = Some crx5"
    "conn_alive conn5" "map_of (conn_pending conn5) (req_request_id req) = Some (Some (answer_frame req status d))"
    "sinv S conn5 crx5 ?h4 (ct_rx th') [] [] [] [] ph5 [] []"
    by (rule client_takes_answer [OF inv4 hs(5) turns(3) 4(1) c4 hs(8)])
  have "exchange S ins clock c th (cw, w) = (Again th', RAgain, cw5, w4)" by (simp add: exchange_def up hs(1) down cl(1))
  with cl hs 4 client_reads_impl [OF cl(1)] show ?thesis by (intro that [of th' cw5 w4 ?h4 conn5 crx5 status d ph5]) (simp_all add: update_conv')
qed

text \<open>C1: a call is answered. Take any moment at which a client's connection and the host's thread for it are in step, key
  rotation included. A call of \<open>get\<close> then returns exactly what the host's configuration says of it: the handler's data, its error, that the
  endpoint does not exist or that the peer may not call it. At most two turns on each side are needed, nobody leaves its loop, and the
  two ends are in step again for the next call.\<close>

theorem call_is_answered:
  assumes S: "sodium_sizes S" "kx_agrees S" "aead_correct S" "\<forall>r. crypto_kx_keypair S r \<noteq> None"
    and session: "session_between S c cw th w" "map_of (cl_conns (cw_impl cw)) sv = Some c"
    and fits: "length ep < 256" "length ep + length dat + 14 \<le> max_payload" "ep \<noteq> kUnsubscribeEndpoint"
    and outcome: "call_outcome (w_host w) (ct_peer th) (ct_cache th) now (w_os w) sv ep dat = Some r" "outcome_size r + 13 \<le> max_payload"
    and turns: "\<forall>i \<in> set ins. ti_unix_time i = now \<and> fst (rate_limit (h_limits (w_host w)) i th)" "2 \<le> length ins" "2 \<le> length clock"
  shows "\<exists>th' w' cw' cw2. exchange S ins clock c th (snd (get_begin S g ci si sv ep dat cw), w) = (Again th', RAgain, cw2, w')
     \<and> get S g ci si sv ep dat (\<lambda>cw1. fst (snd (snd (exchange S ins clock c th (cw1, w))))) cw = (r, cw')
     \<and> session_between S c cw' th' w' \<and> map_of (cl_conns (cw_impl cw')) sv = Some c"
proof -
  from session(1) obtain conn crx h ph where s: "map_of (cw_store cw) c = Some conn" "conn_alive conn" "map_of (cw_rx cw) c = Some crx"
    "map_of (w_conns w) (ct_cs th) = Some h" "h_running (w_host w)" "sinv S conn crx h (ct_rx th) [] [] [] [] ph [] []"
    by (auto simp: session_between_def)
  obtain req cw1 conn1 fs ph1 where b: "get_begin S g ci si sv ep dat cw = (Ret (c, req_request_id req), cw1)"
    and req: "req = \<lparr>req_request_id = conn_next_request_id conn, req_oneway = False, req_endpoint = ep, req_data = dat\<rparr>"
    and c1: "map_of (cw_store cw1) c = Some conn1" "conn_alive conn1" "map_of (conn_pending conn1) (req_request_id req) = Some None" "cw_rx cw1 = cw_rx cw"
    and fs: "request_frames fs" and inv1: "sinv S conn1 crx h (ct_rx th) [] fs [] [] ph1 [(Request, encode_request req)] []"
    by (rule get_begin_live [OF session(2) s(1,2,6) S(1,4) fits(1,2)])
  have ans: "\<forall>i \<in> set ins. answers th w i sv req r"
    using turns(1) outcome fits by (auto simp: answers_def req max_payload_def)
  have crx: "map_of (cw_rx cw1) c = Some crx" using c1(4) s(3) by simp
  obtain th' w4 cw5 conn5 crx5 h5 ph5 status d where ex: "exchange S ins clock c th (cw1, w) = (Again th', RAgain, cw5, w4)" "ct_cs th' = ct_cs th"
    "map_of (w_conns w4) (ct_cs th) = Some h5" "h_running (w_host w4)" "map_of (cw_store cw5) c = Some conn5" "map_of (cw_rx cw5) c = Some crx5"
    "conn_alive conn5" "map_of (conn_pending conn5) (req_request_id req) = Some (Some (answer_frame req status d))" "cw_impl cw5 = cw_impl cw1"
    "sinv S conn5 crx5 h5 (ct_rx th') [] [] [] [] ph5 [] []" "client_view sv (req_endpoint req) status d = r"
    by (rule exchange_answers [OF S inv1 fs c1(1) crx c1(2,3) s(4,5) ans turns(2,3)])
  let ?cw' = "on_connection c (erase_pending (req_request_id req)) cw5"
  have fin: "get_finish sv ep c (req_request_id req) cw5 = (r, ?cw')" using get_finish_answered [OF ex(5,8)] ex(11) by (simp add: req)
  have "get S g ci si sv ep dat (\<lambda>cw1. fst (snd (snd (exchange S ins clock c th (cw1, w))))) cw = (r, ?cw')"
    by (simp add: get_def b ex(1) fin)
  moreover have "session_between S c ?cw' th' w4"
    using ex(2-7,10) unfolding session_between_def
    by (intro exI [of _ "erase_pending (req_request_id req) conn5"] exI [of _ crx5] exI [of _ h5] exI [of _ ph5])
      (simp add: on_connection_def update_conv' erase_pending_def)
  moreover have "map_of (cl_conns (cw_impl ?cw')) sv = Some c"
    using ex(9) get_begin_impl [OF _ b] session(2) s(1,2) by (simp add: live_connection_def)
  ultimately show ?thesis using ex(1) b by auto
qed

section \<open>Establishing the session\<close>

text \<open>The first frame of a client, which it sends before it reads anything.\<close>

definition first_frame :: "sodium \<Rightarrow> wire_globals \<Rightarrow> connect_in \<Rightarrow> string \<Rightarrow> cworld \<Rightarrow> bytes" where
  "first_frame S g ci sv cw = k_out (snd (client_handshake S g (posix_transport 0 0) (cl_identity (cw_impl cw)) sv (\<lambda>_. False) (ci_ephemeral ci) (ci_nonce ci)))"

text \<open>The handshake's frames have been read by the other side.\<close>

definition settle :: "nat \<Rightarrow> nat \<Rightarrow> cworld \<times> world \<Rightarrow> cworld \<times> world" where
  "settle c h s = (case s of (cw, w) \<Rightarrow>
     (on_connection c (\<lambda>conn. conn\<lparr>conn_transport := (conn_transport conn)\<lparr>k_out := []\<rparr>\<rparr>) cw,
      w_send h (\<lambda>cs. (True, cs\<lparr>cs_t := (cs_t cs)\<lparr>k_out := []\<rparr>\<rparr>)) w))"

lemma set_timeout_frame [simp]:
  "healthy (snd (set_recv_timeout t ms rc)) = healthy t" "k_in (snd (set_recv_timeout t ms rc)) = k_in t" "k_out (snd (set_recv_timeout t ms rc)) = k_out t"
  "healthy (snd (set_send_timeout t ms rc)) = healthy t" "k_in (snd (set_send_timeout t ms rc)) = k_in t" "k_out (snd (set_send_timeout t ms rc)) = k_out t"
  by (simp_all add: set_recv_timeout_def set_send_timeout_def healthy_def)

lemma healthy_in [simp]: "healthy (t\<lparr>k_in := x\<rparr>) = healthy t" "healthy (t\<lparr>k_out := y\<rparr>) = healthy t"
  by (simp_all add: healthy_def)

lemma set_recv_timeout_in: "snd (set_recv_timeout (t\<lparr>k_in := x\<rparr>) ms rc) = (snd (set_recv_timeout t ms rc))\<lparr>k_in := x\<rparr>"
  by (simp add: set_recv_timeout_def)

lemma connect_transport:
  assumes "connect address n = (Some t, n')"
  shows "healthy t" "k_out t = []" "net_os n' = net_os n"
  using assms by (auto simp: connect_def net_socket_def healthy_def posix_transport_def split: prod.splits if_splits option.splits)

lemma is_trusted_buckets [simp]: "is_trusted (H\<lparr>h_uid_buckets := b\<rparr>) pk s = is_trusted H pk s"
  by (simp add: is_trusted_def split: TrustPolicy.split)

lemma trusted_identity:
  "identity_trusted p allowed (load_pinned_peer tgt s) (en_identity_pubkey e) \<Longrightarrow> is_client_side_trusted p tgt e allowed s (en_identity_pubkey e)"
  by (cases p) (auto simp: is_client_side_trusted_def split: option.splits)

text \<open>The handshake in the order of its two frames: the host answers the first one, and the client reads the answer.\<close>

lemma handshake_frames:
  assumes "sodium_sizes S" "sign_correct S" "kx_agrees S"
    and "generate_identity S ri = Ret ci" "generate_identity S rj = Ret si"
    and "generate_ephemeral S er = Ret ce" "generate_ephemeral S es = Ret se"
    and "length nc = 16" "length ns = 16" "length name < 256"
    and "1 \<le> max_negotiable_version gc" "1 \<le> max_negotiable_version gs"
    and "healthy tc" "healthy ts" "trusts_server (id_public_key si)"
    and "trusts_client w (id_public_key ci) = (Ret True, w')"
    and hello: "k_in ts = frame_bytes False \<lparr>rf_type = Hello, rf_counter = 0, rf_epoch = 0,
      rf_body = encode_hello (client_hello S (max_negotiable_version gc) ci name ce nc)\<rparr>"
  obtains kc ks ab v where
    "server_handshake S gs ts si name trusts_client w es ns = (Ret (Some \<lparr>hs_keys = ks, hs_peer_identity = id_public_key ci, hs_version = v\<rparr>),
       ts\<lparr>k_in := [], k_out := k_out ts @ ab\<rparr>, w')"
    "client_handshake S gc (tc\<lparr>k_in := ab\<rparr>) ci name trusts_server er nc = (Ret (Some \<lparr>hs_keys = kc, hs_peer_identity = id_public_key si, hs_version = v\<rparr>),
       tc\<lparr>k_in := [], k_out := k_out tc @ k_in ts\<rparr>)"
    "sk_tx kc = sk_rx ks" "sk_rx kc = sk_tx ks" "length (sk_tx kc) = 32" "length (sk_rx kc) = 32"
proof -
  define tc' where "tc' = tc\<lparr>k_in := drop (length (k_out ts)) (k_out (fst (snd (server_handshake S gs ts si name trusts_client w es ns))))\<rparr>"
  have t: "healthy tc'" "k_in tc' = drop (length (k_out ts)) (k_out (fst (snd (server_handshake S gs ts si name trusts_client w es ns))))"
    using assms(13) by (simp_all add: tc'_def)
  obtain kc ks ab where h: "client_handshake S gc tc' ci name trusts_server er nc = (Ret (Some \<lparr>hs_keys = kc, hs_peer_identity = id_public_key si,
       hs_version = min (max_negotiable_version gc) (max_negotiable_version gs)\<rparr>), tc'\<lparr>k_in := [], k_out := k_out tc' @ k_in ts\<rparr>)"
    "server_handshake S gs ts si name trusts_client w es ns = (Ret (Some \<lparr>hs_keys = ks, hs_peer_identity = id_public_key ci,
       hs_version = min (max_negotiable_version gc) (max_negotiable_version gs)\<rparr>), ts\<lparr>k_in := [], k_out := k_out ts @ ab\<rparr>, w')"
    and k: "sk_tx kc = sk_rx ks" "sk_rx kc = sk_tx ks" "length (sk_tx kc) = 32" "length (sk_rx kc) = 32" "k_in tc' = ab"
    by (rule honest_handshakes [where trusts_client = trusts_client and w = w and trusts_server = trusts_server,
          OF assms(1-12) t(1) assms(14-16) hello t(2)])
  have tc': "tc' = tc\<lparr>k_in := ab\<rparr>" using k(5) by (simp add: tc'_def)
  show ?thesis by (rule that [OF h(2) _ k(1-4)]) (use h(1) in \<open>simp add: tc'\<close>)
qed

text \<open>The two halves, given what the handshake made of each.\<close>

lemma setup_after_handshake:
  assumes "si_sockopts i = (rc1, rc2, rc3)" "admit_connection (h_limits (w_host w)) (peer_uid t) (si_admit_time i) (h_uid_buckets (w_host w)) = (True, b)"
    and "server_handshake S g (snd (set_recv_timeout t kHandshakeTimeoutMs rc1)) (h_identity (w_host w)) (h_service_name (w_host w))
        (trust_fn ((w_host w)\<lparr>h_uid_buckets := b\<rparr>)) (False, w_os w) (si_ephemeral i) (si_nonce i) = (Ret (Some hs), t1, p, s1)"
    and "healthy t1" "k_in t1 = []"
  obtains th w1 t3 where "connection_setup S g h t i w = (Ret (Some th), w1)" "ct_cs th = h" "ct_rx th = rx_start (sk_rx (hs_keys hs))"
    "pi_public_key (ct_peer th) = hs_peer_identity hs" "h_running (w_host w1) = h_running (w_host w)"
    "map_of (w_conns w1) h = Some (ConnState_init t3 (sk_tx (hs_keys hs)) (2 \<le> hs_version hs))" "healthy t3" "k_in t3 = []" "k_out t3 = k_out t1"
proof -
  have os: "w_os (w\<lparr>w_accepted := a, w_host := x\<rparr>) = w_os w" for a x by (simp add: w_os_def)
  let ?t2 = "snd (set_recv_timeout t1 0 rc2)" and ?wt = "stream_write_timeout_ms (h_limits (w_host w))"
  define t3 where "t3 = (if 0 < ?wt then snd (set_send_timeout ?t2 ?wt rc3) else ?t2)"
  have "\<exists>th w1. connection_setup S g h t i w = (Ret (Some th), w1) \<and> ct_cs th = h \<and> ct_rx th = rx_start (sk_rx (hs_keys hs))
      \<and> pi_public_key (ct_peer th) = hs_peer_identity hs \<and> h_running (w_host w1) = h_running (w_host w)
      \<and> map_of (w_conns w1) h = Some (ConnState_init t3 (sk_tx (hs_keys hs)) (2 \<le> hs_version hs))"
    by (simp add: connection_setup_def Let_def update_conv' os assms t3_def)
  moreover have "healthy t3" "k_in t3 = []" "k_out t3 = k_out t1" using assms(4,5) by (simp_all add: t3_def)
  ultimately show ?thesis using that by blast
qed

lemma connect_after_handshake:
  assumes "live_connection sv cw = None" "lookup sv (cw_os cw) = (Some entry, s1)" "connect (en_address entry) (cw_net (set_cw_os s1 cw)) = (Some t0, n1)"
    and "identity_trusted (cl_policy (cw_impl cw)) (cl_allowed_peers (cw_impl cw)) (load_pinned_peer sv s1) (en_identity_pubkey entry)"
    and "ci_sockopts ci = (rc1, rc2, rc3)"
    and "client_handshake S g (snd (set_recv_timeout (t0\<lparr>k_in := ci_arriving ci\<rparr>) 5000 rc1)) (cl_identity (cw_impl cw)) sv
        (is_client_side_trusted (cl_policy (cw_impl cw)) sv entry (cl_allowed_peers (cw_impl cw)) s1) (ci_ephemeral ci) (ci_nonce ci) = (Ret (Some hs), t1)"
    and "cl_policy (cw_impl cw) = TrustOnFirstUse \<Longrightarrow> load_pinned_peer sv s1 = None \<Longrightarrow> fst (pin_peer sv (hs_peer_identity hs) s1) = Ret ()"
    and "healthy t1" "k_in t1 = []"
  obtains c cw1 t3 where "get_or_connect S g ci sv cw = (Ret c, cw1)" "map_of (cl_conns (cw_impl cw1)) sv = Some c"
    "map_of (cw_store cw1) c = Some (Connection_init t3 (hs_keys hs) (hs_version hs) (cl_rotation_policy (cw_impl cw)) (ci_now ci))"
    "map_of (cw_rx cw1) c = Some (rx_start (sk_rx (hs_keys hs)))" "healthy t3" "k_in t3 = []" "k_out t3 = k_out t1"
proof -
  have os: "net_os n1 = s1" using connect_transport(3) [OF assms(3)] by (simp add: set_cw_os_def)
  let ?t3 = "if 0 < cl_stream_write_timeout_ms (cw_impl cw) then snd (set_send_timeout (snd (set_recv_timeout t1 0 rc2)) (cl_stream_write_timeout_ms (cw_impl cw)) rc3)
     else snd (set_recv_timeout t1 0 rc2)"
  obtain w2 where cs: "connect_and_shake S g ci sv entry (set_cw_os s1 cw) = (Ret (?t3, hs), w2)"
  proof -
    assume *: "\<And>w2. connect_and_shake S g ci sv entry (set_cw_os s1 cw) = (Ret (?t3, hs), w2) \<Longrightarrow> thesis"
    have im: "cw_impl (set_cw_os s1 cw) = cw_impl cw" by (simp add: set_cw_os_def)
    show ?thesis
    proof (cases "cl_policy (cw_impl cw) = TrustOnFirstUse \<and> load_pinned_peer sv s1 = None")
      case True
      then obtain s2 where "pin_peer sv (hs_peer_identity hs) s1 = (Ret (), s2)" using assms(7) by (metis prod.collapse)
      with True assms(3,5,6) * show ?thesis by (simp add: connect_and_shake_def Let_def im cw_os_def os)
    next
      case False
      from assms(3,5,6) * show ?thesis by (simp add: connect_and_shake_def Let_def im cw_os_def os False)
    qed
  qed
  have im: "cw_impl w2 = cw_impl cw" using connect_and_shake_impl [OF cs] by (simp add: set_cw_os_def)
  have "get_or_connect S g ci sv cw = (case install_connection sv ?t3 hs (ci_now ci) w2 of (c, w3) \<Rightarrow> (Ret c, w3))"
    using assms(1,2,4) cs by (cases "cl_policy (cw_impl cw)") (auto simp: get_or_connect_def Let_def set_cw_os_def)
  then show ?thesis
    using assms(8,9) im by (intro that [of _ _ ?t3]) (auto simp: install_connection_def Let_def update_conv')
qed

lemma settled_session:
  assumes "sodium_sizes S" "aead_correct S"
    and k: "sk_tx kc = sk_rx ks" "sk_rx kc = sk_tx ks" "length (sk_tx kc) = 32" "length (sk_rx kc) = 32"
    and c: "map_of (cw_store cw) c = Some (Connection_init tc kc v rp now)" "map_of (cw_rx cw) c = Some (rx_start (sk_rx kc))"
      "healthy tc" "k_in tc = []"
    and h: "ct_cs th = h" "ct_rx th = rx_start (sk_rx ks)" "h_running (w_host w)"
      "map_of (w_conns w) h = Some (ConnState_init t (sk_tx ks) (2 \<le> v))" "healthy t" "k_in t = []"
  shows "session_between S c (fst (settle c h (cw, w))) th (snd (settle c h (cw, w)))"
proof -
  have inv: "sinv S (Connection_init (tc\<lparr>k_out := []\<rparr>) kc v rp now) (rx_start (sk_rx kc))
      (ConnState_init (t\<lparr>k_out := []\<rparr>) (sk_tx ks) (2 \<le> v)) (rx_start (sk_rx ks)) [] [] [] [] Idle [] []"
    using assms by (intro sinv_start) (simp_all add: usable_key_def)
  show ?thesis
    unfolding session_between_def
    by (rule exI, rule exI, rule exI, rule exI [of _ Idle], intro conjI)
      (use inv c h in \<open>simp_all add: settle_def on_connection_def w_send_def on_conn_def update_conv' Connection_init_def ConnState_init_def\<close>)
qed

text \<open>C3: dialling establishes a session. When a client without a connection calls a service whose registry entry names the host's identity
  key and which its policy trusts, and the host admits the connection and trusts the client, then with the two frames of the handshake exchanged
  the host has a thread for this client's key, the client has a live connection in its table, and the two ends are in step.\<close>

theorem dial_establishes_session:
  assumes S: "sodium_sizes S" "sign_correct S" "kx_agrees S" "aead_correct S" "\<forall>r. crypto_kx_keypair S r \<noteq> None"
    and ids: "generate_identity S ri = Ret (cl_identity (cw_impl cw))" "generate_identity S rj = Ret (h_identity (w_host w))"
    and client: "live_connection sv cw = None" "lookup sv (cw_os cw) = (Some entry, s1)" "en_identity_pubkey entry = id_public_key (h_identity (w_host w))"
      "connect (en_address entry) (cw_net (set_cw_os s1 cw)) = (Some t0, n1)"
      "identity_trusted (cl_policy (cw_impl cw)) (cl_allowed_peers (cw_impl cw)) (load_pinned_peer sv s1) (en_identity_pubkey entry)"
      "cl_policy (cw_impl cw) = TrustOnFirstUse \<and> load_pinned_peer sv s1 = None \<longrightarrow> fst (pin_peer sv (en_identity_pubkey entry) s1) = Ret ()"
    and host: "h_service_name (w_host w) = sv" "h_running (w_host w)" "healthy t" "k_out t = []"
      "fst (admit_connection (h_limits (w_host w)) (peer_uid t) (si_admit_time i) (h_uid_buckets (w_host w)))"
      "fst (fst (is_trusted (w_host w) (id_public_key (cl_identity (cw_impl cw))) (w_os w))) = Ret True"
    and sizes: "length sv < 256" "length (ci_nonce ci) = 16" "length (si_nonce i) = 16" "1 \<le> max_negotiable_version gc" "1 \<le> max_negotiable_version gh"
    and wire: "k_in t = first_frame S gc ci sv cw" "ci_arriving ci = host_out h (snd (connection_setup S gh h t i w))"
  shows "\<exists>th w1 c cw1. connection_setup S gh h t i w = (Ret (Some th), w1) \<and> get_or_connect S gc ci sv cw = (Ret c, cw1)
     \<and> pi_public_key (ct_peer th) = id_public_key (cl_identity (cw_impl cw)) \<and> map_of (cl_conns (cw_impl cw1)) sv = Some c
     \<and> session_between S c (fst (settle c h (cw1, w1))) th (snd (settle c h (cw1, w1)))"
proof -
  let ?I = "cw_impl cw" and ?H = "w_host w"
  obtain ce se where eph: "generate_ephemeral S (ci_ephemeral ci) = Ret ce" "generate_ephemeral S (si_ephemeral i) = Ret se"
    using generate_ephemeral_total [OF S(5)] by metis
  obtain rc1 rc2 rc3 sc1 sc2 sc3 where rc: "ci_sockopts ci = (rc1, rc2, rc3)" "si_sockopts i = (sc1, sc2, sc3)" by (metis prod_cases3)
  let ?tc = "snd (set_recv_timeout t0 5000 rc1)" and ?th = "snd (set_recv_timeout t kHandshakeTimeoutMs sc1)"
  let ?tr = "is_client_side_trusted (cl_policy ?I) sv entry (cl_allowed_peers ?I) s1"
  obtain p s2 where tru: "is_trusted ?H (id_public_key (cl_identity ?I)) (w_os w) = ((Ret True, p), s2)" using host(6) by (metis prod.collapse)
  obtain b where adm: "admit_connection (h_limits ?H) (peer_uid t) (si_admit_time i) (h_uid_buckets ?H) = (True, b)" using host(5) by (metis prod.collapse)
  let ?trust = "trust_fn (?H\<lparr>h_uid_buckets := b\<rparr>)"
  have trust: "?trust (False, w_os w) (id_public_key (cl_identity ?I)) = (Ret True, p, s2)" by (simp add: trust_fn_def tru)
  have hello: "k_in ?th = frame_bytes False \<lparr>rf_type = Hello, rf_counter = 0, rf_epoch = 0,
      rf_body = encode_hello (client_hello S (max_negotiable_version gc) (cl_identity ?I) sv ce (ci_nonce ci))\<rparr>"
    using wire(1) client_handshake_writes [OF eph(1), of "posix_transport 0 0"] by (simp add: first_frame_def healthy_def posix_transport_def)
  have tc: "healthy ?tc" "healthy ?th" "?tr (id_public_key (h_identity ?H))"
    using connect_transport(1) [OF client(4)] host(3) trusted_identity [OF client(5)] client(3) by auto
  obtain kc ks ab v where sr: "server_handshake S gh ?th (h_identity ?H) sv ?trust (False, w_os w) (si_ephemeral i) (si_nonce i)
        = (Ret (Some \<lparr>hs_keys = ks, hs_peer_identity = id_public_key (cl_identity ?I), hs_version = v\<rparr>), ?th\<lparr>k_in := [], k_out := k_out ?th @ ab\<rparr>, p, s2)"
    and cl: "client_handshake S gc (?tc\<lparr>k_in := ab\<rparr>) (cl_identity ?I) sv ?tr (ci_ephemeral ci) (ci_nonce ci)
        = (Ret (Some \<lparr>hs_keys = kc, hs_peer_identity = id_public_key (h_identity ?H), hs_version = v\<rparr>), ?tc\<lparr>k_in := [], k_out := k_out ?tc @ k_in ?th\<rparr>)"
    and k: "sk_tx kc = sk_rx ks" "sk_rx kc = sk_tx ks" "length (sk_tx kc) = 32" "length (sk_rx kc) = 32"
    by (rule handshake_frames [where trusts_client = ?trust and w = "(False, w_os w)" and trusts_server = ?tr,
          OF S(1-3) ids eph sizes(2,3,1,4,5) tc trust hello])
  obtain th w1 t3 where h: "connection_setup S gh h t i w = (Ret (Some th), w1)" "ct_cs th = h" "ct_rx th = rx_start (sk_rx ks)"
    "pi_public_key (ct_peer th) = id_public_key (cl_identity ?I)" "h_running (w_host w1) = h_running ?H"
    "map_of (w_conns w1) h = Some (ConnState_init t3 (sk_tx ks) (2 \<le> v))" "healthy t3" "k_in t3 = []" "k_out t3 = ab"
    using setup_after_handshake [OF rc(2) adm sr [folded host(1)], of h] tc(2) host(4) by auto
  have "ci_arriving ci = ab" using wire(2) h by (simp add: host_out_def ConnState_init_def)
  note cl' = cl [folded this set_recv_timeout_in]
  obtain c cw1 t4 where c: "get_or_connect S gc ci sv cw = (Ret c, cw1)" "map_of (cl_conns (cw_impl cw1)) sv = Some c"
    "map_of (cw_store cw1) c = Some (Connection_init t4 kc v (cl_rotation_policy ?I) (ci_now ci))"
    "map_of (cw_rx cw1) c = Some (rx_start (sk_rx kc))" "healthy t4" "k_in t4 = []"
  proof (rule connect_after_handshake [OF client(1,2,4,5) rc(1) cl'])
    show "fst (pin_peer sv (hs_peer_identity \<lparr>hs_keys = kc, hs_peer_identity = id_public_key (h_identity ?H), hs_version = v\<rparr>) s1) = Ret ()"
      if "cl_policy ?I = TrustOnFirstUse" "load_pinned_peer sv s1 = None" using that client(3,6) by simp
  qed (use tc(1) that in auto)
  have "session_between S c (fst (settle c h (cw1, w1))) th (snd (settle c h (cw1, w1)))"
    by (rule settled_session [OF S(1,4) k c(3-6) h(2,3) _ h(6-8)]) (simp add: h(5) host(2))
  with h(1,4) c(1,2) show ?thesis by blast
qed

section \<open>Instance\<close>

text \<open>A client with a fresh connection to the host of the other instances.\<close>

definition calling_world :: cworld where
  "calling_world = (waiting_world [])\<lparr>cw_store := [(1, Connection_init (posix_transport 5 1000) \<lparr>sk_rx = replicate 32 4, sk_tx = replicate 32 3\<rparr> 1
       \<lparr>rot_interval = 0, rot_max_bytes = 0\<rparr> 0)], cw_rx := [(1, rx_start (replicate 32 4))]\<rparr>"

definition demo_connect :: connect_in where
  "demo_connect = \<lparr>ci_ephemeral = [], ci_nonce = [], ci_now = 0, ci_arriving = [], ci_sockopts = (0, 0, 0)\<rparr>"

lemma calling_session: "session_between toy_sodium 1 calling_world demo_thread (demo_world [])"
proof -
  let ?kc = "\<lparr>sk_rx = replicate 32 4, sk_tx = replicate 32 3\<rparr>" and ?kh = "\<lparr>sk_rx = replicate 32 3, sk_tx = replicate 32 4\<rparr>"
  have "sinv toy_sodium (Connection_init (posix_transport 5 1000) ?kc 1 \<lparr>rot_interval = 0, rot_max_bytes = 0\<rparr> 0) (rx_start (sk_rx ?kc))
      (ConnState_init ((posix_transport 4 1000)\<lparr>k_in := []\<rparr>) (sk_tx ?kh) (2 \<le> (1 :: u8))) (rx_start (sk_rx ?kh)) [] [] [] [] Idle [] []"
    using toy_laws by (intro sinv_start) (simp_all add: healthy_def posix_transport_def usable_key_def)
  then show ?thesis
    unfolding session_between_def
    by (intro exI [of _ "Connection_init (posix_transport 5 1000) ?kc 1 \<lparr>rot_interval = 0, rot_max_bytes = 0\<rparr> 0"] exI [of _ "rx_start (replicate 32 4)"]
        exI [of _ "ConnState_init ((posix_transport 4 1000)\<lparr>k_in := []\<rparr>) (replicate 32 4) False"] exI [of _ Idle])
      (simp add: calling_world_def demo_world_def demo_thread_def Connection_init_def)
qed

theorem call_is_answered_witness:
  "\<exists>cw'. get toy_sodium wire_globals_init demo_connect \<lparr>se_now = 0, se_ephemeral = []\<rparr> ''notes'' ''echo'' [5, 6]
       (\<lambda>cw1. fst (snd (snd (exchange toy_sodium [demo_turn, demo_turn] [0, 0] 1 demo_thread (cw1, demo_world []))))) calling_world = (Ret [5, 6], cw')"
proof -
  have o: "call_outcome (w_host (demo_world [])) (ct_peer demo_thread) (ct_cache demo_thread) 50 (w_os (demo_world [])) ''notes'' ''echo'' [5, 6] = Some (Ret [5, 6])"
    by (simp add: call_outcome_def entry_outcome_def demo_world_def demo_thread_def echo_entry_def authorize_def authorize_fresh_def entry_access_def AccessPolicy_init_def EndpointEntry_init_def)
  have "\<forall>i \<in> set [demo_turn, demo_turn]. ti_unix_time i = 50 \<and> fst (rate_limit (h_limits (w_host (demo_world []))) i demo_thread)"
    by (simp add: demo_turn_def rate_limit_def demo_world_def demo_host_def HostImpl_init_def ConnectionLimits_init_def)
  from call_is_answered [OF toy_sizes toy_kx_agrees toy_aead_correct toy_kx_total calling_session _ _ _ _ o _ this, of "[0, 0]"
      wire_globals_init demo_connect "\<lparr>se_now = 0, se_ephemeral = []\<rparr>"]
  show ?thesis
    by (auto simp: calling_world_def waiting_world_def max_payload_def outcome_size_def kUnsubscribeEndpoint_def)
qed

text \<open>A client without connections, on a machine where \<open>notes\<close> is registered and listening.\<close>

definition dial_entry :: Entry where
  "dial_entry = Entry_init\<lparr>en_service_name := ''notes'', en_address := ''/home/u/n'', en_identity_pubkey := pad 32 [2], en_pid := 42\<rparr>"

definition dial_os :: os where
  "dial_os = set_node [''home'', ''u'', ''n''] (File 1000 0x1C0 []) (snd (publish dial_entry demo_os))"

definition dial_world :: cworld where
  "dial_world = \<lparr>cw_impl = ClientImpl_init (toy_identity [1]) AllowAll,
     cw_net = \<lparr>net_os = dial_os, net_bound = [([''home'', ''u'', ''n''], 9)], net_next_fd = 3, net_socket_ok = (\<lambda>_. True), net_listen_ok = (\<lambda>_. True),
       net_peer_uid = (\<lambda>_. None)\<rparr>,
     cw_store = [], cw_rx = [], cw_joined = [], cw_handles = [], cw_active = [], cw_next = 1, cw_calls = []\<rparr>"

lemma dial_lookup: "lookup ''notes'' dial_os = (Some dial_entry, dial_os)"
proof -
  have 1: "fst (lookup ''notes'' dial_os) = Some dial_entry" by code_simp
  then show ?thesis by (auto simp: lookup_def split: option.splits if_splits)
qed

lemma dial_connect: "\<exists>n1. connect (en_address dial_entry) (cw_net dial_world) = (Some (posix_transport 3 (-1)), n1)"
proof -
  have "fst (connect (en_address dial_entry) (cw_net dial_world)) = Some (posix_transport 3 (-1))" by code_simp
  then show ?thesis by (metis prod.collapse)
qed

definition dial_in :: "bytes \<Rightarrow> connect_in" where
  "dial_in arriving = \<lparr>ci_ephemeral = [3], ci_nonce = pad 16 [5], ci_now = 0, ci_arriving = arriving, ci_sockopts = (0, 0, 0)\<rparr>"

definition dial_setup :: setup_in where
  "dial_setup = \<lparr>si_admit_time = 0, si_ephemeral = [4], si_nonce = pad 16 [6], si_bucket_time = 0, si_sockopts = (0, 0, 0)\<rparr>"

definition dial_socket :: PosixTransport where
  "dial_socket = (posix_transport 6 1000)\<lparr>k_in := first_frame toy_sodium wire_globals_init (dial_in []) ''notes'' dial_world\<rparr>"

theorem dial_establishes_session_witness:
  "\<exists>th w1 c cw1. connection_setup toy_sodium wire_globals_init 5 dial_socket dial_setup (demo_world []) = (Ret (Some th), w1)
     \<and> get_or_connect toy_sodium wire_globals_init (dial_in (host_out 5 w1)) ''notes'' dial_world = (Ret c, cw1)
     \<and> session_between toy_sodium c (fst (settle c 5 (cw1, w1))) th (snd (settle c 5 (cw1, w1)))"
proof -
  let ?w1 = "snd (connection_setup toy_sodium wire_globals_init 5 dial_socket dial_setup (demo_world []))"
  obtain n1 where n1: "connect (en_address dial_entry) (cw_net (set_cw_os dial_os dial_world)) = (Some (posix_transport 3 (-1)), n1)"
    using dial_connect by (auto simp: set_cw_os_def dial_world_def)
  have i: "first_frame toy_sodium wire_globals_init (dial_in x) ''notes'' dial_world = first_frame toy_sodium wire_globals_init (dial_in []) ''notes'' dial_world" for x
    by (simp add: first_frame_def dial_in_def)
  have "\<exists>th w1 c cw1. connection_setup toy_sodium wire_globals_init 5 dial_socket dial_setup (demo_world []) = (Ret (Some th), w1)
     \<and> get_or_connect toy_sodium wire_globals_init (dial_in (host_out 5 ?w1)) ''notes'' dial_world = (Ret c, cw1)
     \<and> pi_public_key (ct_peer th) = id_public_key (cl_identity (cw_impl dial_world)) \<and> map_of (cl_conns (cw_impl cw1)) ''notes'' = Some c
     \<and> session_between toy_sodium c (fst (settle c 5 (cw1, w1))) th (snd (settle c 5 (cw1, w1)))"
  proof (rule dial_establishes_session [OF toy_laws(1-3) toy_aead_correct toy_kx_total _ _ _ _ _ n1])
    show "generate_identity toy_sodium [1] = Ret (cl_identity (cw_impl dial_world))" by (simp add: dial_world_def ClientImpl_init_def)
    show "generate_identity toy_sodium [2] = Ret (h_identity (w_host (demo_world [])))" by (simp add: demo_world_def demo_host_def HostImpl_init_def)
    show "lookup ''notes'' (cw_os dial_world) = (Some dial_entry, dial_os)" by (simp add: cw_os_def dial_world_def dial_lookup)
    show "k_in dial_socket = first_frame toy_sodium wire_globals_init (dial_in (host_out 5 ?w1)) ''notes'' dial_world"
      by (subst i) (simp add: dial_socket_def)
  qed (simp_all add: dial_world_def ClientImpl_init_def live_connection_def demo_world_def demo_host_def HostImpl_init_def dial_entry_def dial_in_def dial_setup_def
      dial_socket_def healthy_def posix_transport_def is_trusted_def admit_connection_def ConnectionLimits_init_def)
  then show ?thesis by auto
qed

end
