(* ===== verification/Epx_CHeap.thy ===== *)
theory Epx_CHeap
  imports Epx_CApi "HOL-Library.Monad_Syntax"
begin

text \<open>
  The memory behind the C ABI: what \<open>epx_list_services\<close>, \<open>epx_describe\<close> and the conversions of bytes and strings (\<^verbatim>\<open>src/c_api.cpp\<close>) allocate
  with \<open>malloc\<close> and what the release functions give back to \<open>free\<close>. The heap maps the addresses of live blocks to their contents;
  address 0 is NULL, and an array element that was not written yet is indeterminate (\<open>None\<close>). \<open>hp_oom\<close> says which allocations fail.
  \<open>None\<close> as a result is undefined behaviour: writing through NULL, reading an indeterminate element, or freeing an address that is not a
  live block.
\<close>

section \<open>The heap\<close>

type_synonym addr = nat

record c_description =
  hd_service_name :: addr
  hd_description :: addr
  hd_pid :: int
  hd_identity_pubkey :: bytes
  hd_endpoints :: addr
  hd_endpoint_count :: nat

datatype cell = Data bytes | Chars string | Pointers "addr option list"
  | Endpoints "(addr \<times> epx_endpoint_kind) option list" | Description c_description

record heap =
  hp_blocks :: "addr \<rightharpoonup> cell"
  hp_next :: addr
  hp_oom :: "addr \<Rightarrow> bool"

definition malloc :: "cell \<Rightarrow> heap \<Rightarrow> addr \<times> heap" where
  "malloc c h = (let p = hp_next h; h1 = h\<lparr>hp_next := p + 1\<rparr> in
     if hp_oom h p then (0, h1) else (p, h1\<lparr>hp_blocks := (hp_blocks h)(p \<mapsto> c)\<rparr>))"

definition c_free :: "addr \<Rightarrow> heap \<Rightarrow> heap option" where
  "c_free p h =
     (if p = 0 then Some h
      else if hp_blocks h p = None then None
      else Some (h\<lparr>hp_blocks := (hp_blocks h)(p := None)\<rparr>))"

text \<open>A block that is filled at once by \<open>memcpy\<close>.\<close>

definition filled :: "cell \<Rightarrow> heap \<Rightarrow> (addr \<times> heap) option" where
  "filled c h = (case malloc c h of (p, h1) \<Rightarrow> if p = 0 then None else Some (p, h1))"

section \<open>Allocation and release in the interface\<close>

definition heap_c_bytes :: "bytes \<Rightarrow> heap \<Rightarrow> ((addr \<times> nat) \<times> heap) option" where
  "heap_c_bytes b h =
     (if b \<noteq> [] then do { (p, h1) \<leftarrow> filled (Data b) h; Some ((p, length b), h1) } else Some ((0, 0), h))"

definition heap_c_string :: "string \<Rightarrow> heap \<Rightarrow> (addr \<times> heap) option" where
  "heap_c_string s h = filled (Chars (to_c_string s)) h"

definition epx_bytes_free :: "addr \<times> nat \<Rightarrow> heap \<Rightarrow> heap option" where
  "epx_bytes_free b h = c_free (fst b) h"

definition epx_string_free :: "addr \<Rightarrow> heap \<Rightarrow> heap option" where
  "epx_string_free s h = c_free s h"

text \<open>The loops over an array: filling it with fresh strings, and freeing the strings it refers to. \<open>put\<close> writes and \<open>got\<close> reads one element.\<close>

fun fill_array :: "(nat \<Rightarrow> 'x \<Rightarrow> addr \<Rightarrow> cell \<Rightarrow> cell option) \<Rightarrow> ('x \<Rightarrow> string) \<Rightarrow> addr \<Rightarrow> nat \<Rightarrow> 'x list \<Rightarrow> heap \<Rightarrow> heap option" where
  "fill_array put name l i [] h = Some h"
| "fill_array put name l i (x # xs) h = do {
     (p, h1) \<leftarrow> heap_c_string (name x) h;
     c \<leftarrow> hp_blocks h1 l;
     c1 \<leftarrow> put i x p c;
     fill_array put name l (i + 1) xs (h1\<lparr>hp_blocks := (hp_blocks h1)(l \<mapsto> c1)\<rparr>)
   }"

fun free_array :: "(nat \<Rightarrow> cell \<Rightarrow> addr option) \<Rightarrow> addr \<Rightarrow> nat \<Rightarrow> nat \<Rightarrow> heap \<Rightarrow> heap option" where
  "free_array got l i 0 h = Some h"
| "free_array got l i (Suc k) h = do {
     c \<leftarrow> hp_blocks h l;
     p \<leftarrow> got i c;
     h1 \<leftarrow> c_free p h;
     free_array got l (i + 1) k h1
   }"

definition put_pointer :: "nat \<Rightarrow> string \<Rightarrow> addr \<Rightarrow> cell \<Rightarrow> cell option" where
  "put_pointer i s p c = (case c of Pointers ps \<Rightarrow> if i < length ps then Some (Pointers (ps[i := Some p])) else None | _ \<Rightarrow> None)"

definition got_pointer :: "nat \<Rightarrow> cell \<Rightarrow> addr option" where
  "got_pointer i c = (case c of Pointers ps \<Rightarrow> if i < length ps then ps ! i else None | _ \<Rightarrow> None)"

definition put_endpoint :: "nat \<Rightarrow> DescribedEndpoint \<Rightarrow> addr \<Rightarrow> cell \<Rightarrow> cell option" where
  "put_endpoint i e p c = (case c of
       Endpoints es \<Rightarrow> if i < length es then Some (Endpoints (es[i := Some (p, c_kinds ! kind_value (de_kind e))])) else None
     | _ \<Rightarrow> None)"

definition got_endpoint :: "nat \<Rightarrow> cell \<Rightarrow> addr option" where
  "got_endpoint i c = (case c of Endpoints es \<Rightarrow> if i < length es then map_option fst (es ! i) else None | _ \<Rightarrow> None)"

definition array_size :: "nat \<Rightarrow> nat" where
  "array_size n = (if n = 0 then 1 else n)"

definition heap_list_services :: "bool \<Rightarrow> bool \<Rightarrow> os \<Rightarrow> string \<Rightarrow> heap \<Rightarrow> ((addr \<times> nat) c_result \<times> os \<times> heap) option" where
  "heap_list_services out_names out_count s err h =
     (if \<not> out_names \<or> \<not> out_count then Some (null_argument, s, h)
      else case list_services s of (names, s1) \<Rightarrow>
           case malloc (Pointers (replicate (array_size (length names)) None)) h of (l, h1) \<Rightarrow> do {
             h2 \<leftarrow> fill_array put_pointer id l 0 names h1;
             Some (guarded (Ret (l, length names)) err, s1, h2)
           })"

definition epx_string_list_free :: "addr \<Rightarrow> nat \<Rightarrow> heap \<Rightarrow> heap option" where
  "epx_string_list_free l count h =
     (if l = 0 then Some h else do { h1 \<leftarrow> free_array got_pointer l 0 count h; c_free l h1 })"

text \<open>The description's fields are written in turn; its block is complete once the last one is.\<close>

definition heap_describe :: "string option \<Rightarrow> bool \<Rightarrow> os \<Rightarrow> string \<Rightarrow> heap \<Rightarrow> (addr c_result \<times> os \<times> heap) option" where
  "heap_describe service out_description s err h =
     (case (service, out_description) of
        (Some sv, True) \<Rightarrow>
          (case describe (cstr sv) s of
             (None, s1) \<Rightarrow> Some (guarded (Throw (EpxError NotFound (''no live service registered as '' @ quoted (cstr sv)))) err, s1, h)
           | (Some d, s1) \<Rightarrow> do {
               let n = length (sd_endpoints d);
               (out, h1) \<leftarrow> filled (Description \<lparr>hd_service_name = 0, hd_description = 0, hd_pid = 0, hd_identity_pubkey = [], hd_endpoints = 0, hd_endpoint_count = 0\<rparr>) h;
               (name, h2) \<leftarrow> heap_c_string (sd_service_name d) h1;
               (desc, h3) \<leftarrow> heap_c_string (sd_description d) h2;
               let (es, h4) = malloc (Endpoints (replicate (array_size n) None)) h3;
               h5 \<leftarrow> fill_array put_endpoint de_name es 0 (sd_endpoints d) h4;
               Some (guarded (Ret out) err, s1, h5\<lparr>hp_blocks := (hp_blocks h5)(out \<mapsto> Description
                 \<lparr>hd_service_name = name, hd_description = desc, hd_pid = sd_pid d, hd_identity_pubkey = take 32 (sd_identity_pubkey d),
                  hd_endpoints = es, hd_endpoint_count = n\<rparr>)\<rparr>)
             })
      | _ \<Rightarrow> Some (null_argument, s, h))"

definition epx_service_description_free :: "addr \<Rightarrow> heap \<Rightarrow> heap option" where
  "epx_service_description_free out h =
     (if out = 0 then Some h
      else case hp_blocks h out of
        Some (Description d) \<Rightarrow> do {
          h1 \<leftarrow> c_free (hd_service_name d) h;
          h2 \<leftarrow> c_free (hd_description d) h1;
          h3 \<leftarrow> free_array got_endpoint (hd_endpoints d) 0 (hd_endpoint_count d) h2;
          h4 \<leftarrow> c_free (hd_endpoints d) h3;
          c_free out h4
        }
      | _ \<Rightarrow> None)"

text \<open>The calling thread's last error message, as it starts and as it is handed out.\<close>

definition t_last_error :: string where "t_last_error = ''no error''"

definition epx_last_error :: "string \<Rightarrow> string" where "epx_last_error err = c_str err"

section \<open>Filling and freeing arrays\<close>

definition heap_ok :: "heap \<Rightarrow> bool" where
  "heap_ok h \<longleftrightarrow> 0 < hp_next h \<and> (\<forall>p \<in> dom (hp_blocks h). 0 < p \<and> p < hp_next h) \<and> (\<forall>p. \<not> hp_oom h p)"

text \<open>Strings in consecutive fresh blocks.\<close>

definition strings_from :: "addr \<Rightarrow> string list \<Rightarrow> addr \<rightharpoonup> cell" where
  "strings_from a ss = (\<lambda>p. if a \<le> p \<and> p < a + length ss then Some (Chars (to_c_string (ss ! (p - a)))) else None)"

lemma strings_from_Nil [simp]: "strings_from a [] = Map.empty"
  by (auto simp: strings_from_def)

lemma strings_from_Cons: "m(a \<mapsto> Chars (to_c_string s)) ++ strings_from (Suc a) ss = m ++ strings_from a (s # ss)"
  by (rule ext) (auto simp: strings_from_def map_add_def nth_Cons' Suc_diff_le split: option.splits)

lemma filled_ok: "\<not> hp_oom h (hp_next h) \<Longrightarrow> 0 < hp_next h \<Longrightarrow>
    filled c h = Some (hp_next h, h\<lparr>hp_next := hp_next h + 1, hp_blocks := (hp_blocks h)(hp_next h \<mapsto> c)\<rparr>)"
  by (simp add: filled_def malloc_def Let_def)

lemma fill_array_ok:
  assumes "\<forall>p. \<not> hp_oom h p" "l < hp_next h" "hp_blocks h l = Some (arr ps)"
    and put: "\<And>j p. j < length xs \<Longrightarrow> \<forall>qs. length qs = length ps + j \<longrightarrow> put (length ps + j) (xs ! j) p (arr qs) = Some (arr (qs @ [p]))"
  shows "\<exists>h'. fill_array put name l (length ps) xs h = Some h' \<and> hp_next h' = hp_next h + length xs \<and> hp_oom h' = hp_oom h
     \<and> hp_blocks h' = (hp_blocks h)(l \<mapsto> arr (ps @ [hp_next h..<hp_next h + length xs])) ++ strings_from (hp_next h) (map name xs)"
  using assms
proof (induction xs arbitrary: ps h)
  case Nil
  have "(hp_blocks h)(l \<mapsto> arr ps) = hp_blocks h" using Nil.prems(3) by (simp add: fun_upd_idem)
  then show ?case by simp
next
  case (Cons x xs)
  let ?a = "hp_next h" and ?c = "Chars (to_c_string (name x))"
  define h1 where "h1 = h\<lparr>hp_next := ?a + 1, hp_blocks := (hp_blocks h)(?a \<mapsto> ?c, l \<mapsto> arr (ps @ [?a]))\<rparr>"
  have "0 < ?a" using Cons.prems(2) by simp
  then have st: "heap_c_string (name x) h = Some (?a, h\<lparr>hp_next := ?a + 1, hp_blocks := (hp_blocks h)(?a \<mapsto> ?c)\<rparr>)"
    using Cons.prems(1) by (simp add: heap_c_string_def filled_ok)
  have pt: "put (length ps) x ?a (arr ps) = Some (arr (ps @ [?a]))" using Cons.prems(4) [of 0] by simp
  have step: "fill_array put name l (length ps) (x # xs) h = fill_array put name l (length (ps @ [?a])) xs h1"
    using Cons.prems(2,3) by (simp add: st pt h1_def)
  have put': "\<forall>qs. length qs = length (ps @ [?a]) + j \<longrightarrow> put (length (ps @ [?a]) + j) (xs ! j) p (arr qs) = Some (arr (qs @ [p]))" if "j < length xs" for j p
    using Cons.prems(4) [of "Suc j" p] that by simp
  have "\<exists>h'. fill_array put name l (length (ps @ [?a])) xs h1 = Some h' \<and> hp_next h' = hp_next h1 + length xs \<and> hp_oom h' = hp_oom h1
     \<and> hp_blocks h' = (hp_blocks h1)(l \<mapsto> arr ((ps @ [?a]) @ [hp_next h1..<hp_next h1 + length xs])) ++ strings_from (hp_next h1) (map name xs)"
    using Cons.prems(1,2) put' by (intro Cons.IH) (simp_all add: h1_def)
  then obtain h' where h': "fill_array put name l (length (ps @ [?a])) xs h1 = Some h'" "hp_next h' = hp_next h1 + length xs" "hp_oom h' = hp_oom h1"
     "hp_blocks h' = (hp_blocks h1)(l \<mapsto> arr ((ps @ [?a]) @ [hp_next h1..<hp_next h1 + length xs])) ++ strings_from (hp_next h1) (map name xs)" by blast
  have blocks: "(hp_blocks h1)(l \<mapsto> arr ((ps @ [?a]) @ [hp_next h1..<hp_next h1 + length xs])) ++ strings_from (hp_next h1) (map name xs)
      = (hp_blocks h)(l \<mapsto> arr (ps @ [?a..<?a + length (x # xs)])) ++ strings_from ?a (map name (x # xs))"
  proof -
    have up: "(ps @ [?a]) @ [Suc ?a..<Suc ?a + length xs] = ps @ [?a..<?a + length (x # xs)]" by (simp add: upt_conv_Cons del: upt_Suc)
    have tw: "(hp_blocks h1)(l \<mapsto> b) = (hp_blocks h)(l \<mapsto> b, ?a \<mapsto> ?c)" for b
      using Cons.prems(2) by (simp add: h1_def fun_upd_twist)
    have nx: "hp_next h1 = Suc ?a" by (simp add: h1_def)
    show ?thesis unfolding nx up tw list.map strings_from_Cons by (rule refl)
  qed
  have "hp_next h' = ?a + length (x # xs)" "hp_oom h' = hp_oom h" using h'(2,3) by (simp_all add: h1_def)
  with h'(1) h'(4) [unfolded blocks] show ?case unfolding step by blast
qed

lemma free_array_ok:
  assumes "hp_blocks h l = Some c" "\<And>j. j < length ps \<Longrightarrow> got (i + j) c = Some (ps ! j)"
    and "distinct ps" "l \<notin> set ps" "set ps \<subseteq> dom (hp_blocks h)" "0 \<notin> set ps"
  shows "free_array got l i (length ps) h = Some (h\<lparr>hp_blocks := (hp_blocks h) |` (- set ps)\<rparr>)"
  using assms
proof (induction ps arbitrary: i h)
  case (Cons p ps)
  define h1 where "h1 = h\<lparr>hp_blocks := (hp_blocks h)(p := None)\<rparr>"
  have fr: "c_free p h = Some h1" using Cons.prems(5,6) by (auto simp: c_free_def h1_def)
  have got: "got i c = Some p" using Cons.prems(2) [of 0] by simp
  have "free_array got l (i + 1) (length ps) h1 = Some (h1\<lparr>hp_blocks := (hp_blocks h1) |` (- set ps)\<rparr>)"
  proof (rule Cons.IH)
    show "got (i + 1 + j) c = Some (ps ! j)" if "j < length ps" for j using Cons.prems(2) [of "Suc j"] that by simp
  qed (use Cons.prems in \<open>auto simp: h1_def\<close>)
  moreover have "(hp_blocks h)(p := None) |` (- set ps) = hp_blocks h |` (- set (p # ps))" by (rule ext) (auto simp: restrict_map_def)
  ultimately show ?case using Cons.prems(1) by (simp add: got fr h1_def)
qed (simp add: restrict_map_def)

section \<open>What the caller reads\<close>

definition read_chars :: "heap \<Rightarrow> addr \<Rightarrow> string option" where
  "read_chars h p = (case hp_blocks h p of Some (Chars s) \<Rightarrow> Some s | _ \<Rightarrow> None)"

definition read_list :: "heap \<Rightarrow> addr \<Rightarrow> nat \<Rightarrow> string option list" where
  "read_list h l n = map (\<lambda>i. do { c \<leftarrow> hp_blocks h l; p \<leftarrow> got_pointer i c; read_chars h p }) [0..<n]"

definition read_endpoint :: "heap \<Rightarrow> cell \<Rightarrow> nat \<Rightarrow> epx_endpoint_desc option" where
  "read_endpoint h c i = (case c of
       Endpoints es \<Rightarrow> if i < length es then do { (p, k) \<leftarrow> es ! i; n \<leftarrow> read_chars h p; Some \<lparr>ced_name = n, ced_kind = k\<rparr> } else None
     | _ \<Rightarrow> None)"

definition read_description :: "heap \<Rightarrow> addr \<Rightarrow> epx_service_description option" where
  "read_description h out = (case hp_blocks h out of
       Some (Description d) \<Rightarrow> do {
         name \<leftarrow> read_chars h (hd_service_name d);
         desc \<leftarrow> read_chars h (hd_description d);
         c \<leftarrow> hp_blocks h (hd_endpoints d);
         es \<leftarrow> those (map (read_endpoint h c) [0..<hd_endpoint_count d]);
         Some \<lparr>csd_service_name = name, csd_description = desc, csd_pid = hd_pid d, csd_identity_pubkey = hd_identity_pubkey d,
           csd_endpoints = es, csd_endpoint_count = hd_endpoint_count d\<rparr>
       }
     | _ \<Rightarrow> None)"

text \<open>Arrays whose first elements are written.\<close>

definition pointers_to :: "nat \<Rightarrow> addr list \<Rightarrow> cell" where
  "pointers_to n ps = Pointers (map Some ps @ replicate (array_size n - length ps) None)"

definition endpoints_to :: "DescribedEndpoint list \<Rightarrow> addr list \<Rightarrow> cell" where
  "endpoints_to es ps = Endpoints (map (\<lambda>i. Some (ps ! i, c_kinds ! kind_value (de_kind (es ! i)))) [0..<length ps]
     @ replicate (array_size (length es) - length ps) None)"

lemma array_size_ge [simp]: "n \<le> array_size n"
  by (simp add: array_size_def)

lemma put_pointers_to:
  assumes "length qs < n"
  shows "put_pointer (length qs) x p (pointers_to n qs) = Some (pointers_to n (qs @ [p]))"
proof -
  have lt: "length qs < array_size n" using assms array_size_ge [of n] by linarith
  then have "array_size n - length qs = Suc (array_size n - Suc (length qs))" by simp
  with lt show ?thesis by (simp add: put_pointer_def pointers_to_def list_update_append)
qed

lemma put_endpoints_to:
  assumes "length qs < length es"
  shows "put_endpoint (length qs) (es ! length qs) p (endpoints_to es qs) = Some (endpoints_to es (qs @ [p]))"
proof -
  have lt: "length qs < array_size (length es)" using assms array_size_ge [of "length es"] by linarith
  then have "array_size (length es) - length qs = Suc (array_size (length es) - Suc (length qs))" by simp
  moreover have "map (\<lambda>i. Some (qs ! i, c_kinds ! kind_value (de_kind (es ! i)))) [0..<length qs]
      = map (\<lambda>i. Some ((qs @ [p]) ! i, c_kinds ! kind_value (de_kind (es ! i)))) [0..<length qs]" by (simp add: nth_append)
  ultimately show ?thesis using lt by (simp add: put_endpoint_def endpoints_to_def list_update_append)
qed

lemma got_pointers_to [simp]: "j < length ps \<Longrightarrow> got_pointer j (pointers_to n ps) = Some (ps ! j)"
  by (simp add: got_pointer_def pointers_to_def nth_append)

lemma got_endpoints_to [simp]: "j < length ps \<Longrightarrow> got_endpoint j (endpoints_to es ps) = Some (ps ! j)"
  by (simp add: got_endpoint_def endpoints_to_def nth_append)

lemma arrays_start: "pointers_to n [] = Pointers (replicate (array_size n) None)" "endpoints_to es [] = Endpoints (replicate (array_size (length es)) None)"
  by (simp_all add: pointers_to_def endpoints_to_def)

lemma strings_from_at: "i < length ss \<Longrightarrow> strings_from a ss (a + i) = Some (Chars (to_c_string (ss ! i)))"
  by (simp add: strings_from_def)

lemma strings_from_None: "p < a \<Longrightarrow> strings_from a ss p = None"
  by (simp add: strings_from_def)

text \<open>The blocks of an array and of its strings, above the rest of the heap.\<close>

lemma drop_strings:
  assumes "\<forall>p. a \<le> p \<longrightarrow> m p = None"
  shows "(m ++ strings_from a ss) |` (- {a..<a + length ss}) = m"
  using assms by (intro ext) (auto simp: restrict_map_def map_add_def strings_from_def split: option.splits)

lemma heap_fresh: "heap_ok h \<Longrightarrow> hp_next h \<le> p \<Longrightarrow> hp_blocks h p = None"
  by (metis domIff heap_ok_def not_le)

lemma alloc_array:
  assumes "heap_ok h" and put: "\<And>j p qs. j < length xs \<Longrightarrow> length qs = j \<Longrightarrow> put j (xs ! j) p (arr qs) = Some (arr (qs @ [p]))"
  obtains h1 h2 where "malloc (arr []) h = (hp_next h, h1)" "fill_array put name (hp_next h) 0 xs h1 = Some h2"
    "hp_next h2 = hp_next h + 1 + length xs" "hp_oom h2 = hp_oom h"
    "hp_blocks h2 = (hp_blocks h)(hp_next h \<mapsto> arr [hp_next h + 1..<hp_next h + 1 + length xs]) ++ strings_from (hp_next h + 1) (map name xs)"
proof -
  let ?l = "hp_next h"
  define h1 where "h1 = h\<lparr>hp_next := ?l + 1, hp_blocks := (hp_blocks h)(?l \<mapsto> arr [])\<rparr>"
  have m: "malloc (arr []) h = (?l, h1)" using assms(1) by (simp add: malloc_def Let_def heap_ok_def h1_def)
  have "\<exists>h2. fill_array put name ?l (length ([] :: addr list)) xs h1 = Some h2 \<and> hp_next h2 = hp_next h1 + length xs \<and> hp_oom h2 = hp_oom h1
     \<and> hp_blocks h2 = (hp_blocks h1)(?l \<mapsto> arr ([] @ [hp_next h1..<hp_next h1 + length xs])) ++ strings_from (hp_next h1) (map name xs)"
    using assms by (intro fill_array_ok [where arr = arr]) (simp_all add: h1_def heap_ok_def)
  then show ?thesis using m by (auto intro!: that simp: h1_def simp del: upt_Suc)
qed

lemma release_array:
  assumes "hp_blocks h = m ++ strings_from a ss" "m l = Some c" "l < a" "0 < a" "\<forall>p. a \<le> p \<longrightarrow> m p = None"
    and "\<And>j. j < length ss \<Longrightarrow> got j c = Some (a + j)"
  shows "free_array got l 0 (length ss) h = Some (h\<lparr>hp_blocks := m\<rparr>)"
proof -
  have l: "hp_blocks h l = Some c" using assms(1-3) by (simp add: map_add_def strings_from_None)
  have "free_array got l 0 (length [a..<a + length ss]) h = Some (h\<lparr>hp_blocks := hp_blocks h |` (- set [a..<a + length ss])\<rparr>)"
    by (rule free_array_ok [OF l]) (use assms in \<open>auto simp: strings_from_def\<close>)
  then show ?thesis using drop_strings [OF assms(5), of ss] by (simp add: assms(1))
qed

lemma list_services_memory:
  assumes "heap_ok h"
  obtains names l h' h'' where "fst (epx_list_services True True s err) = (EPX_OK, Some (names, length names), err)"
    "heap_list_services True True s err h = Some ((EPX_OK, Some (l, length names), err), snd (epx_list_services True True s err), h')"
    "read_list h' l (length names) = map Some names"
    "epx_string_list_free l (length names) h' = Some h''" "hp_blocks h'' = hp_blocks h"
proof -
  obtain ns s1 where ls: "list_services s = (ns, s1)" by fastforce
  let ?l = "hp_next h" and ?n = "length ns"
  obtain h1 h2 where m: "malloc (pointers_to ?n []) h = (?l, h1)" and f: "fill_array put_pointer id ?l 0 ns h1 = Some h2"
    and b: "hp_blocks h2 = (hp_blocks h)(?l \<mapsto> pointers_to ?n [?l + 1..<?l + 1 + ?n]) ++ strings_from (?l + 1) ns"
    by (rule alloc_array [where arr = "pointers_to ?n" and put = put_pointer and xs = ns and name = id, OF assms])
      (auto simp: put_pointers_to simp del: upt_Suc)
  have at_l: "hp_blocks h2 ?l = Some (pointers_to ?n [?l + 1..<?l + 1 + ?n])" by (simp add: b map_add_def strings_from_None del: upt_Suc)
  have rd: "read_list h2 ?l ?n = map Some (map to_c_string ns)"
  proof (rule nth_equalityI)
    show "read_list h2 ?l ?n ! i = map Some (map to_c_string ns) ! i" if "i < length (read_list h2 ?l ?n)" for i
      using that strings_from_at [of i ns "?l + 1"] by (simp add: read_list_def at_l read_chars_def del: upt_Suc) (simp add: b map_add_def)
  qed (simp add: read_list_def)
  have fa: "free_array got_pointer ?l 0 ?n h2 = Some (h2\<lparr>hp_blocks := (hp_blocks h)(?l \<mapsto> pointers_to ?n [?l + 1..<?l + 1 + ?n])\<rparr>)"
    by (rule release_array [OF b]) (use assms heap_fresh [OF assms] in \<open>auto simp: heap_ok_def simp del: upt_Suc\<close>)
  have "hp_blocks h ?l = None" "0 < ?l" using assms by (auto simp: heap_ok_def)
  then have fr: "epx_string_list_free ?l ?n h2 = Some (h2\<lparr>hp_blocks := hp_blocks h\<rparr>)"
    by (simp add: epx_string_list_free_def fa c_free_def fun_upd_idem)
  show ?thesis
    by (rule that [of "map to_c_string ns" ?l h2 "h2\<lparr>hp_blocks := hp_blocks h\<rparr>"])
      (use rd fr m f in \<open>simp_all add: epx_list_services_def heap_list_services_def ls arrays_start\<close>)
qed

lemma filled_heap_ok:
  assumes "heap_ok h"
  obtains h1 where "filled c h = Some (hp_next h, h1)" "heap_ok h1" "hp_next h1 = hp_next h + 1" "hp_oom h1 = hp_oom h" "hp_blocks h1 = (hp_blocks h)(hp_next h \<mapsto> c)"
proof -
  let ?h1 = "h\<lparr>hp_next := hp_next h + 1, hp_blocks := (hp_blocks h)(hp_next h \<mapsto> c)\<rparr>"
  have "p < Suc (hp_next h)" if "p \<in> dom (hp_blocks h)" for p using assms that by (auto simp: heap_ok_def intro: less_SucI)
  then have "heap_ok ?h1" using assms by (auto simp: heap_ok_def)
  moreover have "filled c h = Some (hp_next h, ?h1)" using assms by (intro filled_ok) (auto simp: heap_ok_def)
  ultimately show ?thesis by (intro that [of ?h1]) simp_all
qed

lemma map_add_outside: "s p = None \<Longrightarrow> (m ++ s)(p := x) = m(p := x) ++ s"
  by (rule ext) (auto simp: map_add_def split: option.splits)

lemma those_map_Some: "(\<And>x. x \<in> set xs \<Longrightarrow> f x = Some (g x)) \<Longrightarrow> those (map f xs) = Some (map g xs)"
  by (induction xs) auto

text \<open>A description in the heap: its own block at \<open>a\<close>, its two strings, the array of endpoints at \<open>e\<close> and above it the endpoints' names.\<close>

definition described :: "ServiceDescription \<Rightarrow> addr \<Rightarrow> addr \<Rightarrow> addr \<Rightarrow> addr \<Rightarrow> (addr \<rightharpoonup> cell) \<Rightarrow> bool" where
  "described sd a b c e m \<longleftrightarrow>
     m a = Some (Description \<lparr>hd_service_name = b, hd_description = c, hd_pid = sd_pid sd, hd_identity_pubkey = take 32 (sd_identity_pubkey sd),
       hd_endpoints = e, hd_endpoint_count = length (sd_endpoints sd)\<rparr>)
     \<and> m b = Some (Chars (to_c_string (sd_service_name sd))) \<and> m c = Some (Chars (to_c_string (sd_description sd)))
     \<and> m e = Some (endpoints_to (sd_endpoints sd) [e + 1..<e + 1 + length (sd_endpoints sd)])
     \<and> 0 < a \<and> a < b \<and> b < c \<and> c < e \<and> (\<forall>p > e. m p = None)"

lemma read_described:
  assumes h: "hp_blocks h = m ++ strings_from (e + 1) (map de_name (sd_endpoints sd))" and d: "described sd a b c e m"
  shows "read_description h a = Some \<lparr>csd_service_name = to_c_string (sd_service_name sd), csd_description = to_c_string (sd_description sd), csd_pid = sd_pid sd,
      csd_identity_pubkey = take 32 (sd_identity_pubkey sd), csd_endpoints = map c_endpoint (sd_endpoints sd), csd_endpoint_count = length (sd_endpoints sd)\<rparr>"
proof -
  let ?es = "sd_endpoints sd" and ?arr = "endpoints_to (sd_endpoints sd) [e + 1..<e + 1 + length (sd_endpoints sd)]"
  have low: "hp_blocks h p = m p" if "p \<le> e" for p using that by (simp add: h map_add_def strings_from_None)
  have "read_endpoint h ?arr i = Some (c_endpoint (?es ! i))" if "i < length ?es" for i
    using that strings_from_at [of i "map de_name ?es" "e + 1"] order_less_le_trans [OF that array_size_ge]
    by (simp add: read_endpoint_def endpoints_to_def nth_append read_chars_def c_endpoint_def h map_add_def del: upt_Suc)
  then have "those (map (read_endpoint h ?arr) [0..<length ?es]) = Some (map (\<lambda>i. c_endpoint (?es ! i)) [0..<length ?es])"
    by (intro those_map_Some) auto
  moreover have "map (\<lambda>i. c_endpoint (?es ! i)) [0..<length ?es] = map c_endpoint ?es" by (rule nth_equalityI) auto
  ultimately show ?thesis
    using d low [of a] low [of b] low [of c] low [of e] by (simp add: described_def read_description_def read_chars_def del: upt_Suc)
qed

lemma free_described:
  assumes h: "hp_blocks h = m ++ strings_from (e + 1) (map de_name (sd_endpoints sd))" and d: "described sd a b c e m"
  shows "epx_service_description_free a h = Some (h\<lparr>hp_blocks := m(b := None, c := None, e := None, a := None)\<rparr>)"
proof -
  let ?es = "sd_endpoints sd" and ?m2 = "m(b := None, c := None)"
  define S where "S = strings_from (e + 1) (map de_name ?es)"
  note h' = h [folded S_def]
  have low: "S p = None" if "p \<le> e" for p using that by (simp add: S_def strings_from_None)
  note dd = d [unfolded described_def]
  have 1: "c_free b h = Some (h\<lparr>hp_blocks := m(b := None) ++ S\<rparr>)" using dd low [of b] by (simp add: c_free_def h' map_add_outside)
  have 2: "c_free c (h\<lparr>hp_blocks := m(b := None) ++ S\<rparr>) = Some (h\<lparr>hp_blocks := ?m2 ++ S\<rparr>)" using dd low [of c] by (simp add: c_free_def map_add_outside)
  have "free_array got_endpoint e 0 (length (map de_name ?es)) (h\<lparr>hp_blocks := ?m2 ++ S\<rparr>) = Some ((h\<lparr>hp_blocks := ?m2 ++ S\<rparr>)\<lparr>hp_blocks := ?m2\<rparr>)"
    by (rule release_array [where a = "e + 1" and c = "endpoints_to ?es [e + 1..<e + 1 + length ?es]"]) (use dd in \<open>auto simp: S_def simp del: upt_Suc\<close>)
  then have 3: "free_array got_endpoint e 0 (length ?es) (h\<lparr>hp_blocks := ?m2 ++ S\<rparr>) = Some (h\<lparr>hp_blocks := ?m2\<rparr>)" by simp
  have 0: "hp_blocks h a = m a" using dd low [of a] by (simp add: h' map_add_def)
  show ?thesis
    using dd by (simp add: epx_service_description_free_def 0 1 2 3 del: upt_Suc) (simp add: c_free_def)
qed

lemma describe_memory:
  assumes "heap_ok h" "fst (epx_describe (Some sv) True s err) = (EPX_OK, Some d, err)"
  obtains out h' h'' where
    "heap_describe (Some sv) True s err h = Some ((EPX_OK, Some out, err), snd (epx_describe (Some sv) True s err), h')"
    "read_description h' out = Some d" "epx_service_description_free out h' = Some h''" "hp_blocks h'' = hp_blocks h"
proof -
  obtain sd s1 where ds: "describe (cstr sv) s = (Some sd, s1)"
    and d: "d = \<lparr>csd_service_name = to_c_string (sd_service_name sd), csd_description = to_c_string (sd_description sd), csd_pid = sd_pid sd,
      csd_identity_pubkey = take 32 (sd_identity_pubkey sd), csd_endpoints = map c_endpoint (sd_endpoints sd), csd_endpoint_count = length (sd_endpoints sd)\<rparr>"
    using assms(2) by (auto simp: epx_describe_def split: prod.splits option.splits)
  let ?es = "sd_endpoints sd" and ?a = "hp_next h"
  let ?nm = "Chars (to_c_string (sd_service_name sd))" and ?dc = "Chars (to_c_string (sd_description sd))"
  let ?D0 = "Description \<lparr>hd_service_name = 0, hd_description = 0, hd_pid = 0, hd_identity_pubkey = [], hd_endpoints = 0, hd_endpoint_count = 0\<rparr>"
  obtain h1 where 1: "filled ?D0 h = Some (?a, h1)" "heap_ok h1" "hp_next h1 = ?a + 1" "hp_blocks h1 = (hp_blocks h)(?a \<mapsto> ?D0)"
    by (rule filled_heap_ok [OF assms(1)])
  obtain h2 where 2: "filled ?nm h1 = Some (hp_next h1, h2)" "heap_ok h2" "hp_next h2 = hp_next h1 + 1" "hp_blocks h2 = (hp_blocks h1)(hp_next h1 \<mapsto> ?nm)"
    by (rule filled_heap_ok [OF 1(2)])
  obtain h3 where 3: "filled ?dc h2 = Some (hp_next h2, h3)" "heap_ok h3" "hp_next h3 = hp_next h2 + 1" "hp_blocks h3 = (hp_blocks h2)(hp_next h2 \<mapsto> ?dc)"
    by (rule filled_heap_ok [OF 2(2)])
  let ?e = "hp_next h3"
  let ?arr = "endpoints_to ?es [?e + 1..<?e + 1 + length ?es]"
  obtain h4 h5 where 4: "malloc (endpoints_to ?es []) h3 = (?e, h4)" "fill_array put_endpoint de_name ?e 0 ?es h4 = Some h5"
    and b5: "hp_blocks h5 = (hp_blocks h3)(?e \<mapsto> ?arr) ++ strings_from (?e + 1) (map de_name ?es)"
    by (rule alloc_array [where arr = "endpoints_to ?es" and put = put_endpoint and xs = ?es and name = de_name, OF 3(2)])
      (use put_endpoints_to in auto)
  let ?c = "\<lparr>hd_service_name = hp_next h1, hd_description = hp_next h2, hd_pid = sd_pid sd, hd_identity_pubkey = take 32 (sd_identity_pubkey sd),
      hd_endpoints = ?e, hd_endpoint_count = length ?es\<rparr>"
  define h6 where "h6 = h5\<lparr>hp_blocks := (hp_blocks h5)(?a \<mapsto> Description ?c)\<rparr>"
  have run: "heap_describe (Some sv) True s err h = Some ((EPX_OK, Some ?a, err), s1, h6)"
    using 1(1) 2(1) 3(1) 4 by (simp add: heap_describe_def ds heap_c_string_def arrays_start h6_def)
  let ?m = "(hp_blocks h)(?a \<mapsto> Description ?c, hp_next h1 \<mapsto> ?nm, hp_next h2 \<mapsto> ?dc, ?e \<mapsto> ?arr)"
  have b6: "hp_blocks h6 = ?m ++ strings_from (?e + 1) (map de_name ?es)"
  proof -
    have "((hp_blocks h3)(?e \<mapsto> ?arr))(?a \<mapsto> Description ?c) = ?m" using 1(3) 2(3) 3(3) by (auto simp: 1(4) 2(4) 3(4) fun_eq_iff)
    moreover have "strings_from (?e + 1) (map de_name ?es) ?a = None" using 1(3) 2(3) 3(3) by (intro strings_from_None) simp
    ultimately show ?thesis unfolding h6_def by (simp add: b5 map_add_outside del: upt_Suc)
  qed
  have dm: "described sd ?a (hp_next h1) (hp_next h2) ?e ?m"
    using 1(3) 2(3) 3(3) assms(1) heap_fresh [OF assms(1)] by (auto simp: described_def heap_ok_def simp del: upt_Suc)
  have rd: "read_description h6 ?a = Some d" using read_described [OF b6 dm] by (simp add: d)
  have "?m(hp_next h1 := None, hp_next h2 := None, ?e := None, ?a := None) = hp_blocks h"
    using 1(3) 2(3) 3(3) heap_fresh [OF assms(1)] by (auto simp: fun_eq_iff)
  then have fr: "epx_service_description_free ?a h6 = Some (h6\<lparr>hp_blocks := hp_blocks h\<rparr>)" using free_described [OF b6 dm] by simp
  show ?thesis
    by (rule that [of ?a h6 "h6\<lparr>hp_blocks := hp_blocks h\<rparr>"]) (use run rd fr ds in \<open>simp_all add: epx_describe_def\<close>)
qed

text \<open>When memory runs out, the conversions write through the NULL that \<open>malloc\<close> returned.\<close>

theorem failed_malloc_undefined:
  assumes "\<forall>p. hp_oom h p"
  shows "b \<noteq> [] \<Longrightarrow> heap_c_bytes b h = None" "heap_c_string x h = None"
    "fst (list_services s) \<noteq> [] \<Longrightarrow> heap_list_services True True s err h = None"
proof -
  show "b \<noteq> [] \<Longrightarrow> heap_c_bytes b h = None" "heap_c_string x h = None"
    using assms by (simp_all add: heap_c_bytes_def heap_c_string_def filled_def malloc_def Let_def)
  show "heap_list_services True True s err h = None" if "fst (list_services s) \<noteq> []"
    using that assms by (cases "fst (list_services s)")
      (auto simp: heap_list_services_def malloc_def Let_def heap_c_string_def filled_def split: prod.splits)
qed

text \<open>C21: the memory of the C interface is balanced. If allocations succeed, what the caller reads behind the pointers that
  \<open>epx_list_services\<close>, \<open>epx_describe\<close> and the conversion of bytes hand out is the result of the call, nothing uninitialised is read, and the
  matching release function frees every block of it exactly once and nothing else: the heap is what it was before the call.\<close>

theorem c_memory_balanced:
  assumes "heap_ok h"
  shows "(\<exists>names l h' h''. fst (epx_list_services True True s err) = (EPX_OK, Some (names, length names), err)
      \<and> heap_list_services True True s err h = Some ((EPX_OK, Some (l, length names), err), snd (epx_list_services True True s err), h')
      \<and> read_list h' l (length names) = map Some names \<and> epx_string_list_free l (length names) h' = Some h'' \<and> hp_blocks h'' = hp_blocks h)
    \<and> (\<forall>d. fst (epx_describe (Some sv) True s err) = (EPX_OK, Some d, err) \<longrightarrow>
        (\<exists>out h' h''. heap_describe (Some sv) True s err h = Some ((EPX_OK, Some out, err), snd (epx_describe (Some sv) True s err), h')
          \<and> read_description h' out = Some d \<and> epx_service_description_free out h' = Some h'' \<and> hp_blocks h'' = hp_blocks h))
    \<and> (\<exists>p h' h''. heap_c_bytes b h = Some ((p, length b), h') \<and> (b \<noteq> [] \<longrightarrow> hp_blocks h' p = Some (Data b))
          \<and> epx_bytes_free (p, length b) h' = Some h'' \<and> hp_blocks h'' = hp_blocks h)"
proof (intro conjI allI impI)
  show "\<exists>names l h' h''. fst (epx_list_services True True s err) = (EPX_OK, Some (names, length names), err)
      \<and> heap_list_services True True s err h = Some ((EPX_OK, Some (l, length names), err), snd (epx_list_services True True s err), h')
      \<and> read_list h' l (length names) = map Some names \<and> epx_string_list_free l (length names) h' = Some h'' \<and> hp_blocks h'' = hp_blocks h"
    by (rule list_services_memory [OF assms, of s err]) blast
  show "\<exists>out h' h''. heap_describe (Some sv) True s err h = Some ((EPX_OK, Some out, err), snd (epx_describe (Some sv) True s err), h')
      \<and> read_description h' out = Some d \<and> epx_service_description_free out h' = Some h'' \<and> hp_blocks h'' = hp_blocks h"
    if "fst (epx_describe (Some sv) True s err) = (EPX_OK, Some d, err)" for d
    by (rule describe_memory [OF assms that]) blast
  show "\<exists>p h' h''. heap_c_bytes b h = Some ((p, length b), h') \<and> (b \<noteq> [] \<longrightarrow> hp_blocks h' p = Some (Data b))
      \<and> epx_bytes_free (p, length b) h' = Some h'' \<and> hp_blocks h'' = hp_blocks h"
  proof (cases "b = []")
    case False
    obtain h1 where "filled (Data b) h = Some (hp_next h, h1)" "hp_blocks h1 = (hp_blocks h)(hp_next h \<mapsto> Data b)"
      by (rule filled_heap_ok [OF assms])
    with False heap_fresh [OF assms, of "hp_next h"] assms show ?thesis
      by (auto simp: heap_c_bytes_def epx_bytes_free_def c_free_def heap_ok_def fun_upd_idem)
  qed (simp add: heap_c_bytes_def epx_bytes_free_def c_free_def)
qed

definition empty_heap :: heap where
  "empty_heap = \<lparr>hp_blocks = Map.empty, hp_next = 1, hp_oom = (\<lambda>_. False)\<rparr>"

theorem c_memory_balanced_witness:
  "\<exists>out h' h''. heap_describe (Some ''notes'') True (snd (publish demo_entry demo_os)) [] empty_heap
       = Some ((EPX_OK, Some out, []), snd (epx_describe (Some ''notes'') True (snd (publish demo_entry demo_os)) []), h')
     \<and> epx_service_description_free out h' = Some h'' \<and> hp_blocks h'' = Map.empty"
proof -
  have "heap_ok empty_heap" by (simp add: heap_ok_def empty_heap_def)
  note balanced = c_memory_balanced [OF this, of "snd (publish demo_entry demo_os)" "[]" "''notes''" "[]"]
  have c: "cstr ''notes'' = ''notes''" by (simp add: cstr_def)
  have "fst (describe ''notes'' (snd (publish demo_entry demo_os))) \<noteq> None"
    using describe_published [OF demo_registry_ready demo_entry_ok(2,1,3), of "[(''read'', KReceive), (''feed'', KTopic)]"]
    by (simp add: demo_entry_def kind_to_string_def)
  then obtain sd s1 where "describe ''notes'' (snd (publish demo_entry demo_os)) = (Some sd, s1)" by (metis option.exhaust prod.collapse)
  then obtain d where "fst (epx_describe (Some ''notes'') True (snd (publish demo_entry demo_os)) []) = (EPX_OK, Some d, [])"
    by (simp add: epx_describe_def c)
  with balanced show ?thesis by (auto simp: empty_heap_def)
qed

end
