(* ===== verification/Epx_Win.thy ===== *)
theory Epx_Win
  imports Epx_Files Epx_Transport
begin

text \<open>
  The Windows side: named pipes (\<^verbatim>\<open>src/transport_win.cpp\<close>) and directories (\<^verbatim>\<open>src/paths_win.cpp\<close>). What the
  calls of the Win32 interface return is a parameter, as for the POSIX calls: a script entry of \<open>WriteFile\<close> and
  \<open>ReadFile\<close> is \<open>None\<close> for a call that returns FALSE and otherwise the number of bytes it moves, at most what was
  asked; an exhausted script moves as much as possible. \<open>None\<close> as a handle is \<open>INVALID_HANDLE_VALUE\<close>.
\<close>

section \<open>Named pipes\<close>

record WinTransport =
  wt_handle :: "nat option"
  p_in :: bytes
  p_out :: bytes
  write_script :: "nat option list"
  read_script :: "nat option list"

definition dword :: "nat \<Rightarrow> nat" where "dword n = n mod 2 ^ 32"

text \<open>\<open>WriteFile\<close> and \<open>ReadFile\<close>: whether the call succeeded, how many bytes it moved, and for a read the bytes.\<close>

definition write_file :: "WinTransport \<Rightarrow> bytes \<Rightarrow> nat \<Rightarrow> bool \<times> nat \<times> WinTransport" where
  "write_file t d len =
     (if wt_handle t = None then (False, 0, t)
      else let t1 = t\<lparr>write_script := tl (write_script t)\<rparr> in
           case write_script t of
             None # _ \<Rightarrow> (False, 0, t1)
           | Some r # _ \<Rightarrow> (let n = min r len in (True, n, t1\<lparr>p_out := p_out t @ take n d\<rparr>))
           | [] \<Rightarrow> (True, len, t1\<lparr>p_out := p_out t @ take len d\<rparr>))"

definition read_file_n :: "WinTransport \<Rightarrow> nat \<Rightarrow> bool \<times> nat \<times> bytes \<times> WinTransport" where
  "read_file_n t len =
     (if wt_handle t = None then (False, 0, [], t)
      else let t1 = t\<lparr>read_script := tl (read_script t)\<rparr>; most = min len (length (p_in t)) in
           case read_script t of
             None # _ \<Rightarrow> (False, 0, [], t1)
           | Some r # _ \<Rightarrow> (let n = min r most in (True, n, take n (p_in t), t1\<lparr>p_in := drop n (p_in t)\<rparr>))
           | [] \<Rightarrow> (True, most, take most (p_in t), t1\<lparr>p_in := drop most (p_in t)\<rparr>))"

lemma write_file_spec:
  "write_file t d len = (ok, n, t') \<Longrightarrow> n \<le> len \<and> (\<not> ok \<longrightarrow> n = 0) \<and> p_in t' = p_in t \<and> p_out t' = p_out t @ take n d"
  by (auto simp: write_file_def Let_def split: if_splits list.splits option.splits)

lemma read_file_n_spec:
  "read_file_n t len = (ok, n, b, t') \<Longrightarrow> n \<le> len \<and> (\<not> ok \<longrightarrow> n = 0) \<and> length b = n \<and> p_in t = b @ p_in t' \<and> p_out t' = p_out t"
  by (auto simp: read_file_n_def Let_def split: if_splits list.splits option.splits)

text \<open>Both loops convert the number of remaining bytes to a 32-bit \<open>DWORD\<close>.\<close>

function win_send_loop :: "WinTransport \<Rightarrow> bytes \<Rightarrow> nat \<Rightarrow> bool \<times> WinTransport" where
  "win_send_loop t data sent =
     (if sent < length data
      then let (ok, n, t') = write_file t (drop sent data) (dword (length data - sent))
           in if \<not> ok \<or> n = 0 then (False, t') else win_send_loop t' data (sent + n)
      else (True, t))"
  by pat_completeness auto
termination
  by (relation "measure (\<lambda>(t, data, sent). length data - sent)") auto

definition win_send_all :: "WinTransport \<Rightarrow> bytes \<Rightarrow> bool \<times> WinTransport" where
  "win_send_all t data = win_send_loop t data 0"

function win_recv_loop :: "WinTransport \<Rightarrow> nat \<Rightarrow> nat \<Rightarrow> bytes \<Rightarrow> bool \<times> bytes \<times> WinTransport" where
  "win_recv_loop t len got data =
     (if got < len
      then let (ok, n, b, t') = read_file_n t (dword (len - got))
           in if \<not> ok \<or> n = 0 then (False, data, t') else win_recv_loop t' len (got + n) (data @ b)
      else (True, data, t))"
  by pat_completeness auto
termination
  by (relation "measure (\<lambda>(t, len, got, data). len - got)") auto

definition win_recv_all :: "WinTransport \<Rightarrow> nat \<Rightarrow> bool \<times> bytes \<times> WinTransport" where
  "win_recv_all t len = win_recv_loop t len 0 []"

declare win_send_loop.simps [simp del] win_recv_loop.simps [simp del]

definition win_close :: "WinTransport \<Rightarrow> WinTransport" where
  "win_close t = (if wt_handle t \<noteq> None then t\<lparr>wt_handle := None\<rparr> else t)"

definition win_peer_uid :: "WinTransport \<Rightarrow> int" where
  "win_peer_uid t = -1"

text \<open>The timeouts are not overridden: the base class refuses them.\<close>

definition base_set_recv_timeout :: "'t \<Rightarrow> int \<Rightarrow> bool \<times> 't" where
  "base_set_recv_timeout t ms = (False, t)"

definition base_set_send_timeout :: "'t \<Rightarrow> int \<Rightarrow> bool \<times> 't" where
  "base_set_send_timeout t ms = (False, t)"

text \<open>The pipe is a byte stream in the sense of \<open>Transport\<close>, for blocks of any length.\<close>

lemma dword_le: "dword n \<le> n"
  by (simp add: dword_def)

definition write_some :: "WinTransport \<Rightarrow> bytes \<Rightarrow> int \<times> WinTransport" where
  "write_some t d = (case write_file t d (dword (length d)) of (ok, n, t') \<Rightarrow> (int n, t'))"

definition read_some :: "WinTransport \<Rightarrow> nat \<Rightarrow> int \<times> bytes \<times> WinTransport" where
  "read_some t len = (case read_file_n t (dword len) of (ok, n, b, t') \<Rightarrow> (int n, b, t'))"

interpretation pipe_loops: transfer_loops write_some read_some win_send_loop win_recv_loop p_out p_in
proof unfold_locales
  fix t t' :: WinTransport and d data b :: bytes and n :: int and len sent got :: nat
  show "n \<le> int (length d) \<and> p_in t' = p_in t \<and> p_out t' = p_out t @ take (nat n) d" if "write_some t d = (n, t')"
    using that dword_le [of "length d"] by (auto simp: write_some_def split: prod.splits dest!: write_file_spec)
  show "n \<le> int len \<and> length b = nat n \<and> p_in t = b @ p_in t' \<and> p_out t' = p_out t" if "read_some t len = (n, b, t')"
    using that dword_le [of len] by (auto simp: read_some_def split: prod.splits dest!: read_file_n_spec)
  obtain ok m t1 where w: "write_file t (drop sent data) (dword (length data - sent)) = (ok, m, t1)" by (metis prod_cases3)
  show "win_send_loop t data sent = (if sent < length data
      then let (n, t') = write_some t (drop sent data) in if n \<le> 0 then (False, t') else win_send_loop t' data (sent + nat n)
      else (True, t))"
    using write_file_spec [OF w] by (subst win_send_loop.simps) (auto simp: write_some_def w)
  obtain ok' m' b' t1' where r: "read_file_n t (dword (len - got)) = (ok', m', b', t1')" by (metis prod_cases4)
  show "win_recv_loop t len got data = (if got < len
      then let (n, b, t') = read_some t (len - got) in if n \<le> 0 then (False, data, t') else win_recv_loop t' len (got + nat n) (data @ b)
      else (True, data, t))"
    using read_file_n_spec [OF r] by (subst win_recv_loop.simps) (auto simp: read_some_def r)
qed

interpretation pipe: byte_stream win_send_all win_recv_all p_out p_in
  using pipe_loops.byte_stream_axioms unfolding win_send_all_def [abs_def] win_recv_all_def [abs_def] .

section \<open>Pipes and sockets\<close>

text \<open>The same pending bytes and the same results of the calls, seen as a socket.\<close>

definition as_socket :: "WinTransport \<Rightarrow> PosixTransport" where
  "as_socket t = \<lparr>pt_fd = (case wt_handle t of None \<Rightarrow> -1 | Some h \<Rightarrow> int h), pt_peer_uid = -1, k_in = p_in t, k_out = p_out t,
     send_script = map (\<lambda>r. case r of None \<Rightarrow> -1 | Some n \<Rightarrow> int n) (write_script t),
     recv_script = map (\<lambda>r. case r of None \<Rightarrow> -1 | Some n \<Rightarrow> int n) (read_script t), rcvtimeo = (0, 0), sndtimeo = (0, 0)\<rparr>"

lemma write_some_socket:
  "length d < 2 ^ 32 \<Longrightarrow> write_some t d = (n, t') \<Longrightarrow> \<exists>m. sys_send (as_socket t) d = (m, as_socket t') \<and> nat m = nat n \<and> (m \<le> 0 \<longleftrightarrow> n \<le> 0)"
  by (auto simp: write_some_def write_file_def sys_send_def as_socket_def dword_def Let_def min_def
      split: prod.splits if_splits list.splits option.splits)

lemma read_some_socket:
  "len < 2 ^ 32 \<Longrightarrow> read_some t len = (n, b, t') \<Longrightarrow> \<exists>m. sys_recv (as_socket t) len = (m, b, as_socket t') \<and> nat m = nat n \<and> (m \<le> 0 \<longleftrightarrow> n \<le> 0)"
  by (auto simp: read_some_def read_file_n_def sys_recv_def as_socket_def dword_def Let_def min_def
      split: prod.splits if_splits list.splits option.splits)

lemma send_loop_socket:
  assumes "length data < 2 ^ 32" "win_send_loop t data sent = (ok, t')"
  shows "send_loop (as_socket t) data sent = (ok, as_socket t')"
  using assms(2)
proof (induction "length data - sent" arbitrary: t sent rule: less_induct)
  case less
  show ?case
  proof (cases "sent < length data")
    case True
    obtain n t1 where w: "write_some t (drop sent data) = (n, t1)" by fastforce
    have "length (drop sent data) < 2 ^ 32" using assms(1) by simp
    from write_some_socket [OF this w] obtain m where
      m: "sys_send (as_socket t) (drop sent data) = (m, as_socket t1)" "nat m = nat n" "m \<le> 0 \<longleftrightarrow> n \<le> 0" by auto
    from less.prems True w less.hyps [of "sent + nat n" t1] show ?thesis
      by (auto simp: pipe_loops.send_body [of t] send_loop.simps [of "as_socket t"] m)
  qed (use less.prems in \<open>simp add: pipe_loops.send_body [of t] send_loop.simps\<close>)
qed

lemma recv_loop_socket:
  assumes "len < 2 ^ 32" "win_recv_loop t len got data = (ok, b, t')"
  shows "recv_loop (as_socket t) len got data = (ok, b, as_socket t')"
  using assms(2)
proof (induction "len - got" arbitrary: t got data rule: less_induct)
  case less
  show ?case
  proof (cases "got < len")
    case True
    obtain n c t1 where r: "read_some t (len - got) = (n, c, t1)" by (metis prod_cases3)
    have "len - got < 2 ^ 32" using assms(1) by simp
    from read_some_socket [OF this r] obtain m where
      m: "sys_recv (as_socket t) (len - got) = (m, c, as_socket t1)" "nat m = nat n" "m \<le> 0 \<longleftrightarrow> n \<le> 0" by auto
    from less.prems True r less.hyps [of "got + nat n" t1 "data @ c"] show ?thesis
      by (auto simp: pipe_loops.recv_body [of t] recv_loop.simps [of "as_socket t"] m)
  qed (use less.prems in \<open>simp add: pipe_loops.recv_body [of t] recv_loop.simps\<close>)
qed


definition demo_pipe :: WinTransport where
  "demo_pipe = \<lparr>wt_handle = Some 7, p_in = [1, 2, 3, 4], p_out = [], write_script = [Some 2], read_script = [Some 1, None]\<rparr>"


text \<open>A block whose length is a multiple of 4 GiB cannot be sent, although the pipe is sound.\<close>

lemma large_block_fails:
  assumes "d \<noteq> []" "2 ^ 32 dvd length d"
  shows "fst (win_send_all t d) = False"
proof -
  have "dword (length d) = 0" using assms(2) by (simp add: dword_def)
  with assms(1) write_file_spec [of t d 0] show ?thesis
    by (auto simp: win_send_all_def win_send_loop.simps split: prod.splits)
qed

section \<open>Listening and connecting\<close>

text \<open>
  One attempt of \<open>WinListener::accept\<close>: the pipe instance \<open>CreateNamedPipeA\<close> makes (\<open>None\<close>: it fails), whether a client is connected
  to it when \<open>ConnectNamedPipe\<close> returns, and whether another thread has closed the listener by then. With no attempt left,
  \<open>ConnectNamedPipe\<close> has not returned: the result is \<open>None\<close>.
\<close>

record pipe_attempt =
  pa_instance :: "WinTransport option"
  pa_connected :: bool
  pa_closed :: bool

record WinListener =
  wl_pipe_name :: string
  wl_closed :: bool

definition win_listener_close :: "WinListener \<Rightarrow> WinListener" where
  "win_listener_close l = l\<lparr>wl_closed := True\<rparr>"

fun win_accept :: "pipe_attempt list \<Rightarrow> WinListener \<Rightarrow> WinTransport option option \<times> WinListener" where
  "win_accept [] l = (if wl_closed l then (Some None, l) else (None, l))"
| "win_accept (a # as) l =
     (if wl_closed l then (Some None, l)
      else case pa_instance a of
        None \<Rightarrow> (Some None, l)
      | Some t \<Rightarrow>
          if pa_connected a then (Some (Some t), l)
          else let l1 = (if pa_closed a then win_listener_close l else l)
               in if wl_closed l1 then (Some None, l1) else win_accept as l1)"

definition win_default_address_for_service :: "string \<Rightarrow> string" where
  "win_default_address_for_service service_name = [CHR 0x5C, CHR 0x5C, CHR ''.'', CHR 0x5C] @ ''pipe'' @ [CHR 0x5C] @ ''epx-'' @ service_name"

definition win_listen :: "string \<Rightarrow> WinListener" where
  "win_listen address = \<lparr>wl_pipe_name = address, wl_closed = False\<rparr>"

text \<open>An attempt of \<open>connect\<close>: the pipe is opened, all its instances are busy and waiting for one succeeds or not, or another error.\<close>

datatype open_result = Opened WinTransport | Busy bool | OpenFails

fun win_connect_loop :: "nat \<Rightarrow> (nat \<Rightarrow> open_result) \<Rightarrow> nat \<Rightarrow> WinTransport option" where
  "win_connect_loop 0 env attempt = None"
| "win_connect_loop (Suc k) env attempt =
     (case env attempt of
        Opened t \<Rightarrow> Some t
      | OpenFails \<Rightarrow> None
      | Busy waited \<Rightarrow> if \<not> waited then None else win_connect_loop k env (attempt + 1))"

definition win_connect :: "(nat \<Rightarrow> open_result) \<Rightarrow> WinTransport option" where
  "win_connect env = win_connect_loop 50 env 0"

text \<open>A connection is made exactly when one of the 50 attempts opens the pipe and all before it found it busy.\<close>

lemma win_connect_loop_iff:
  "win_connect_loop k env a = Some t \<longleftrightarrow> (\<exists>n. a \<le> n \<and> n < a + k \<and> env n = Opened t \<and> (\<forall>j. a \<le> j \<and> j < n \<longrightarrow> env j = Busy True))"
proof (induction k arbitrary: a)
  case (Suc k)
  have split: "(\<exists>n. a \<le> n \<and> P n) \<longleftrightarrow> P a \<or> (\<exists>n. Suc a \<le> n \<and> P n)" for P
    by (metis le_eq_less_or_eq Suc_le_eq)
  have fall: "(\<forall>j. a \<le> j \<and> j < n \<longrightarrow> env j = Busy True) \<longleftrightarrow> env a = Busy True \<and> (\<forall>j. Suc a \<le> j \<and> j < n \<longrightarrow> env j = Busy True)" if "Suc a \<le> n" for n
    using that by (metis le_eq_less_or_eq Suc_le_eq)
  show ?case
    unfolding split [where P = "\<lambda>n. n < a + Suc k \<and> env n = Opened t \<and> (\<forall>j. a \<le> j \<and> j < n \<longrightarrow> env j = Busy True)"]
    using Suc.IH [of "Suc a"] fall by (auto split: open_result.splits)
qed auto

theorem win_connect_iff: "win_connect env = Some t \<longleftrightarrow> (\<exists>n<50. env n = Opened t \<and> (\<forall>j<n. env j = Busy True))"
  by (auto simp: win_connect_def win_connect_loop_iff)

section \<open>Directories\<close>

text \<open>
  The directories that exist, as lists of components; both \<^verbatim>\<open>\\<close> and \<^verbatim>\<open>/\<close> separate components, and names are compared as they are
  written. \<open>CreateDirectoryA\<close> makes one directory, in a parent that exists. \<open>wo_appdata\<close> is what \<open>SHGetFolderPathA\<close> yields.
\<close>

record win_os =
  wo_dirs :: "path list"
  wo_deny :: "path \<Rightarrow> bool"
  wo_appdata :: "string option"

definition backslash :: char where "backslash = CHR 0x5C"

definition win_components :: "string \<Rightarrow> path" where
  "win_components p = split (map (\<lambda>c. if c = backslash then slash else c) p) slash"

definition create_directory :: "string \<Rightarrow> win_os \<Rightarrow> win_os" where
  "create_directory p w = (let q = win_components p in
     if q \<in> set (wo_dirs w) \<or> butlast q \<notin> set (wo_dirs w) \<or> wo_deny w q then w else w\<lparr>wo_dirs := q # wo_dirs w\<rparr>)"

definition local_appdata :: "win_os \<Rightarrow> string ex" where
  "local_appdata w = (case wo_appdata w of
       None \<Rightarrow> Throw (RuntimeError ''SHGetFolderPathA(CSIDL_LOCAL_APPDATA) failed'') | Some p \<Rightarrow> Ret p)"

function win_mkdir_loop :: "string \<Rightarrow> nat \<Rightarrow> win_os \<Rightarrow> win_os" where
  "win_mkdir_loop path pos w =
     (if pos < length path then
        (let nxt = find_from backslash path (pos + 1);
             cur = (case nxt of None \<Rightarrow> path | Some n \<Rightarrow> take n path);
             w1 = (if cur \<noteq> [] then create_directory cur w else w)
         in case nxt of None \<Rightarrow> w1 | Some n \<Rightarrow> win_mkdir_loop path (n + 1) w1)
      else w)"
  by pat_completeness auto
termination
  by (relation "measure (\<lambda>(path, pos, w). length path - pos)") (auto dest!: find_from_ge')

declare win_mkdir_loop.simps [simp del]

definition win_ensure_private_dir :: "string \<Rightarrow> win_os \<Rightarrow> win_os" where
  "win_ensure_private_dir path w = win_mkdir_loop path (if length path > 2 \<and> path ! 1 = CHR '':'' then 2 else 0) w"

definition win_runtime_dir :: "win_os \<Rightarrow> string ex" where
  "win_runtime_dir w = ex_bind (local_appdata w) (\<lambda>p. Ret (p @ [backslash] @ ''epx'' @ [backslash] @ ''run''))"

definition win_config_dir :: "win_os \<Rightarrow> string ex" where
  "win_config_dir w = ex_bind (local_appdata w) (\<lambda>p. Ret (p @ [backslash] @ ''epx'' @ [backslash] @ ''config''))"

text \<open>The directories the loop asks for, and what it keeps whatever they are.\<close>

definition asked :: "string \<Rightarrow> string \<Rightarrow> bool" where
  "asked path cur \<longleftrightarrow> cur = path \<or> (\<exists>rest. path = cur @ backslash # rest)"

lemma win_mkdir_loop_turn:
  assumes "pos < length path" "cur = (case find_from backslash path (pos + 1) of None \<Rightarrow> path | Some n \<Rightarrow> take n path)" "cur \<noteq> []"
  shows "win_mkdir_loop path pos w = (case find_from backslash path (pos + 1) of None \<Rightarrow> create_directory cur w
     | Some n \<Rightarrow> win_mkdir_loop path (n + 1) (create_directory cur w))"
  unfolding win_mkdir_loop.simps [of path pos w] if_P [OF assms(1)] Let_def assms(2) [symmetric] if_P [OF assms(3)] by (rule refl)

lemma win_mkdir_loop_keeps:
  assumes "P w" and "\<And>cur w. asked path cur \<Longrightarrow> P w \<Longrightarrow> P (create_directory cur w)"
  shows "P (win_mkdir_loop path pos w)"
  using assms
proof (induction path pos w rule: win_mkdir_loop.induct)
  case (1 path pos w)
  define cur where "cur = (case find_from backslash path (pos + 1) of None \<Rightarrow> path | Some n \<Rightarrow> take n path)"
  show ?case
  proof (cases "pos < length path")
    case True
    with next_segment [OF True cur_def] have a: "asked path cur" "cur \<noteq> []" by (auto simp: asked_def)
    then have P: "P (create_directory cur w)" using 1 by blast
    from 1(1) [OF True refl cur_def refl] P 1(3) a(2) show ?thesis
      unfolding win_mkdir_loop_turn [OF True cur_def a(2)] by (auto split: option.splits)
  qed (use 1 in \<open>simp add: win_mkdir_loop.simps\<close>)
qed

lemma win_components_append: "win_components (a @ backslash # b) = win_components a @ win_components b"
  by (simp add: win_components_def split_append_sep)

lemma win_components_slash: "win_components (a @ slash # b) = win_components a @ win_components b"
  by (simp add: win_components_def split_append_sep slash_def backslash_def)

lemma win_components_one: "backslash \<notin> set c \<Longrightarrow> slash \<notin> set c \<Longrightarrow> c \<noteq> [] \<Longrightarrow> win_components c = [c]"
proof -
  assume c: "backslash \<notin> set c" "slash \<notin> set c" "c \<noteq> []"
  then have "map (\<lambda>c. if c = backslash then slash else c) c = c" by (induction c) auto
  with c show ?thesis by (simp add: win_components_def split_no_sep)
qed

lemma create_directory_made:
  assumes "win_components cur = q @ e" "length e \<le> 1" "q \<in> set (wo_dirs w)" "\<forall>p. \<not> wo_deny w p"
  shows "win_components cur \<in> set (wo_dirs (create_directory cur w))"
  using assms by (cases e) (auto simp: create_directory_def Let_def)

lemma create_directory_deny [simp]: "wo_deny (create_directory cur w) = wo_deny w"
  by (simp add: create_directory_def Let_def)

text \<open>\<open>pos\<close> is at a separator or behind one.\<close>

lemma segment_components:
  assumes "pos < length path" "slash \<notin> set path" "path ! pos = backslash \<or> 0 < pos \<and> path ! (pos - 1) = backslash"
    and "cur = take pos path @ path ! pos # r" "backslash \<notin> set r" "asked path cur"
  shows "\<exists>e. win_components cur = win_components (take pos path) @ e \<and> length e \<le> 1"
proof -
  have one: "length (win_components x) \<le> 1" if "backslash \<notin> set x" "slash \<notin> set x" for x
    using that win_components_one [of x] by (cases "x = []") (simp_all add: win_components_def)
  have "slash \<notin> set cur" using assms(2,6) by (auto simp: asked_def)
  then have r: "slash \<notin> set r" "slash \<noteq> path ! pos" using assms(4) by auto
  show ?thesis
  proof (cases "path ! pos = backslash")
    case True
    then show ?thesis using one [OF assms(5) r(1)] by (simp add: assms(4) win_components_append)
  next
    case False
    with assms(3) have "take pos path = take (pos - 1) path @ [backslash]"
      using assms(1) by (metis Suc_pred' less_imp_diff_less take_Suc_conv_app_nth)
    then show ?thesis
      using win_components_append [of "take (pos - 1) path" "path ! pos # r"] win_components_append [of "take (pos - 1) path" "[]"]
        one [of "path ! pos # r"] False r assms(5) by (simp add: assms(4) win_components_def)
  qed
qed

lemma win_mkdir_loop_makes:
  assumes "slash \<notin> set path" "pos \<le> length path" "pos < length path \<longrightarrow> path ! pos = backslash \<or> 0 < pos \<and> path ! (pos - 1) = backslash"
    and "win_components (take pos path) \<in> set (wo_dirs w)" "\<forall>p. \<not> wo_deny w p"
  shows "win_components path \<in> set (wo_dirs (win_mkdir_loop path pos w))"
  using assms
proof (induction path pos w rule: win_mkdir_loop.induct)
  case (1 path pos w)
  define cur where "cur = (case find_from backslash path (pos + 1) of None \<Rightarrow> path | Some n \<Rightarrow> take n path)"
  show ?case
  proof (cases "pos < length path")
    case True
    from next_segment [OF True cur_def] obtain r where r: "cur = take pos path @ path ! pos # r" "backslash \<notin> set r" and a: "asked path cur"
      unfolding asked_def by blast
    from segment_components [OF True 1(2) _ r a] 1(4) True obtain e where "win_components cur = win_components (take pos path) @ e" "length e \<le> 1" by blast
    from create_directory_made [OF this 1(5,6)] have made: "win_components cur \<in> set (wo_dirs (create_directory cur w))" .
    have ne: "cur \<noteq> []" using r by simp
    show ?thesis
    proof (cases "find_from backslash path (pos + 1)")
      case None
      with made show ?thesis unfolding win_mkdir_loop_turn [OF True cur_def ne] by (simp add: cur_def)
    next
      case (Some n)
      from find_from_Some [OF Some] have n: "n < length path" "path ! n = backslash" by auto
      then have tk: "take (n + 1) path = cur @ backslash # []" using Some by (simp add: cur_def take_Suc_conv_app_nth)
      then have "win_components (take (n + 1) path) = win_components cur" by (simp only: win_components_append) (simp add: win_components_def)
      with 1(1) [OF True refl cur_def refl, of n] Some n made ne 1(2,6) True show ?thesis
        unfolding win_mkdir_loop_turn [OF True cur_def ne] by simp
    qed
  qed (use 1 in \<open>simp add: win_mkdir_loop.simps\<close>)
qed

text \<open>On a path written with \<^verbatim>\<open>\\<close> only, under a drive that exists, every directory is there afterwards unless the system refuses one.\<close>

theorem win_directories_made:
  assumes "path = d # CHR '':'' # backslash # rest" "slash \<notin> set path" "d \<noteq> backslash" "[[d, CHR '':'']] \<in> set (wo_dirs w)" "\<forall>p. \<not> wo_deny w p"
  shows "win_components path \<in> set (wo_dirs (win_ensure_private_dir path w))"
proof -
  have "win_components [d, CHR '':''] = [[d, CHR '':'']]" using assms(1-3) by (intro win_components_one) (auto simp: backslash_def slash_def)
  with assms win_mkdir_loop_makes [of path 2 w] show ?thesis
    by (simp add: win_ensure_private_dir_def numeral_2_eq_2)
qed

text \<open>C38: on Windows the private directories are never made. The registry and the key store ask for directories under the runtime or
  configuration directory whose last separator is a \<^verbatim>\<open>/\<close>, but the loop only creates parents at a \<^verbatim>\<open>\\<close>: the directory above stays missing,
  so that the directory itself cannot be created either, and nothing reports it.\<close>

theorem win_private_dirs_missing:
  assumes base: "win_runtime_dir w = Ret base \<or> win_config_dir w = Ret base" and sub: "backslash \<notin> set sub" "slash \<notin> set sub" "sub \<noteq> []"
    and missing: "win_components base \<notin> set (wo_dirs w)" "win_components base @ [sub] \<notin> set (wo_dirs w)"
  shows "win_components base \<notin> set (wo_dirs (win_ensure_private_dir (base @ ''/'' @ sub) w))
    \<and> win_components (base @ ''/'' @ sub) \<notin> set (wo_dirs (win_ensure_private_dir (base @ ''/'' @ sub) w))"
proof -
  let ?path = "base @ ''/'' @ sub" and ?P = "\<lambda>w. win_components base \<notin> set (wo_dirs w) \<and> win_components base @ [sub] \<notin> set (wo_dirs w)"
  have path: "win_components ?path = win_components base @ [sub]"
    using win_components_slash [of base sub] win_components_one [OF sub] by (simp add: slash_def)
  obtain a x where x: "base = a @ backslash # x" "x \<noteq> []" "backslash \<notin> set x" "slash \<notin> set x"
  proof -
    assume *: "\<And>a x. base = a @ backslash # x \<Longrightarrow> x \<noteq> [] \<Longrightarrow> backslash \<notin> set x \<Longrightarrow> slash \<notin> set x \<Longrightarrow> thesis"
    from base obtain p where "base = (p @ [backslash] @ ''epx'') @ backslash # ''run'' \<or> base = (p @ [backslash] @ ''epx'') @ backslash # ''config''"
      by (auto simp: win_runtime_dir_def win_config_dir_def ex_bind_eq_Ret_iff)
    then show thesis by (elim disjE) (erule *; simp add: backslash_def slash_def)+
  qed
  have keep: "?P (create_directory cur w)" if "asked ?path cur" "?P w" for cur w
  proof -
    from that(1) have "cur = ?path \<or> (\<exists>rest. base = cur @ backslash # rest)"
      using sub(1) by (auto simp: asked_def append_eq_append_conv2 Cons_eq_append_conv append_eq_Cons_conv backslash_def)
    moreover have "win_components rest \<noteq> []" if "base = cur @ backslash # rest" for rest
    proof -
      from that x obtain u where "rest = x \<or> rest = u @ backslash # x"
        by (auto simp: append_eq_append_conv2 Cons_eq_append_conv append_eq_Cons_conv)
      then show ?thesis using win_components_one [OF x(3,4,2)] by (auto simp: win_components_append)
    qed
    ultimately have "win_components cur \<noteq> win_components base"
      by (metis path win_components_append append_self_conv not_Cons_self2)
    moreover have "butlast (win_components cur) = win_components base" if "win_components base @ [sub] = win_components cur"
      using that by (metis butlast_snoc)
    ultimately show ?thesis using that(2) by (auto simp: create_directory_def Let_def)
  qed
  show ?thesis
    using win_mkdir_loop_keeps [of ?P w ?path, OF _ keep] missing unfolding win_ensure_private_dir_def path by blast
qed

definition demo_win :: win_os where
  "demo_win = \<lparr>wo_dirs = [[''C:''], [''C:'', ''u'']], wo_deny = (\<lambda>_. False), wo_appdata = Some [CHR ''C'', CHR '':'', backslash, CHR ''u'']\<rparr>"

theorem win_private_dirs_missing_witness:
  "\<exists>base. win_runtime_dir demo_win = Ret base
     \<and> win_components (base @ ''/'' @ ''registry'') \<notin> set (wo_dirs (win_ensure_private_dir (base @ ''/'' @ ''registry'') demo_win))"
proof -
  let ?base = "[CHR ''C'', CHR '':'', backslash, CHR ''u'', backslash] @ ''epx'' @ [backslash] @ ''run''"
  have b: "win_runtime_dir demo_win = Ret ?base" by (simp add: win_runtime_dir_def local_appdata_def demo_win_def)
  have "win_components ?base \<notin> set (wo_dirs demo_win)" "win_components ?base @ [''registry''] \<notin> set (wo_dirs demo_win)" by code_simp+
  from win_private_dirs_missing [OF disjI1 [OF b] _ _ _ this] b show ?thesis by (auto simp: backslash_def slash_def)
qed

end
