(* ===== verification/Epx_Events.thy ===== *)
theory Epx_Events
  imports Epx_Types Epx_Wire
begin

text \<open>
  The messages of the chat programs: the events of the group chat (\<^verbatim>\<open>examples/groupchat_common.hpp\<close>), which travel over topics and in the
  answer of \<open>join\<close>, and the envelope of the two-party and the serverless chat (\<^verbatim>\<open>examples/chat.cpp\<close>, \<^verbatim>\<open>examples/polychat.cpp\<close>). Both
  decoders accept any bytes; they read through the checked reads of the prelude.
\<close>

section \<open>Events\<close>

text \<open>The enumeration has a fixed underlying type, so a decoded kind may be any byte.\<close>

type_synonym EventKind = u8

definition EventMessage :: EventKind where "EventMessage = 0"
definition EventPresent :: EventKind where "EventPresent = 1"
definition EventLeft :: EventKind where "EventLeft = 2"

record Event =
  ev_kind :: EventKind
  ev_name :: string
  ev_service :: string
  ev_text :: string

definition Event_init :: Event where
  "Event_init = \<lparr>ev_kind = EventMessage, ev_name = [], ev_service = [], ev_text = []\<rparr>"

definition event_put8 :: "bytes \<Rightarrow> string \<Rightarrow> bytes" where
  "event_put8 out s = (let len = word_of_nat (min (length s) 255) :: u8 in out @ [len] @ bytes_of_string (take (unat len) s))"

definition encode_event :: "Event \<Rightarrow> bytes" where
  "encode_event e =
     (let out = [ev_kind e];
          out = event_put8 out (ev_name e);
          out = event_put8 out (ev_service e);
          text_len = word_of_nat (min (length (ev_text e)) 65535) :: u16;
          out = out @ [ucast (drop_bit 8 text_len)];
          out = out @ [ucast (text_len AND 0xFF)]
      in out @ bytes_of_string (take (unat text_len) (ev_text e)))"

text \<open>\<open>out_s\<close> is what the string holds before; at the end of the buffer it stays.\<close>

definition event_get8 :: "bytes \<Rightarrow> nat \<Rightarrow> string \<Rightarrow> (string \<times> nat) cres" where
  "event_get8 b pos out_s =
     (if length b \<le> pos then Ok (out_s, pos)
      else rbind (rd_u8 b pos) (\<lambda>len.
        let pos = pos + 1;
            len = (if length b < pos + unat len then word_of_nat (length b - pos) else len)
        in rbind (rd_block b pos (unat len)) (\<lambda>s. Ok (string_of_bytes s, pos + unat len))))"

text \<open>\<open>(uint16_t(b[pos]) << 8) | uint16_t(b[pos + 1])\<close>\<close>

definition get_u16 :: "bytes \<Rightarrow> nat \<Rightarrow> u16 cres" where
  "get_u16 b pos = rbind (rd_u8 b pos) (\<lambda>h. rbind (rd_u8 b (pos + 1)) (\<lambda>l. Ok (push_bit 8 (ucast h) OR ucast l)))"

definition decode_event :: "bytes \<Rightarrow> Event cres" where
  "decode_event b =
     (if length b \<le> 0 then Ok Event_init
      else rbind (rd_u8 b 0) (\<lambda>k.
        rbind (event_get8 b 1 (ev_name Event_init)) (\<lambda>(name, pos).
        rbind (event_get8 b pos (ev_service Event_init)) (\<lambda>(service, pos).
        let e = Event_init\<lparr>ev_kind := k, ev_name := name, ev_service := service\<rparr>
        in if pos + 2 \<le> length b
           then rbind (get_u16 b pos) (\<lambda>text_len.
             let pos = pos + 2;
                 text_len = (if length b < pos + unat text_len then word_of_nat (length b - pos) else text_len)
             in rbind (rd_block b pos (unat text_len)) (\<lambda>t. Ok (e\<lparr>ev_text := string_of_bytes t\<rparr>)))
           else Ok e))))"

fun encode_event_list :: "Event list \<Rightarrow> bytes" where
  "encode_event_list [] = []"
| "encode_event_list (e # events) =
     (let one = encode_event e; size = word_of_nat (length one) :: u64
      in [ucast (drop_bit 8 size), ucast (size AND 0xFF)] @ one @ encode_event_list events)"

function decode_events_from :: "bytes \<Rightarrow> nat \<Rightarrow> Event list \<Rightarrow> Event list cres" where
  "decode_events_from b pos events =
     (if pos + 2 \<le> length b
      then (case get_u16 b pos of
              Ok len \<Rightarrow>
                if length b < pos + 2 + unat len then Ok events
                else rbind (rbind (rd_block b (pos + 2) (unat len)) decode_event) (\<lambda>e.
                       decode_events_from b (pos + 2 + unat len) (events @ [e]))
            | Fail \<Rightarrow> Fail
            | Oob \<Rightarrow> Oob)
      else Ok events)"
  by pat_completeness auto
termination by (relation "measure (\<lambda>(b, pos, _). length b - pos)") auto

declare decode_events_from.simps [simp del]

definition decode_event_list :: "bytes \<Rightarrow> Event list cres" where
  "decode_event_list b = decode_events_from b 0 []"

section \<open>Envelopes\<close>

definition encode_envelope :: "string \<Rightarrow> string \<Rightarrow> bytes" where
  "encode_envelope sender text =
     [ucast ((word_of_nat (length sender) :: u64) AND 0xFF)] @ bytes_of_string sender @ bytes_of_string text"

definition decode_envelope :: "bytes \<Rightarrow> (string \<times> string) cres" where
  "decode_envelope b =
     (if b = [] then Ok (''?'', [])
      else rbind (rd_u8 b 0) (\<lambda>len.
        if length b < 1 + unat len then Ok (''?'', string_of_bytes b)
        else rbind (rd_block b 1 (unat len)) (\<lambda>s.
             rbind (rd_block b (1 + unat len) (length b - (1 + unat len))) (\<lambda>t. Ok (string_of_bytes s, string_of_bytes t)))))"

section \<open>Round trips\<close>

lemma get_u16_at: "pos + 2 \<le> length b \<Longrightarrow> get_u16 b pos = Ok (push_bit 8 (ucast (b ! pos)) OR ucast (b ! (pos + 1)))"
  by (simp add: get_u16_def rd_u8_def)

lemma u16_bytes: "push_bit 8 (ucast (ucast (drop_bit 8 v) :: u8)) OR ucast (ucast (v AND 0xFF) :: u8) = (v :: u16)"
proof -
  have "(0xFF :: u16) = mask 8" by (simp add: mask_eq_exp_minus_1)
  then show ?thesis
    by (simp only: flip: take_bit_eq_mask) (rule bit_word_eqI, auto simp: bit_simps)
qed

lemma unat_min: "n < 2 ^ LENGTH('a) \<Longrightarrow> unat (word_of_nat (min k n) :: 'a::len word) = min k n"
  by (rule unat_word_of_nat_small) simp

text \<open>What an event is after it was encoded: the fields are cut to what their length prefixes can say.\<close>

definition clip :: "Event \<Rightarrow> Event" where
  "clip e = e\<lparr>ev_name := take 255 (ev_name e), ev_service := take 255 (ev_service e), ev_text := take 65535 (ev_text e)\<rparr>"

lemma take_min_length [simp]: "take (min (length s) n) s = take n s" "take (min n (length s)) s = take n s"
  by (simp_all add: min_def)

lemma take_min_drop [simp]: "take (min n (length b - k)) (drop k b) = take n (drop k b)"
  using take_min_length(2) [of n "drop k b"] by (simp del: take_min_length)

lemma event_put8_eq: "event_put8 out s = out @ word_of_nat (length (take 255 s)) # bytes_of_string (take 255 s)"
  by (simp add: event_put8_def unat_min min.commute)

lemma clipped_len:
  "pos \<le> n \<Longrightarrow> unat (if n < pos + unat len then word_of_nat (n - pos) else len :: 'a::len word) = min (unat len) (n - pos)"
proof (cases "n < pos + unat len")
  case True
  assume "pos \<le> n"
  with True have "n - pos < unat len" by simp
  then have "n - pos < 2 ^ LENGTH('a)" using unsigned_less [of len] by (rule less_trans)
  with True \<open>n - pos < unat len\<close> show ?thesis by (simp add: unat_word_of_nat_small del: of_nat_diff)
qed (simp add: min_def)

lemma event_get8_eq:
  "event_get8 b pos s = Ok (if length b \<le> pos then (s, pos)
     else let n = min (unat (b ! pos)) (length b - (pos + 1)) in (string_of_bytes (take n (drop (pos + 1) b)), pos + 1 + n))"
proof (cases "length b \<le> pos")
  case False
  define l where "l = (if length b < pos + 1 + unat (b ! pos) then word_of_nat (length b - (pos + 1)) else b ! pos)"
  have "unat l = min (unat (b ! pos)) (length b - (pos + 1))"
    unfolding l_def using False by (intro clipped_len) simp
  moreover have "event_get8 b pos s = rbind (rd_block b (pos + 1) (unat l)) (\<lambda>s. Ok (string_of_bytes s, pos + 1 + unat l))"
    using False unfolding event_get8_def rd_u8_Ok [OF not_le_imp_less [OF False]] rbind.simps Let_def l_def [symmetric] by (simp only: if_False)
  ultimately show ?thesis using False by (simp add: rd_block_Ok Let_def)
qed (simp add: event_get8_def)

text \<open>A decoder of events in closed form: every read is inside the buffer.\<close>

definition event_text :: "bytes \<Rightarrow> nat \<Rightarrow> string" where
  "event_text b pos = (if pos + 2 \<le> length b
     then string_of_bytes (take (unat (push_bit 8 (ucast (b ! pos)) OR ucast (b ! (pos + 1)) :: u16)) (drop (pos + 2) b)) else [])"

lemma decode_event_eq:
  "b \<noteq> [] \<Longrightarrow> event_get8 b 1 [] = Ok (n, p1) \<Longrightarrow> event_get8 b p1 [] = Ok (s, p2) \<Longrightarrow>
   decode_event b = Ok \<lparr>ev_kind = b ! 0, ev_name = n, ev_service = s, ev_text = event_text b p2\<rparr>"
proof -
  assume a: "b \<noteq> []" "event_get8 b 1 [] = Ok (n, p1)" "event_get8 b p1 [] = Ok (s, p2)"
  define t where "t = (push_bit 8 (ucast (b ! p2)) OR ucast (b ! (p2 + 1)) :: u16)"
  define l where "l = (if length b < p2 + 2 + unat t then word_of_nat (length b - (p2 + 2)) else t)"
  let ?e = "\<lparr>ev_kind = b ! 0, ev_name = n, ev_service = s, ev_text = []\<rparr>"
  have d: "decode_event b = (if p2 + 2 \<le> length b then rbind (rd_block b (p2 + 2) (unat l)) (\<lambda>x. Ok (?e\<lparr>ev_text := string_of_bytes x\<rparr>)) else Ok ?e)"
  proof (cases "p2 + 2 \<le> length b")
    case True
    then show ?thesis using a by (simp add: decode_event_def Event_init_def rd_u8_def Let_def get_u16_at t_def l_def)
  qed (use a in \<open>simp add: decode_event_def Event_init_def rd_u8_def Let_def\<close>)
  have "unat l = min (unat t) (length b - (p2 + 2))" if "p2 + 2 \<le> length b" unfolding l_def using that by (rule clipped_len)
  with d show ?thesis by (simp add: event_text_def rd_block_Ok t_def)
qed

lemma decode_event_total: "\<exists>e. decode_event b = Ok e"
proof (cases "b = []")
  case False
  obtain n p1 s p2 where "event_get8 b 1 [] = Ok (n, p1)" "event_get8 b p1 [] = Ok (s, p2)" by (metis event_get8_eq surj_pair)
  with False show ?thesis by (simp add: decode_event_eq)
qed (simp add: decode_event_def)

lemma get8_put8:
  "length x \<le> 255 \<Longrightarrow> event_get8 (pre @ word_of_nat (length x) # bytes_of_string x @ rest) (length pre) s = Ok (x, length pre + 1 + length x)"
  by (simp add: event_get8_eq nth_append unat_word_of_nat_small Let_def)

lemma event_text_put:
  assumes "length x \<le> 65535" "v = (word_of_nat (length x) :: u16)"
  shows "event_text (pre @ ucast (drop_bit 8 v) # ucast (v AND 0xFF) # bytes_of_string x) (length pre) = x"
  using assms(1) u16_bytes [of v] by (simp add: event_text_def nth_append assms(2) unat_word_of_nat_small)

lemma encode_event_eq:
  "encode_event e = ev_kind e # word_of_nat (length (ev_name (clip e))) # bytes_of_string (ev_name (clip e))
     @ word_of_nat (length (ev_service (clip e))) # bytes_of_string (ev_service (clip e))
     @ ucast (drop_bit 8 (word_of_nat (length (ev_text (clip e))) :: u16)) # ucast ((word_of_nat (length (ev_text (clip e))) :: u16) AND 0xFF)
     # bytes_of_string (ev_text (clip e))"
  by (simp add: encode_event_def event_put8_eq clip_def Let_def unat_min min.commute)

lemma event_roundtrip: "decode_event (encode_event e) = Ok (clip e)"
proof -
  define n s t where "n = ev_name (clip e)" and "s = ev_service (clip e)" and "t = ev_text (clip e)"
  have l: "length n \<le> 255" "length s \<le> 255" "length t \<le> 65535" by (simp_all add: n_def s_def t_def clip_def)
  let ?v = "word_of_nat (length t) :: u16"
  let ?tl = "ucast (drop_bit 8 ?v) # ucast (?v AND 0xFF) # bytes_of_string t"
  let ?sv = "word_of_nat (length s) # bytes_of_string s @ ?tl"
  have b: "encode_event e = [ev_kind e] @ word_of_nat (length n) # bytes_of_string n @ ?sv" by (simp add: encode_event_eq n_def s_def t_def)
  have 1: "event_get8 (encode_event e) 1 [] = Ok (n, 2 + length n)" unfolding b using get8_put8 [OF l(1), of "[ev_kind e]"] by simp
  have 2: "event_get8 (encode_event e) (2 + length n) [] = Ok (s, 3 + length n + length s)"
    unfolding b using get8_put8 [OF l(2), of "ev_kind e # word_of_nat (length n) # bytes_of_string n"] by (simp add: algebra_simps)
  have 3: "event_text (encode_event e) (3 + length n + length s) = t"
    unfolding b using event_text_put [OF l(3) refl, of "ev_kind e # word_of_nat (length n) # bytes_of_string n @ word_of_nat (length s) # bytes_of_string s"]
    by (simp add: eval_nat_numeral)
  show ?thesis using decode_event_eq [OF _ 1 2] 3 by (simp add: b n_def s_def t_def clip_def)
qed

lemma length_encode_event: "length (encode_event e) = 5 + length (ev_name (clip e)) + length (ev_service (clip e)) + length (ev_text (clip e))"
  by (simp add: encode_event_eq)

lemma get_u16_size:
  "n < 65536 \<Longrightarrow> get_u16 (pre @ ucast (drop_bit 8 (word_of_nat n :: u64)) # ucast ((word_of_nat n :: u64) AND 0xFF) # rest) (length pre) = Ok (word_of_nat n)"
proof -
  assume n: "n < 65536"
  have "(0xFF :: u64) = mask 8" by (simp add: mask_eq_exp_minus_1)
  then have "push_bit 8 (ucast (ucast (drop_bit 8 (word_of_nat n :: u64)) :: u8)) OR ucast (ucast ((word_of_nat n :: u64) AND 0xFF) :: u8) = (ucast (word_of_nat n :: u64) :: u16)"
    by (simp only: flip: take_bit_eq_mask) (rule bit_word_eqI, auto simp: bit_simps)
  also have "\<dots> = word_of_nat n" by (rule bit_word_eqI) (auto simp: bit_simps)
  finally show ?thesis by (simp add: get_u16_at nth_append)
qed

lemma decode_events_from_roundtrip:
  assumes "\<forall>e \<in> set es. length (encode_event e) < 65536"
  shows "decode_events_from (pre @ encode_event_list es) (length pre) acc = Ok (acc @ map clip es)"
  using assms
proof (induction es arbitrary: pre acc)
  case (Cons e es)
  let ?h = "[ucast (drop_bit 8 (word_of_nat (length (encode_event e)) :: u64)), ucast ((word_of_nat (length (encode_event e)) :: u64) AND 0xFF)]"
  let ?pre = "pre @ ?h @ encode_event e"
  have b: "pre @ encode_event_list (e # es) = ?pre @ encode_event_list es" by (simp add: Let_def)
  have g: "get_u16 (?pre @ encode_event_list es) (length pre) = Ok (word_of_nat (length (encode_event e)))"
    using get_u16_size [of "length (encode_event e)" pre] Cons.prems by simp
  have u: "unat (word_of_nat (length (encode_event e)) :: u16) = length (encode_event e)" using Cons.prems by (simp add: unat_word_of_nat_small)
  have r: "rd_block (?pre @ encode_event_list es) (length pre + 2) (length (encode_event e)) = Ok (encode_event e)"
    by (simp add: rd_block_def)
  have "decode_events_from (?pre @ encode_event_list es) (length pre) acc
      = decode_events_from (?pre @ encode_event_list es) (length ?pre) (acc @ [clip e])"
    by (subst decode_events_from.simps) (simp only: g u r event_roundtrip cres.case rbind.simps, simp)
  with Cons.IH [of ?pre "acc @ [clip e]"] Cons.prems show ?case unfolding b by simp
qed (simp add: decode_events_from.simps)

lemma event_list_roundtrip:
  "\<forall>e \<in> set es. length (encode_event e) < 65536 \<Longrightarrow> decode_event_list (encode_event_list es) = Ok (map clip es)"
  using decode_events_from_roundtrip [of es "[]" "[]"] by (simp add: decode_event_list_def)

lemma decode_events_from_total: "\<exists>es. decode_events_from b pos acc = Ok es"
proof (induction b pos acc rule: decode_events_from.induct)
  case (1 b pos events)
  show ?case
  proof (cases "pos + 2 \<le> length b")
    case True
    then obtain len where g: "get_u16 b pos = Ok len" by (simp add: get_u16_at)
    show ?thesis
    proof (cases "length b < pos + 2 + unat len")
      case False
      then obtain x e where "rd_block b (pos + 2) (unat len) = Ok x" "decode_event x = Ok e" using decode_event_total by (metis rd_block_Ok not_less)
      with True g False 1 show ?thesis by (subst decode_events_from.simps) simp
    qed (use True g in \<open>simp add: decode_events_from.simps\<close>)
  qed (simp add: decode_events_from.simps)
qed

lemma envelope_roundtrip: "length sender < 256 \<Longrightarrow> decode_envelope (encode_envelope sender text) = Ok (sender, text)"
  by (simp add: decode_envelope_def encode_envelope_def str8_len_byte rd_u8_def rd_block_def unat_len_u8)

lemma decode_envelope_total: "\<exists>p. decode_envelope b = Ok p"
  by (auto simp: decode_envelope_def rd_u8_def rd_block_def)

end
