(* ===== verification/Epx_GroupChat.thy ===== *)
theory Epx_GroupChat
  imports Epx_Events Epx_Text "HOL-Library.AList"
begin

text \<open>
  The group chat (\<^verbatim>\<open>examples/groupchat_room.cpp\<close>, \<^verbatim>\<open>examples/groupchat.cpp\<close>): a room process that only keeps the membership, and
  participants that learn from it whose feeds to subscribe to. The handlers of the room hold a lock while they change the membership and
  publish the change after it; a participant follows others from two threads, the one that reads the roster it got from \<open>join\<close> and
  the one that reads the room's events. An action of \<open>chat_act\<close> is one section under a lock of one process, or one message that
  is taken; \<open>chat_exec\<close> interleaves them in any order. The subscription to the events precedes the join on one connection, and a
  topic delivers in order (\<open>session_is_fifo_channel\<close>, \<open>publish_reaches_subscribers\<close>), so every participant has an inbox. Whether
  a subscription to a feed succeeds is an input.
\<close>

section \<open>The room\<close>

type_synonym members = "(string \<times> string) list"

definition present_event :: "string \<Rightarrow> string \<Rightarrow> Event" where
  "present_event name service = \<lparr>ev_kind = EventPresent, ev_name = name, ev_service = service, ev_text = []\<rparr>"

text \<open>The locked part of \<open>join\<close>: the snapshot, the new number of members, the new table.\<close>

definition join_locked :: "Event \<Rightarrow> members \<Rightarrow> Event list \<times> nat \<times> members" where
  "join_locked joiner members =
     (let snapshot = map (\<lambda>(svc, name). present_event name svc) members;
          members1 = AList.update (ev_service joiner) (ev_name joiner) members
      in (snapshot, length members1, members1))"

definition join_response :: "Event list \<Rightarrow> AppResponse" where
  "join_response snapshot = \<lparr>resp_ok = True, resp_payload = encode_event_list snapshot, resp_error = []\<rparr>"

text \<open>The locked part of \<open>leave\<close>; the name in the table replaces the one in the request.\<close>

definition leave_locked :: "Event \<Rightarrow> members \<Rightarrow> Event \<times> nat \<times> members" where
  "leave_locked leaver members =
     (let leaver1 = (case map_of members (ev_service leaver) of Some name \<Rightarrow> leaver\<lparr>ev_name := name\<rparr> | None \<Rightarrow> leaver);
          members1 = AList.delete (ev_service leaver) members
      in (leaver1, length members1, members1))"

definition room_line :: "string \<Rightarrow> string \<Rightarrow> nat \<Rightarrow> string" where
  "room_line name what member_count =
     ''* '' @ name @ what @ '' ('' @ dec member_count @ '' member'' @ (if member_count = 1 then '''' else ''s'') @ '')''"

section \<open>A participant\<close>

text \<open>
  \<open>pt_replies\<close> holds the answer of \<open>join\<close> until it is taken, \<open>pt_roster\<close> the rest of the loop over it; \<open>pt_main\<close> and \<open>pt_reader\<close> the member a
  thread is about to follow (between the two locked sections of \<open>follow_member\<close>); \<open>pt_subs\<close> the keys of \<open>feed_subs\<close>; \<open>pt_out\<close> the lines
  printed. \<open>pt_failed\<close> records for the statements whose subscription failed.
\<close>

record part =
  pt_name :: string
  pt_asked :: bool
  pt_inbox :: "bytes list"
  pt_replies :: "bytes list"
  pt_roster :: "Event list"
  pt_main :: "(string \<times> string) option"
  pt_reader :: "(string \<times> string) option"
  pt_subs :: "string list"
  pt_failed :: "string list"
  pt_out :: "string list"

definition part_init :: "string \<Rightarrow> part" where
  "part_init display_name = \<lparr>pt_name = display_name, pt_asked = False, pt_inbox = [], pt_replies = [], pt_roster = [], pt_main = None,
     pt_reader = None, pt_subs = [], pt_failed = [], pt_out = []\<rparr>"

text \<open>\<open>follow_member\<close> up to the call of \<open>subscribe\<close>, and from there.\<close>

definition follow_check :: "string \<Rightarrow> Event \<Rightarrow> part \<Rightarrow> (string \<times> string) option" where
  "follow_check my_service ev p =
     (if ev_service ev = my_service then None
      else if ev_service ev \<in> set (pt_subs p) then None
      else Some (ev_name ev, ev_service ev))"

definition follow_done :: "string \<times> string \<Rightarrow> bool \<Rightarrow> part \<Rightarrow> part" where
  "follow_done ns subscribed p = (case ns of (name, service) \<Rightarrow>
     if subscribed
     then p\<lparr>pt_subs := (if service \<in> set (pt_subs p) then pt_subs p else pt_subs p @ [service]),
            pt_out := pt_out p @ [''* '' @ name @ '' joined'']\<rparr>
     else p\<lparr>pt_failed := service # pt_failed p\<rparr>)"

text \<open>The callback of a feed, and the test of the callback of the room's events.\<close>

definition feed_callback :: "string \<Rightarrow> bytes \<Rightarrow> bool \<Rightarrow> part \<Rightarrow> part cres" where
  "feed_callback name message closed p =
     (if closed then Ok (p\<lparr>pt_out := pt_out p @ [''* '' @ name @ '' left'']\<rparr>)
      else rbind (decode_event message) (\<lambda>ev.
        Ok (if ev_kind ev = EventMessage then p\<lparr>pt_out := pt_out p @ [ev_name ev @ '': '' @ ev_text ev]\<rparr> else p)))"

definition room_event :: "string \<Rightarrow> bytes \<Rightarrow> part \<Rightarrow> (string \<times> string) option cres" where
  "room_event my_service message p =
     rbind (decode_event message) (\<lambda>ev. Ok (if ev_kind ev = EventPresent then follow_check my_service ev p else None))"

section \<open>The whole chat\<close>

text \<open>A handler of the room between its lock and its publication.\<close>

datatype handler = Joining string Event AppResponse | Leaving Event

record chat =
  ch_members :: members
  ch_handlers :: "handler list"
  ch_parts :: "(string \<times> part) list"
  ch_used :: "string list"

definition chat_init :: chat where
  "chat_init = \<lparr>ch_members = [], ch_handlers = [], ch_parts = [], ch_used = []\<rparr>"

datatype chat_act = Start string string | Join string | Leave string | Crash string
  | Publish nat | Reply string | MainCheck string | MainDone string bool | ReaderCheck string | ReaderDone string bool

definition set_part :: "string \<Rightarrow> part \<Rightarrow> chat \<Rightarrow> chat" where
  "set_part sv p s = s\<lparr>ch_parts := AList.update sv p (ch_parts s)\<rparr>"

definition do_join :: "string \<Rightarrow> part \<Rightarrow> chat \<Rightarrow> chat option" where
  "do_join sv p s =
     (if pt_asked p then None
      else case decode_event (encode_event (present_event (pt_name p) sv)) of
        Ok joiner \<Rightarrow>
          (case join_locked joiner (ch_members s) of (snapshot, member_count, members1) \<Rightarrow>
             Some ((set_part sv (p\<lparr>pt_asked := True\<rparr>) s)\<lparr>ch_members := members1,
               ch_handlers := ch_handlers s @ [Joining sv joiner (join_response snapshot)]\<rparr>))
      | _ \<Rightarrow> None)"

definition do_leave :: "string \<Rightarrow> part \<Rightarrow> chat \<Rightarrow> chat option" where
  "do_leave sv p s =
     (if \<not> pt_asked p then None
      else case decode_event (encode_event \<lparr>ev_kind = EventLeft, ev_name = pt_name p, ev_service = sv, ev_text = []\<rparr>) of
        Ok leaver \<Rightarrow>
          (case leave_locked leaver (ch_members s) of (leaver1, member_count, members1) \<Rightarrow>
             Some (s\<lparr>ch_members := members1, ch_handlers := ch_handlers s @ [Leaving leaver1], ch_parts := AList.delete sv (ch_parts s)\<rparr>))
      | _ \<Rightarrow> None)"

text \<open>\<open>events.publish\<close>, and for \<open>join\<close> the answer after it.\<close>

fun publish_handler :: "handler \<Rightarrow> string \<Rightarrow> part \<Rightarrow> part" where
  "publish_handler (Joining sv joiner r) k p =
     (let p1 = p\<lparr>pt_inbox := pt_inbox p @ [encode_event (present_event (ev_name joiner) (ev_service joiner))]\<rparr>
      in if k = sv then p1\<lparr>pt_replies := pt_replies p1 @ [resp_payload r]\<rparr> else p1)"
| "publish_handler (Leaving leaver) k p =
     p\<lparr>pt_inbox := pt_inbox p @ [encode_event \<lparr>ev_kind = EventLeft, ev_name = ev_name leaver, ev_service = ev_service leaver, ev_text = []\<rparr>]\<rparr>"

definition do_publish :: "nat \<Rightarrow> chat \<Rightarrow> chat option" where
  "do_publish i s =
     (if i < length (ch_handlers s)
      then Some (s\<lparr>ch_handlers := take i (ch_handlers s) @ drop (Suc i) (ch_handlers s),
                   ch_parts := map (\<lambda>(k, p). (k, publish_handler (ch_handlers s ! i) k p)) (ch_parts s)\<rparr>)
      else None)"

definition take_reply :: "part \<Rightarrow> part option" where
  "take_reply p =
     (if pt_roster p \<noteq> [] \<or> pt_main p \<noteq> None then None
      else case pt_replies p of
        [] \<Rightarrow> None
      | b # bs \<Rightarrow> (case decode_event_list b of Ok evs \<Rightarrow> Some (p\<lparr>pt_replies := bs, pt_roster := evs\<rparr>) | _ \<Rightarrow> None))"

definition main_check :: "string \<Rightarrow> part \<Rightarrow> part option" where
  "main_check sv p =
     (case (pt_main p, pt_roster p) of
        (None, ev # evs) \<Rightarrow> Some (p\<lparr>pt_roster := evs, pt_main := follow_check sv ev p\<rparr>)
      | _ \<Rightarrow> None)"

definition main_done :: "bool \<Rightarrow> part \<Rightarrow> part option" where
  "main_done subscribed p = (case pt_main p of None \<Rightarrow> None | Some ns \<Rightarrow> Some (follow_done ns subscribed (p\<lparr>pt_main := None\<rparr>)))"

definition reader_check :: "string \<Rightarrow> part \<Rightarrow> part option" where
  "reader_check sv p =
     (case (pt_reader p, pt_inbox p) of
        (None, b # bs) \<Rightarrow> (case room_event sv b p of Ok r \<Rightarrow> Some (p\<lparr>pt_inbox := bs, pt_reader := r\<rparr>) | _ \<Rightarrow> None)
      | _ \<Rightarrow> None)"

definition reader_done :: "bool \<Rightarrow> part \<Rightarrow> part option" where
  "reader_done subscribed p = (case pt_reader p of None \<Rightarrow> None | Some ns \<Rightarrow> Some (follow_done ns subscribed (p\<lparr>pt_reader := None\<rparr>)))"

definition on_part :: "string \<Rightarrow> (part \<Rightarrow> part option) \<Rightarrow> chat \<Rightarrow> chat option" where
  "on_part sv f s = (case map_of (ch_parts s) sv of
     None \<Rightarrow> None | Some p \<Rightarrow> (case f p of None \<Rightarrow> None | Some p1 \<Rightarrow> Some (set_part sv p1 s)))"

text \<open>Service names carry a random suffix and are not used twice.\<close>

fun chat_exec :: "chat_act \<Rightarrow> chat \<Rightarrow> chat option" where
  "chat_exec (Start name sv) s =
     (if sv \<in> set (ch_used s) \<or> map_of (ch_parts s) sv \<noteq> None \<or> 255 < length name \<or> 255 < length sv then None
      else Some ((set_part sv (part_init name) s)\<lparr>ch_used := sv # ch_used s\<rparr>))"
| "chat_exec (Join sv) s = (case map_of (ch_parts s) sv of None \<Rightarrow> None | Some p \<Rightarrow> do_join sv p s)"
| "chat_exec (Leave sv) s = (case map_of (ch_parts s) sv of None \<Rightarrow> None | Some p \<Rightarrow> do_leave sv p s)"
| "chat_exec (Crash sv) s = Some (s\<lparr>ch_parts := AList.delete sv (ch_parts s)\<rparr>)"
| "chat_exec (Publish i) s = do_publish i s"
| "chat_exec (Reply sv) s = on_part sv take_reply s"
| "chat_exec (MainCheck sv) s = on_part sv (main_check sv) s"
| "chat_exec (MainDone sv ok) s = on_part sv (main_done ok) s"
| "chat_exec (ReaderCheck sv) s = on_part sv (reader_check sv) s"
| "chat_exec (ReaderDone sv ok) s = on_part sv (reader_done ok) s"

text \<open>Everything but the comings and goings of participants.\<close>

fun internal :: "chat_act \<Rightarrow> bool" where
  "internal (Start _ _) = False"
| "internal (Join _) = False"
| "internal (Leave _) = False"
| "internal (Crash _) = False"
| "internal _ = True"

fun chat_run :: "chat_act list \<Rightarrow> chat \<Rightarrow> chat option" where
  "chat_run [] s = Some s"
| "chat_run (a # as) s = (case chat_exec a s of None \<Rightarrow> None | Some s1 \<Rightarrow> chat_run as s1)"

section \<open>The membership\<close>

definition idle :: "part \<Rightarrow> bool" where
  "idle p \<longleftrightarrow> pt_inbox p = [] \<and> pt_replies p = [] \<and> pt_roster p = [] \<and> pt_main p = None \<and> pt_reader p = None"

definition quiescent :: "chat \<Rightarrow> bool" where
  "quiescent s \<longleftrightarrow> ch_handlers s = [] \<and> (\<forall>sv \<in> set (map fst (ch_parts s)). case map_of (ch_parts s) sv of Some p \<Rightarrow> idle p | None \<Rightarrow> True)"

text \<open>How a participant may come to know of a service: it follows it or failed to, it is about to, a message says so that it
  has yet to read, or a handler of the room is about to send one.\<close>

fun told :: "bytes \<Rightarrow> string set" where
  "told m = (case decode_event m of Ok ev \<Rightarrow> if ev_kind ev = EventPresent then {ev_service ev} else {} | _ \<Rightarrow> {})"

fun listed :: "bytes \<Rightarrow> string set" where
  "listed m = (case decode_event_list m of Ok evs \<Rightarrow> ev_service ` set evs | _ \<Rightarrow> {})"

fun target :: "(string \<times> string) option \<Rightarrow> string set" where
  "target None = {}"
| "target (Some (name, service)) = {service}"

declare told.simps [simp del] listed.simps [simp del]

definition known :: "part \<Rightarrow> string set" where
  "known p = set (pt_subs p) \<union> set (pt_failed p) \<union> target (pt_main p) \<union> target (pt_reader p) \<union> ev_service ` set (pt_roster p)
     \<union> \<Union> (told ` set (pt_inbox p)) \<union> \<Union> (listed ` set (pt_replies p))"

fun announced :: "string \<Rightarrow> handler \<Rightarrow> string set" where
  "announced a (Joining sv joiner r) = {ev_service joiner} \<union> (if sv = a then listed (resp_payload r) else {})"
| "announced a (Leaving leaver) = {}"

definition aware :: "chat \<Rightarrow> string \<Rightarrow> part \<Rightarrow> string set" where
  "aware s a p = known p \<union> \<Union> (announced a ` set (ch_handlers s))"

definition sane :: "string \<Rightarrow> part \<Rightarrow> bool" where
  "sane a p \<longleftrightarrow> distinct (pt_subs p) \<and> a \<notin> set (pt_subs p) \<and> a \<notin> target (pt_main p) \<and> a \<notin> target (pt_reader p)"

fun handler_wf :: "handler \<Rightarrow> bool" where
  "handler_wf (Joining sv joiner r) \<longleftrightarrow> length (ev_service joiner) \<le> 255"
| "handler_wf (Leaving leaver) \<longleftrightarrow> True"

text \<open>The invariant: the room has every participant that joined, and any two of them are aware of each other.\<close>

definition part_wf :: "string \<Rightarrow> part \<Rightarrow> bool" where
  "part_wf a p \<longleftrightarrow> length a \<le> 255 \<and> length (pt_name p) \<le> 255 \<and> sane a p"

definition chat_inv :: "chat \<Rightarrow> bool" where
  "chat_inv s \<longleftrightarrow> (\<forall>sv \<in> fst ` set (ch_members s). length sv \<le> 255) \<and> (\<forall>h \<in> set (ch_handlers s). handler_wf h)
     \<and> (\<forall>a p. map_of (ch_parts s) a = Some p \<longrightarrow> part_wf a p)
     \<and> (\<forall>a p. map_of (ch_parts s) a = Some p \<longrightarrow> pt_asked p \<longrightarrow> a \<in> fst ` set (ch_members s))
     \<and> (\<forall>a p b q. map_of (ch_parts s) a = Some p \<longrightarrow> pt_asked p \<longrightarrow> map_of (ch_parts s) b = Some q \<longrightarrow> pt_asked q \<longrightarrow> b \<in> insert a (aware s a p))"

lemma chat_invD:
  assumes "chat_inv s"
  shows "sv \<in> fst ` set (ch_members s) \<Longrightarrow> length sv \<le> 255" "h \<in> set (ch_handlers s) \<Longrightarrow> handler_wf h"
    "map_of (ch_parts s) a = Some p \<Longrightarrow> part_wf a p"
    "map_of (ch_parts s) a = Some p \<Longrightarrow> pt_asked p \<Longrightarrow> a \<in> fst ` set (ch_members s)"
    "map_of (ch_parts s) a = Some p \<Longrightarrow> pt_asked p \<Longrightarrow> map_of (ch_parts s) b = Some q \<Longrightarrow> pt_asked q \<Longrightarrow> b \<in> insert a (aware s a p)"
  using assms unfolding chat_inv_def by auto

lemma chat_invI:
  assumes "\<And>sv. sv \<in> fst ` set (ch_members s) \<Longrightarrow> length sv \<le> 255" "\<And>h. h \<in> set (ch_handlers s) \<Longrightarrow> handler_wf h"
    and "\<And>a p. map_of (ch_parts s) a = Some p \<Longrightarrow> part_wf a p"
    and "\<And>a p. map_of (ch_parts s) a = Some p \<Longrightarrow> pt_asked p \<Longrightarrow> a \<in> fst ` set (ch_members s)"
    and "\<And>a p b q. map_of (ch_parts s) a = Some p \<Longrightarrow> pt_asked p \<Longrightarrow> map_of (ch_parts s) b = Some q \<Longrightarrow> pt_asked q \<Longrightarrow> b \<in> insert a (aware s a p)"
  shows "chat_inv s"
  unfolding chat_inv_def by (intro conjI ballI allI impI) (fact assms)+

subsection \<open>Steps of one participant\<close>

definition progress :: "string \<Rightarrow> part \<Rightarrow> part \<Rightarrow> bool" where
  "progress a p p' \<longleftrightarrow> pt_name p' = pt_name p \<and> pt_asked p' = pt_asked p \<and> known p \<subseteq> insert a (known p') \<and> (sane a p \<longrightarrow> sane a p')"

lemma listed_Ok: "decode_event_list m = Ok evs \<Longrightarrow> listed m = ev_service ` set evs"
  by (simp add: listed.simps)

lemma take_reply_progress: "take_reply p = Some p' \<Longrightarrow> progress a p p'"
  by (auto simp: take_reply_def progress_def known_def sane_def listed_Ok split: if_splits list.splits cres.splits)

lemma follow_done_progress:
  "pt_main p = Some ns \<Longrightarrow> progress a p (follow_done ns ok (p\<lparr>pt_main := None\<rparr>))"
  "pt_reader p = Some ns \<Longrightarrow> progress a p (follow_done ns ok (p\<lparr>pt_reader := None\<rparr>))"
  by (cases ns; auto simp: follow_done_def progress_def known_def sane_def)+

lemma done_progress: "main_done ok p = Some p' \<Longrightarrow> progress a p p'" "reader_done ok p = Some p' \<Longrightarrow> progress a p p'"
  by (auto simp: main_done_def reader_done_def follow_done_progress split: option.splits)

lemma follow_target: "ev_service ev \<in> insert a (set (pt_subs p) \<union> target (follow_check a ev p))" "a \<notin> target (follow_check a ev p)"
  by (auto simp: follow_check_def)

lemma main_check_progress: "main_check a p = Some p' \<Longrightarrow> progress a p p'"
proof -
  assume "main_check a p = Some p'"
  then obtain ev evs where "pt_main p = None" "pt_roster p = ev # evs" "p' = p\<lparr>pt_roster := evs, pt_main := follow_check a ev p\<rparr>"
    by (auto simp: main_check_def split: option.splits list.splits)
  then show ?thesis using follow_target [where ev = ev and a = a and p = p] by (auto simp: progress_def known_def sane_def)
qed

lemma room_event_target:
  assumes "room_event a m p = Ok r"
  shows "told m \<subseteq> insert a (set (pt_subs p) \<union> target r)" "a \<notin> target r"
proof -
  obtain ev where ev: "decode_event m = Ok ev" "r = (if ev_kind ev = EventPresent then follow_check a ev p else None)"
    using assms by (auto simp: room_event_def rbind_eq_Ok_iff)
  then show "told m \<subseteq> insert a (set (pt_subs p) \<union> target r)" "a \<notin> target r"
    using follow_target [where ev = ev and a = a and p = p] by (simp_all add: told.simps)
qed

lemma reader_check_progress: "reader_check a p = Some p' \<Longrightarrow> progress a p p'"
  using room_event_target [of a _ p]
  by (fastforce simp: reader_check_def progress_def known_def sane_def split: option.splits list.splits cres.splits)

lemma set_part_inv:
  assumes "chat_inv s" "map_of (ch_parts s) a = Some p" "progress a p p'"
  shows "chat_inv (set_part a p' s)"
proof (rule chat_invI)
  have m: "map_of (ch_parts (set_part a p' s)) = (map_of (ch_parts s))(a \<mapsto> p')" by (simp add: set_part_def update_conv')
  note D = chat_invD [OF assms(1)]
  have old: "\<exists>r0. map_of (ch_parts s) c = Some r0 \<and> (pt_asked r0 = pt_asked r) \<and> aware s c r0 \<subseteq> insert c (aware (set_part a p' s) c r) \<and> (part_wf c r0 \<longrightarrow> part_wf c r)"
    if "map_of (ch_parts (set_part a p' s)) c = Some r" for c r
    using that assms(2,3) unfolding m by (cases "c = a") (auto simp: progress_def aware_def part_wf_def set_part_def)
  show "part_wf c r" if "map_of (ch_parts (set_part a p' s)) c = Some r" for c r
    using old [OF that] D(3) by blast
  show "c \<in> fst ` set (ch_members (set_part a p' s))" if "map_of (ch_parts (set_part a p' s)) c = Some r" "pt_asked r" for c r
    using old [OF that(1)] that(2) D(4) by (auto simp: set_part_def)
  show "b \<in> insert c (aware (set_part a p' s) c r)"
    if "map_of (ch_parts (set_part a p' s)) c = Some r" "pt_asked r" "map_of (ch_parts (set_part a p' s)) b = Some q" "pt_asked q" for c r b q
    using old [OF that(1)] old [OF that(3)] that(2,4) D(5) by blast
qed (use chat_invD(1,2) [OF assms(1)] in \<open>simp_all add: set_part_def\<close>)

lemma on_part_inv:
  assumes "chat_inv s" "on_part a f s = Some s'" "\<And>p p'. f p = Some p' \<Longrightarrow> progress a p p'"
  shows "chat_inv s'"
  using assms by (auto simp: on_part_def intro: set_part_inv split: option.splits)

subsection \<open>Comings, goings and publications\<close>

lemma present_roundtrip:
  "length name \<le> 255 \<Longrightarrow> length sv \<le> 255 \<Longrightarrow> decode_event (encode_event (present_event name sv)) = Ok (present_event name sv)"
  by (simp add: event_roundtrip clip_def present_event_def)

lemma told_present: "length sv \<le> 255 \<Longrightarrow> told (encode_event (present_event name sv)) = {sv}"
  by (simp add: told.simps event_roundtrip clip_def present_event_def)

lemma listed_snapshot:
  assumes "\<forall>sv \<in> fst ` set members. length sv \<le> 255"
  shows "listed (resp_payload (join_response (fst (join_locked joiner members)))) = fst ` set members"
proof -
  let ?es = "map (\<lambda>(svc, name). present_event name svc) members"
  have "\<forall>e \<in> set ?es. length (encode_event e) < 65536"
    by (auto simp: length_encode_event clip_def present_event_def)
  then have "decode_event_list (encode_event_list ?es) = Ok (map clip ?es)" by (rule event_list_roundtrip)
  moreover have "ev_service ` set (map clip ?es) = fst ` set members"
    using assms by (force simp: clip_def present_event_def image_iff)
  ultimately show ?thesis by (simp add: join_response_def join_locked_def listed.simps Let_def)
qed

lemma do_join_inv:
  assumes I: "chat_inv s" and a: "map_of (ch_parts s) a = Some p" and s': "do_join a p s = Some s'"
  shows "chat_inv s'"
proof -
  note D = chat_invD [OF I]
  let ?j = "present_event (pt_name p) a" and ?r = "join_response (fst (join_locked (present_event (pt_name p) a) (ch_members s)))"
  have wf: "length a \<le> 255" "length (pt_name p) \<le> 255" "sane a p" using D(3) [OF a] by (simp_all add: part_wf_def)
  then have s: "s' = (set_part a (p\<lparr>pt_asked := True\<rparr>) s)\<lparr>ch_members := AList.update a (pt_name p) (ch_members s), ch_handlers := ch_handlers s @ [Joining a ?j ?r]\<rparr>"
    using s' present_roundtrip [OF wf(2,1)] by (auto simp: do_join_def join_locked_def Let_def present_event_def split: if_splits)
  have parts: "map_of (ch_parts s') = (map_of (ch_parts s))(a \<mapsto> p\<lparr>pt_asked := True\<rparr>)" by (simp add: s set_part_def update_conv')
  have hs: "ch_handlers s' = ch_handlers s @ [Joining a ?j ?r]" and ms: "fst ` set (ch_members s') = insert a (fst ` set (ch_members s))" by (simp_all add: s dom_update)
  have seen: "fst ` set (ch_members s) \<subseteq> aware s' a q" "a \<in> aware s' c q" "aware s c q \<subseteq> aware s' c q" for c q
    using listed_snapshot [of "ch_members s"] D(1) by (auto simp: aware_def hs present_event_def)
  have k [simp]: "known (p\<lparr>pt_asked := True\<rparr>) = known p" "sane a (p\<lparr>pt_asked := True\<rparr>) = sane a p" by (simp_all add: known_def sane_def)
  show ?thesis
  proof (rule chat_invI)
    show "part_wf c q" if "map_of (ch_parts s') c = Some q" for c q
      using that D(3) [of c q] wf unfolding parts by (auto simp: part_wf_def split: if_splits)
    show "c \<in> fst ` set (ch_members s')" if "map_of (ch_parts s') c = Some q" "pt_asked q" for c q
      using that D(4) [of c q] unfolding parts ms by (auto split: if_splits)
    show "b \<in> insert c (aware s' c q)" if "map_of (ch_parts s') c = Some q" "pt_asked q" "map_of (ch_parts s') b = Some r" "pt_asked r" for c q b r
    proof (cases "c = a \<or> b = a")
      case True
      then show ?thesis using that(3,4) seen D(4) [of b r] unfolding parts by (auto split: if_splits)
    next
      case False
      then show ?thesis using that D(5) [of c q b r] seen(3) unfolding parts by auto
    qed
  qed (use D(1,2) wf in \<open>auto simp: ms hs present_event_def\<close>)
qed

lemma remove_part_inv:
  assumes I: "chat_inv s" and parts: "map_of (ch_parts s') = (map_of (ch_parts s))(a := None)"
    and hs: "ch_handlers s' = ch_handlers s \<or> (\<exists>leaver. ch_handlers s' = ch_handlers s @ [Leaving leaver])"
    and ms: "fst ` set (ch_members s) - {a} \<subseteq> fst ` set (ch_members s')" "fst ` set (ch_members s') \<subseteq> fst ` set (ch_members s)"
  shows "chat_inv s'"
proof (rule chat_invI)
  note D = chat_invD [OF I]
  have aw: "aware s' c q = aware s c q" for c q using hs by (auto simp: aware_def)
  show "c \<in> fst ` set (ch_members s')" if "map_of (ch_parts s') c = Some q" "pt_asked q" for c q
    using that D(4) [of c q] ms(1) unfolding parts by (auto split: if_splits)
  show "b \<in> insert c (aware s' c q)" if "map_of (ch_parts s') c = Some q" "pt_asked q" "map_of (ch_parts s') b = Some r" "pt_asked r" for c q b r
    using that D(5) [of c q b r] unfolding parts aw by (auto split: if_splits)
  show "handler_wf h" if "h \<in> set (ch_handlers s')" for h using that hs D(2) by auto
  show "part_wf c q" if "map_of (ch_parts s') c = Some q" for c q using that D(3) unfolding parts by (auto split: if_splits)
qed (use chat_invD(1) [OF I] ms(2) in blast)

lemma keys_delete: "fst ` set (AList.delete k xs) = fst ` set xs - {k}"
  by (auto simp: AList.delete_eq)

lemma do_leave_inv:
  assumes I: "chat_inv s" and a: "map_of (ch_parts s) a = Some p" and s': "do_leave a p s = Some s'"
  shows "chat_inv s'"
proof -
  have wf: "length a \<le> 255" "length (pt_name p) \<le> 255" using chat_invD(3) [OF I a] by (simp_all add: part_wf_def)
  obtain leaver where "s' = s\<lparr>ch_members := AList.delete a (ch_members s), ch_handlers := ch_handlers s @ [Leaving leaver], ch_parts := AList.delete a (ch_parts s)\<rparr>"
    using s' wf by (auto simp: do_leave_def leave_locked_def event_roundtrip clip_def Let_def split: if_splits)
  then show ?thesis by (intro remove_part_inv [OF I, of _ a]) (auto simp: delete_conv' keys_delete)
qed

lemma map_of_map_parts: "map_of (map (\<lambda>(k, p). (k, f k p)) xs) a = map_option (f a) (map_of xs a)"
  by (induction xs) auto

lemma publish_known:
  "handler_wf h \<Longrightarrow> known (publish_handler h a p) = known p \<union> announced a h"
  "pt_asked (publish_handler h a p) = pt_asked p" "part_wf a (publish_handler h a p) = part_wf a p"
proof -
  have "told (encode_event \<lparr>ev_kind = EventLeft, ev_name = n, ev_service = sv, ev_text = []\<rparr>) = {}" for n sv
    by (simp add: told.simps event_roundtrip clip_def EventLeft_def EventPresent_def)
  then show "handler_wf h \<Longrightarrow> known (publish_handler h a p) = known p \<union> announced a h"
    by (cases h) (auto simp: known_def told_present Let_def)
  show "pt_asked (publish_handler h a p) = pt_asked p" "part_wf a (publish_handler h a p) = part_wf a p"
    by (cases h; simp add: Let_def part_wf_def sane_def)+
qed

lemma do_publish_inv:
  assumes I: "chat_inv s" and s': "do_publish i s = Some s'"
  shows "chat_inv s'"
proof -
  note D = chat_invD [OF I]
  define h where "h = ch_handlers s ! i"
  have i: "i < length (ch_handlers s)" and s: "ch_members s' = ch_members s" "ch_handlers s' = take i (ch_handlers s) @ drop (Suc i) (ch_handlers s)"
    "map_of (ch_parts s') c = map_option (publish_handler h c) (map_of (ch_parts s) c)" for c
    using s' by (auto simp: do_publish_def h_def map_of_map_parts split: if_splits)
  have hs: "ch_handlers s = take i (ch_handlers s) @ h # drop (Suc i) (ch_handlers s)" using id_take_nth_drop [OF i] by (simp add: h_def)
  have set: "set (ch_handlers s) = insert h (set (ch_handlers s'))" unfolding s(2) by (subst hs) auto
  have aw: "aware s' c (publish_handler h c q) = aware s c q" for c q
    using D(2) [of h] set by (auto simp: aware_def publish_known)
  show ?thesis
  proof (rule chat_invI)
    show "part_wf c q" if "map_of (ch_parts s') c = Some q" for c q using that D(3) by (auto simp: s(3) publish_known)
    show "b \<in> insert c (aware s' c q)" if "map_of (ch_parts s') c = Some q" "pt_asked q" "map_of (ch_parts s') b = Some r" "pt_asked r" for c q b r
    proof -
      from that obtain q0 r0 where "map_of (ch_parts s) c = Some q0" "q = publish_handler h c q0" "map_of (ch_parts s) b = Some r0" "r = publish_handler h b r0"
        by (auto simp: s(3))
      with that D(5) [of c q0 b r0] show ?thesis by (simp add: publish_known aw)
    qed
    show "handler_wf x" if "x \<in> set (ch_handlers s')" for x using that set D(2) by auto
    show "c \<in> fst ` set (ch_members s')" if "map_of (ch_parts s') c = Some q" "pt_asked q" for c q using that D(4) by (auto simp: s(1,3) publish_known)
  qed (use D(1) in \<open>simp add: s(1)\<close>)
qed

lemma chat_exec_inv: "chat_exec a s = Some s' \<Longrightarrow> chat_inv s \<Longrightarrow> chat_inv s'"
proof (cases a)
  case (Start name sv)
  assume "chat_exec a s = Some s'" "chat_inv s"
  with Start have s: "s' = (set_part sv (part_init name) s)\<lparr>ch_used := sv # ch_used s\<rparr>" "length name \<le> 255" "length sv \<le> 255" "map_of (ch_parts s) sv = None"
    by (auto split: if_splits)
  note D = chat_invD [OF \<open>chat_inv s\<close>]
  show ?thesis
  proof (rule chat_invI)
    show "part_wf c q" if "map_of (ch_parts s') c = Some q" for c q
      using that D(3) s(2,3) by (auto simp: s(1) set_part_def update_conv' part_wf_def sane_def part_init_def split: if_splits)
    show "c \<in> fst ` set (ch_members s')" if "map_of (ch_parts s') c = Some q" "pt_asked q" for c q
      using that D(4) by (auto simp: s(1) set_part_def update_conv' part_init_def split: if_splits)
    show "b \<in> insert c (aware s' c q)" if "map_of (ch_parts s') c = Some q" "pt_asked q" "map_of (ch_parts s') b = Some r" "pt_asked r" for c q b r
      using that D(5) [of c q b r] by (auto simp: s(1) set_part_def update_conv' part_init_def aware_def split: if_splits)
  qed (use D(1,2) in \<open>auto simp: s(1) set_part_def\<close>)
next
  case (Crash sv)
  assume "chat_exec a s = Some s'" "chat_inv s"
  with Crash show ?thesis by (intro remove_part_inv [OF \<open>chat_inv s\<close>, of _ sv]) (auto simp: delete_conv')
qed (auto intro: do_join_inv do_leave_inv do_publish_inv on_part_inv take_reply_progress main_check_progress reader_check_progress done_progress
      split: option.splits)

lemma chat_run_inv: "chat_run as s = Some s' \<Longrightarrow> chat_inv s \<Longrightarrow> chat_inv s'"
  by (induction as arbitrary: s) (auto dest: chat_exec_inv split: option.splits)

lemma chat_init_inv: "chat_inv chat_init"
  by (rule chat_invI) (simp_all add: chat_init_def)

subsection \<open>Settling\<close>

lemma decode_events_length: "decode_events_from b pos acc = Ok es \<Longrightarrow> length es \<le> length acc + (length b - pos)"
proof (induction b pos acc rule: decode_events_from.induct)
  case (1 b pos events)
  show ?case
  proof (cases "pos + 2 \<le> length b")
    case True
    then obtain len where g: "get_u16 b pos = Ok len" by (simp add: get_u16_at)
    show ?thesis
    proof (cases "length b < pos + 2 + unat len")
      case False
      then obtain x e where x: "rd_block b (pos + 2) (unat len) = Ok x" "decode_event x = Ok e" using decode_event_total by (metis rd_block_Ok not_less)
      then have "decode_events_from b (pos + 2 + unat len) (events @ [e]) = Ok es"
        using "1.prems" True g False by (simp add: decode_events_from.simps [of b pos])
      with "1.IH" [OF True g False, of e] x False show ?thesis by simp
    qed (use "1.prems" True g in \<open>simp add: decode_events_from.simps\<close>)
  qed (use "1.prems" in \<open>simp add: decode_events_from.simps\<close>)
qed

fun weight_opt :: "'a option \<Rightarrow> nat" where
  "weight_opt None = 0"
| "weight_opt (Some _) = 1"

lemma weight_opt_bound [simp]: "weight_opt x < 2"
  by (cases x) auto

definition weight :: "part \<Rightarrow> nat" where
  "weight p = 2 * length (pt_inbox p) + sum_list (map (\<lambda>m. 1 + 2 * length m) (pt_replies p)) + 2 * length (pt_roster p)
     + weight_opt (pt_main p) + weight_opt (pt_reader p)"

definition workload :: "chat \<Rightarrow> nat" where
  "workload s = sum_list (map (weight \<circ> snd) (ch_parts s))"

lemma weight_decreases:
  "take_reply p = Some p' \<Longrightarrow> weight p' < weight p" "main_check a p = Some p' \<Longrightarrow> weight p' < weight p"
  "main_done ok p = Some p' \<Longrightarrow> weight p' < weight p" "reader_check a p = Some p' \<Longrightarrow> weight p' < weight p"
  "reader_done ok p = Some p' \<Longrightarrow> weight p' < weight p"
proof -
  show "take_reply p = Some p' \<Longrightarrow> weight p' < weight p"
    by (auto simp: take_reply_def weight_def decode_event_list_def dest: decode_events_length split: if_splits list.splits cres.splits)
  show "main_check a p = Some p' \<Longrightarrow> weight p' < weight p"
    by (auto simp: main_check_def weight_def split: option.splits list.splits)
  show "reader_check a p = Some p' \<Longrightarrow> weight p' < weight p"
    by (auto simp: reader_check_def weight_def split: option.splits list.splits cres.splits)
qed (auto simp: main_done_def reader_done_def follow_done_def weight_def split: option.splits prod.splits if_splits)

lemma workload_update:
  "map_of xs a = Some p \<Longrightarrow> sum_list (map (w \<circ> snd) (AList.update a p' xs)) + w p = sum_list (map (w \<circ> snd) xs) + (w p' :: nat)"
  by (induction xs) auto

lemma on_part_work:
  assumes "on_part a f s = Some s'" "\<And>p p'. f p = Some p' \<Longrightarrow> weight p' < weight p"
  shows "(s', s) \<in> measures [\<lambda>s. length (ch_handlers s), workload]"
proof -
  from assms(1) obtain p p' where p: "map_of (ch_parts s) a = Some p" "f p = Some p'" "s' = set_part a p' s"
    by (auto simp: on_part_def split: option.splits)
  then show ?thesis
    using workload_update [OF p(1), of weight p'] assms(2) [OF p(2)] by (simp add: workload_def set_part_def)
qed

text \<open>Every internal action gets the chat closer to the state in which nothing is left to do.\<close>

lemma internal_decreases:
  assumes "internal a" "chat_exec a s = Some s'"
  shows "(s', s) \<in> measures [\<lambda>s. length (ch_handlers s), workload]"
proof (cases a)
  case (Publish i)
  with assms(2) show ?thesis by (auto simp: do_publish_def split: if_splits)
qed (use assms in \<open>auto simp del: in_measures intro: on_part_work weight_decreases\<close>)

lemma idle_or_acts:
  assumes "map_of (ch_parts s) sv = Some p" "\<not> idle p"
  shows "\<exists>a s'. internal a \<and> chat_exec a s = Some s'"
proof -
  have act: "\<exists>s'. on_part sv f s = Some s'" if "f p \<noteq> None" for f using that assms(1) by (auto simp: on_part_def)
  consider "pt_main p \<noteq> None" | "pt_reader p \<noteq> None" | "pt_main p = None" "pt_roster p \<noteq> []"
    | "pt_reader p = None" "pt_inbox p \<noteq> []" | "pt_main p = None" "pt_roster p = []" "pt_replies p \<noteq> []"
    using assms(2) unfolding idle_def by metis
  then show ?thesis
  proof cases
    case 1
    then have "main_done True p \<noteq> None" by (auto simp: main_done_def)
    from act [where f = "main_done True", OF this] show ?thesis by (intro exI [of _ "MainDone sv True"]) simp
  next
    case 2
    then have "reader_done True p \<noteq> None" by (auto simp: reader_done_def)
    from act [where f = "reader_done True", OF this] show ?thesis by (intro exI [of _ "ReaderDone sv True"]) simp
  next
    case 3
    then have "main_check sv p \<noteq> None" by (auto simp: main_check_def neq_Nil_conv)
    from act [where f = "main_check sv", OF this] show ?thesis by (intro exI [of _ "MainCheck sv"]) simp
  next
    case 4
    then obtain m ms where m: "pt_inbox p = m # ms" by (auto simp: neq_Nil_conv)
    obtain r where "room_event sv m p = Ok r" using decode_event_total [of m] by (auto simp: room_event_def)
    then have "reader_check sv p \<noteq> None" using 4 m by (simp add: reader_check_def)
    from act [where f = "reader_check sv", OF this] show ?thesis by (intro exI [of _ "ReaderCheck sv"]) simp
  next
    case 5
    then obtain m ms where m: "pt_replies p = m # ms" by (auto simp: neq_Nil_conv)
    obtain evs where "decode_event_list m = Ok evs" using decode_events_from_total [of m 0 "[]"] by (auto simp: decode_event_list_def)
    then have "take_reply p \<noteq> None" using 5 m by (simp add: take_reply_def)
    from act [where f = "take_reply", OF this] show ?thesis by (intro exI [of _ "Reply sv"]) simp
  qed
qed

lemma acts_unless_quiescent:
  assumes "\<not> quiescent s"
  shows "\<exists>a s'. internal a \<and> chat_exec a s = Some s'"
proof (cases "ch_handlers s")
  case Nil
  with assms obtain sv p where "map_of (ch_parts s) sv = Some p" "\<not> idle p" by (auto simp: quiescent_def split: option.splits)
  then show ?thesis by (rule idle_or_acts)
next
  case (Cons h hs)
  then show ?thesis by (intro exI [of _ "Publish 0"]) (simp add: do_publish_def)
qed

section \<open>Properties\<close>

text \<open>C33: The group chat is complete. In every interleaving of the room's handlers and the two threads of each participant, with
  participants that come, leave and crash: what the processes do among themselves comes to an end, it can only stop in a state in which
  nothing is left to do, and in such a state any two participants that have joined follow each other's feed, once each, unless the attempt to
  subscribe to it failed.\<close>

theorem group_chat_complete:
  assumes "chat_run as chat_init = Some s"
  shows "wfp (\<lambda>s' s. \<exists>a. internal a \<and> chat_exec a s = Some s')
    \<and> (quiescent s \<or> (\<exists>a s'. internal a \<and> chat_exec a s = Some s'))
    \<and> (quiescent s \<longrightarrow> (\<forall>a p b q. map_of (ch_parts s) a = Some p \<and> pt_asked p \<and> map_of (ch_parts s) b = Some q \<and> pt_asked q \<and> a \<noteq> b \<longrightarrow>
         (b \<in> set (pt_subs p) \<or> b \<in> set (pt_failed p)) \<and> distinct (pt_subs p) \<and> a \<notin> set (pt_subs p)))"
proof (intro conjI impI allI; (elim conjE)?)
  show "wfp (\<lambda>s' s. \<exists>a. internal a \<and> chat_exec a s = Some s')"
    unfolding wfp_def by (rule wf_subset [of "measures [\<lambda>s. length (ch_handlers s), workload]"]) (auto dest: internal_decreases)
  show "quiescent s \<or> (\<exists>a s'. internal a \<and> chat_exec a s = Some s')" using acts_unless_quiescent by blast
next
  fix a p b q
  assume *: "quiescent s" "map_of (ch_parts s) a = Some p" "pt_asked p" "map_of (ch_parts s) b = Some q" "pt_asked q" "a \<noteq> b"
  note I = chat_invD [OF chat_run_inv [OF assms chat_init_inv]]
  have "a \<in> set (map fst (ch_parts s))" using *(2) by (force dest: map_of_SomeD)
  then have i: "idle p" "ch_handlers s = []" using *(1,2) by (auto simp: quiescent_def)
  have "b \<in> insert a (aware s a p)" by (rule I(5) [OF *(2-5)])
  with i *(6) show "b \<in> set (pt_subs p) \<or> b \<in> set (pt_failed p)" by (auto simp: aware_def known_def idle_def)
  show "distinct (pt_subs p)" "a \<notin> set (pt_subs p)" using I(3) [OF *(2)] by (simp_all add: part_wf_def sane_def)
qed

section \<open>Instances\<close>

lemmas chat_eval = chat_init_def set_part_def part_init_def do_join_def event_roundtrip clip_def present_event_def join_locked_def join_response_def
  do_publish_def on_part_def take_reply_def event_list_roundtrip length_encode_event main_check_def follow_check_def reader_check_def room_event_def
  main_done_def reader_done_def follow_done_def quiescent_def idle_def Let_def

text \<open>Alice and Bob join while the other does; the publications come in the other order.\<close>

definition both_join :: "chat_act list" where
  "both_join = [Start ''alice'' ''a'', Start ''bob'' ''b'', Join ''a'', Join ''b'', Publish 1, Publish 0]"

definition both_read :: "bool \<Rightarrow> chat_act list" where
  "both_read ok = [ReaderCheck ''a'', ReaderDone ''a'' True, ReaderCheck ''a'', Reply ''a'',
     Reply ''b'', MainCheck ''b'', MainDone ''b'' ok, ReaderCheck ''b'', ReaderCheck ''b'']"

theorem group_chat_complete_witness:
  "\<exists>s p q. chat_run (both_join @ both_read True) chat_init = Some s \<and> quiescent s \<and> map_of (ch_parts s) ''a'' = Some p \<and> map_of (ch_parts s) ''b'' = Some q
     \<and> ''b'' \<in> set (pt_subs p) \<and> ''a'' \<in> set (pt_subs q)"
proof -
  obtain s where s: "chat_run (both_join @ both_read True) chat_init = Some s" and q: "quiescent s"
    and p: "map_option (\<lambda>p. (pt_asked p, pt_failed p)) (map_of (ch_parts s) ''a'') = Some (True, [])" "map_option (\<lambda>p. (pt_asked p, pt_failed p)) (map_of (ch_parts s) ''b'') = Some (True, [])"
    by (simp add: both_join_def both_read_def chat_eval del: encode_event_list.simps)
  from p obtain pa pb where "map_of (ch_parts s) ''a'' = Some pa" "map_of (ch_parts s) ''b'' = Some pb" "pt_asked pa" "pt_asked pb" "pt_failed pa = []" "pt_failed pb = []"
    by (auto simp: map_option_eq_Some)
  with group_chat_complete [OF s] q s show ?thesis by fastforce
qed

text \<open>A participant that joins while another does can meet it both in its roster and in the events: then both threads follow it, and its
  arrival is announced twice. The comment on the room's lock says that a concurrent join cannot be seen twice.\<close>

theorem concurrent_join_seen_twice:
  "\<exists>s p. chat_run (both_join @ [Reply ''b'', MainCheck ''b'', ReaderCheck ''b'', ReaderCheck ''b'', MainDone ''b'' True, ReaderDone ''b'' True]) chat_init = Some s
     \<and> map_of (ch_parts s) ''b'' = Some p \<and> pt_out p = [''* alice joined'', ''* alice joined''] \<and> pt_subs p = [''a'']"
  by (simp add: both_join_def chat_eval del: encode_event_list.simps)

text \<open>A subscription that fails is not tried again: nothing is left to do, and Bob still does not follow Alice, who is there. The comment in
  \<open>follow_member\<close> says that a live event will retry; \<open>join\<close> publishes only one.\<close>

theorem failed_follow_not_retried:
  "\<exists>s p q. chat_run ([Start ''alice'' ''a'', Join ''a'', Publish 0, ReaderCheck ''a'', Reply ''a'', Start ''bob'' ''b'', Join ''b'', Publish 0,
       ReaderCheck ''a'', ReaderDone ''a'' True, Reply ''b'', MainCheck ''b'', MainDone ''b'' False, ReaderCheck ''b'']) chat_init = Some s
     \<and> quiescent s \<and> map_of (ch_parts s) ''a'' = Some p \<and> pt_asked p \<and> map_of (ch_parts s) ''b'' = Some q \<and> pt_asked q \<and> pt_subs q = []"
  by (simp add: chat_eval del: encode_event_list.simps)

end
