(* ===== verification/Epx_Cli.thy ===== *)
theory Epx_Cli
  imports Epx_Registry
begin

text \<open>
  The command line tool (\<^verbatim>\<open>tools/epx_cli.cpp\<close>): \<open>epx list\<close> and \<open>epx describe\<close> over the registry. \<open>epx_main\<close> gets the arguments and
  yields the exit status, what is written to the standard output and to the standard error, and the state of the operating system: a
  lookup removes the entry of a dead process. \<open>%s\<close> prints a string up to its first NUL.
\<close>

definition kind_name :: "EndpointKind \<Rightarrow> string" where
  "kind_name k = (case k of
       KReceive \<Rightarrow> ''receive        (call with: get)''
     | KSend \<Rightarrow> ''send           (call with: send)''
     | KStreamReceive \<Rightarrow> ''stream_receive (call with: open_stream)''
     | KStreamSend \<Rightarrow> ''stream_send    (call with: get_stream)''
     | KTopic \<Rightarrow> ''topic          (call with: subscribe)'')"

definition printed :: "string \<Rightarrow> string" where
  "printed s = takeWhile (\<lambda>c. c \<noteq> CHR 0x00) s"

text \<open>\<open>%-<n>s\<close>\<close>

definition padded :: "nat \<Rightarrow> string \<Rightarrow> string" where
  "padded n s = printed s @ replicate (n - length (printed s)) (CHR '' '')"

definition usage :: "string \<Rightarrow> int \<times> string" where
  "usage argv0 = (2, ''usage: '' @ printed argv0 @ '' list'' @ [nl] @ ''       '' @ printed argv0 @ '' describe <service-name>'' @ [nl])"

definition list_line :: "string \<Rightarrow> ServiceDescription option \<Rightarrow> string" where
  "list_line n d = (case d of
       Some sd \<Rightarrow> if sd_description sd \<noteq> [] then padded 40 n @ '' '' @ printed (sd_description sd) else printed n
     | None \<Rightarrow> printed n)"

fun print_services :: "string list \<Rightarrow> os \<Rightarrow> string \<times> os" where
  "print_services [] s = ([], s)"
| "print_services (n # ns) s =
     (case describe n s of (d, s1) \<Rightarrow> case print_services ns s1 of (out, s2) \<Rightarrow> (list_line n d @ [nl] @ out, s2))"

definition endpoint_line :: "DescribedEndpoint \<Rightarrow> string" where
  "endpoint_line ep = ''  '' @ padded 24 (de_name ep) @ '' '' @ kind_name (de_kind ep)"

definition print_description :: "ServiceDescription \<Rightarrow> string" where
  "print_description d =
     ''service:     '' @ printed (sd_service_name d) @ [nl]
     @ (if sd_description d \<noteq> [] then ''description: '' @ printed (sd_description d) @ [nl] else [])
     @ ''pid:         '' @ dec_int (sd_pid d) @ [nl]
     @ ''pubkey:      '' @ to_hex (sd_identity_pubkey d) @ [nl]
     @ ''endpoints:   '' @ dec (length (sd_endpoints d)) @ [nl]
     @ concat (map (\<lambda>ep. endpoint_line ep @ [nl]) (sd_endpoints d))
     @ [nl] @ ''note: registry metadata is unauthenticated; only a live handshake'' @ [nl]
     @ ''proves the service holds the key above (see docs/SPEC.md 4.3).'' @ [nl]"

definition epx_main :: "string \<Rightarrow> string list \<Rightarrow> os \<Rightarrow> int \<times> string \<times> string \<times> os" where
  "epx_main argv0 args s =
     (case args of
        [] \<Rightarrow> (case usage argv0 of (rc, err) \<Rightarrow> (rc, [], err, s))
      | a # rest \<Rightarrow>
          if a = ''list'' then
            (case list_services s of (names, s1) \<Rightarrow>
               if names = [] then (0, ''no services registered'' @ [nl], [], s1)
               else (case print_services names s1 of (out, s2) \<Rightarrow> (0, out, [], s2)))
          else if a = ''describe'' then
            (case rest of
               [svc] \<Rightarrow>
                 (case describe svc s of
                    (None, s1) \<Rightarrow> (1, [], ''no live service registered as '' @ [CHR 0x27] @ printed svc @ [CHR 0x27] @ [nl], s1)
                  | (Some d, s1) \<Rightarrow> (0, print_description d, [], s1))
             | _ \<Rightarrow> (case usage argv0 of (rc, err) \<Rightarrow> (rc, [], err, s)))
          else (case usage argv0 of (rc, err) \<Rightarrow> (rc, [], err, s)))"

section \<open>What the tool reports\<close>

text \<open>The exit status tells a live service, a service that is not registered and a misuse apart.\<close>

theorem epx_exit_status:
  "fst (epx_main argv0 [''describe'', svc] s) = (if fst (lookup svc s) = None then 1 else 0)"
  "fst (epx_main argv0 [''list''] s) = 0"
  "args \<notin> {[a] | a. a = ''list''} \<Longrightarrow> (\<forall>svc. args \<noteq> [''describe'', svc]) \<Longrightarrow> hd (args @ [[]]) \<noteq> ''list'' \<Longrightarrow> fst (epx_main argv0 args s) = 2"
  by (auto simp: epx_main_def describe_def usage_def split: prod.splits option.splits list.splits)

lemma describe_keeps: "describe svc s = (Some d, s') \<Longrightarrow> s' = s"
  by (auto simp: describe_def lookup_def split: option.splits prod.splits if_splits)

lemma print_services_lines:
  assumes "\<forall>n \<in> set names. fst (describe n s) \<noteq> None"
  shows "print_services names s = (concat (map (\<lambda>l. l @ [nl]) (map (\<lambda>n. list_line n (fst (describe n s))) names)), s)"
  using assms
proof (induction names)
  case (Cons n ns)
  then obtain d where "describe n s = (Some d, s)" by (metis describe_keeps list.set_intros(1) option.exhaust prod.collapse)
  with Cons show ?case by simp
qed simp

text \<open>No field of an entry contains a line break, since an entry is read line by line.\<close>

lemma getlines_no_delim: "l \<in> set (getlines d s) \<Longrightarrow> d \<notin> set l"
proof (induction d s rule: getlines.induct)
  case (1 d s)
  then show ?case by (subst (asm) (2) getlines.simps) (auto split: if_splits dest: set_takeWhileD)
qed

lemma entry_description_line:
  "entry_lines ls e = Some e' \<Longrightarrow> \<forall>l \<in> set ls. nl \<notin> set l \<Longrightarrow> nl \<notin> set (en_description e) \<Longrightarrow> nl \<notin> set (en_description e')"
proof (induction ls arbitrary: e)
  case (Cons l ls)
  have val: "nl \<notin> set v" if "split_at (CHR ''='') l = Some (k, v)" for k v
    using that Cons.prems(2) by (auto simp: split_at_def split: if_splits dest!: list.set_sel(2) [rotated] set_dropWhileD)
  show ?case
  proof (cases "split_at (CHR ''='') l")
    case None
    with Cons show ?thesis by simp
  next
    case (Some kv)
    obtain k v where kv: "kv = (k, v)" by fastforce
    with Cons.prems(1) Some obtain e1 where e1: "entry_field k v e = Some e1" "entry_lines ls e1 = Some e'" by (auto split: option.splits)
    from e1(1) have "en_description e1 = en_description e \<or> en_description e1 = v"
      by (auto simp: entry_field_def split: if_splits ex.splits option.splits)
    with Cons.IH [OF e1(2)] Cons.prems(2,3) val Some kv show ?thesis by auto
  qed
qed simp

lemma description_line: "fst (describe n s) = Some d \<Longrightarrow> nl \<notin> set (sd_description d)"
  by (auto simp: describe_def lookup_def Entry_init_def split: prod.splits option.splits if_splits
      dest!: entry_description_line getlines_no_delim)

text \<open>A service that \<open>list_services\<close> names is described as it was, although other entries may have been removed meanwhile.\<close>

lemma listed_described:
  assumes "usable_dir (registry_dir s) s" "paths_wf s" "list_services s = (ns, s1)" "n \<in> set ns"
  shows "fst (describe n s1) = fst (describe n s)" "fst (describe n s) \<noteq> None"
proof -
  have "registry_dir s \<noteq> []" "hd (registry_dir s) = slash" using assms(1) by (auto simp: usable_dir_def)
  note dn = dir_names_facts [OF assms(2) this]
  from assms(4) listed_services [OF assms(1,2), unfolded assms(3) fst_conv] have n: "slash \<notin> set n" "fst (lookup n s) \<noteq> None" by auto
  have "fst (lookup n s1) = fst (lookup n s)"
    using assms(3) list_loop_live_stays [OF assms(1) dn(2) n(1) _ n(2)] by (auto simp: list_services_def split: prod.splits)
  with n(2) show "fst (describe n s1) = fst (describe n s)" "fst (describe n s) \<noteq> None" by (auto simp: describe_def split: prod.splits option.splits)
qed

theorem epx_list_reports:
  assumes u: "usable_dir (registry_dir s) s" and w: "paths_wf s" and names: "\<forall>n. fst (lookup n s) \<noteq> None \<longrightarrow> nl \<notin> set n"
  shows "\<exists>ns. sorted ns \<and> distinct ns \<and> set ns = {n. n \<noteq> [] \<and> slash \<notin> set n \<and> fst (lookup n s) \<noteq> None}
    \<and> getlines nl (fst (snd (epx_main argv0 [''list''] s))) =
        (if ns = [] then [''no services registered''] else map (\<lambda>n. list_line n (fst (describe n s))) ns)"
proof -
  obtain ns s1 where l: "list_services s = (ns, s1)" by fastforce
  note listed = listed_services [OF u w, unfolded l fst_conv]
  note same = listed_described [OF u w l]
  have line: "nl \<notin> set (list_line n (fst (describe n s)))" if "n \<in> set ns" for n
  proof -
    from that same obtain d where d: "fst (describe n s) = Some d" by auto
    have "nl \<notin> set n" using that listed names by auto
    then show ?thesis using description_line [OF d]
      by (auto simp: d list_line_def padded_def printed_def nl_def dest: set_takeWhileD)
  qed
  have out: "fst (snd (epx_main argv0 [''list''] s)) = (if ns = [] then ''no services registered'' @ [nl]
      else concat (map (\<lambda>l. l @ [nl]) (map (\<lambda>n. list_line n (fst (describe n s))) ns)))"
    using print_services_lines [of ns s1] same by (auto simp: epx_main_def l cong: map_cong)
  have "getlines nl (fst (snd (epx_main argv0 [''list''] s))) = (if ns = [] then [''no services registered''] else map (\<lambda>n. list_line n (fst (describe n s))) ns)"
    using getlines_lines [of "map (\<lambda>n. list_line n (fst (describe n s))) ns" nl] getlines_lines [of "[''no services registered'']" nl] line
    by (auto simp: out nl_def simp del: map_map)
  with listed show ?thesis by blast
qed

definition description_lines :: "ServiceDescription \<Rightarrow> string list" where
  "description_lines d =
     [''service:     '' @ printed (sd_service_name d)]
     @ (if sd_description d \<noteq> [] then [''description: '' @ printed (sd_description d)] else [])
     @ [''pid:         '' @ dec_int (sd_pid d), ''pubkey:      '' @ to_hex (sd_identity_pubkey d), ''endpoints:   '' @ dec (length (sd_endpoints d))]
     @ map endpoint_line (sd_endpoints d)
     @ [[], ''note: registry metadata is unauthenticated; only a live handshake'', ''proves the service holds the key above (see docs/SPEC.md 4.3).'']"

lemma print_description_lines:
  assumes "nl \<notin> set (sd_service_name d)" "nl \<notin> set (sd_description d)" "\<forall>ep \<in> set (sd_endpoints d). nl \<notin> set (de_name ep)"
  shows "getlines nl (print_description d) = description_lines d"
proof -
  have kind: "nl \<notin> set (kind_name k)" for k by (cases k) (simp_all add: kind_name_def nl_def)
  have pr: "nl \<notin> set (printed x)" if "nl \<notin> set x" for x using that by (auto simp: printed_def dest: set_takeWhileD)
  then have ep: "\<forall>l \<in> set (map endpoint_line (sd_endpoints d)). nl \<notin> set l" using assms(3) kind by (auto simp: endpoint_line_def padded_def nl_def)
  have num: "nl \<notin> set (dec_int i)" "nl \<notin> set (dec n)" for i n
    by (simp_all add: dec_int_no_char dec_no_char is_digit_def nl_def)
  have "print_description d = concat (map (\<lambda>l. l @ [nl]) (description_lines d))"
    by (simp add: print_description_def description_lines_def comp_def)
  moreover have "\<forall>l \<in> set (description_lines d). nl \<notin> set l"
    using assms(1,2) pr ep num nl_not_in_hex unfolding description_lines_def by (auto simp: nl_def)
  ultimately show ?thesis by (simp only: getlines_lines)
qed

text \<open>C32: What a host publishes is what \<open>epx describe\<close> prints. It exits with 0; one line of the output carries the published identity key, which
  reads back as that key, and every endpoint has a line with its name and its kind.\<close>

theorem epx_describe_reports:
  assumes r: "ready (registry_dir s) s" and k: "slash \<notin> set (en_service_name e)" and ok: "entry_ok e"
    and a: "pid_is_alive (en_pid e) s" and ep: "en_endpoints e = map (\<lambda>(n, kd). n @ '':'' @ kind_to_string kd) eps"
  shows "\<exists>out s'. epx_main argv0 [''describe'', en_service_name e] (snd (publish e s)) = (0, out, [], s')
    \<and> (\<exists>h. ''pubkey:      '' @ h \<in> set (getlines nl out) \<and> from_hex h 32 = Some (en_identity_pubkey e))
    \<and> (\<forall>(n, kd) \<in> set eps. ''  '' @ padded 24 n @ '' '' @ kind_name kd \<in> set (getlines nl out))"
proof -
  let ?d = "\<lparr>sd_service_name = en_service_name e, sd_description = en_description e, sd_pid = en_pid e,
       sd_identity_pubkey = en_identity_pubkey e, sd_endpoints = map (\<lambda>(n, kd). \<lparr>de_name = n, de_kind = kd\<rparr>) eps\<rparr>"
  obtain s' where d: "describe (en_service_name e) (snd (publish e s)) = (Some ?d, s')"
    using describe_published [OF assms] by (metis prod.collapse)
  have "\<forall>x \<in> set (sd_endpoints ?d). nl \<notin> set (de_name x)" using ok ep by (auto simp: entry_ok_def)
  with ok have lines: "getlines nl (print_description ?d) = description_lines ?d"
    by (intro print_description_lines) (simp_all add: entry_ok_def)
  have key: "from_hex (to_hex (en_identity_pubkey e)) 32 = Some (en_identity_pubkey e)" using ok by (simp add: entry_ok_def)
  have "''pubkey:      '' @ to_hex (en_identity_pubkey e) \<in> set (description_lines ?d)"
    "\<forall>(n, kd) \<in> set eps. ''  '' @ padded 24 n @ '' '' @ kind_name kd \<in> set (description_lines ?d)"
    by (force simp: description_lines_def endpoint_line_def)+
  with key lines d show ?thesis by (intro exI [of _ "print_description ?d"] exI [of _ s']) (auto simp: epx_main_def)
qed

theorem epx_describe_reports_witness:
  "\<exists>out s'. epx_main ''epx'' [''describe'', ''notes''] (snd (publish demo_entry demo_os)) = (0, out, [], s')
    \<and> (\<exists>h. ''pubkey:      '' @ h \<in> set (getlines nl out) \<and> from_hex h 32 = Some (replicate 32 7))"
  using epx_describe_reports [OF demo_registry_ready demo_entry_ok(2,1,3), of "[(''read'', KReceive), (''feed'', KTopic)]" "''epx''"]
  by (auto simp: demo_entry_def kind_to_string_def)

end
