(* ===== verification/Epx_Chats.thy ===== *)
theory Epx_Chats
  imports Epx_Events Epx_Cli Epx_Access
begin

text \<open>
  The chat programs without a room: the serverless chat in C++ and in C (\<^verbatim>\<open>examples/polychat.cpp\<close>, \<^verbatim>\<open>examples/polychat_c.c\<close>), which find
  each other in the registry, and the two-party chat (\<^verbatim>\<open>examples/chat.cpp\<close>, \<^verbatim>\<open>examples/chat_c.c\<close>). Lists of lines stand for what is
  printed; what \<open>subscribe\<close> does for each service is an input. C strings end at their first NUL (\<open>printed\<close>), \<open>%.*s\<close> also at its precision,
  and copies into an array of the stack are checked.
\<close>

section \<open>The serverless chat in C++\<close>

definition kPrefix :: string where "kPrefix = ''epx.chat.''"

record poly =
  po_subs :: "string list"
  po_out :: "string list"

definition print_async :: "string \<Rightarrow> string list \<Rightarrow> string list" where
  "print_async text out = out @ [printed text]"

definition display_name :: "string \<Rightarrow> ServiceDescription option \<Rightarrow> string" where
  "display_name svc d = (case d of Some sd \<Rightarrow> if sd_description sd \<noteq> [] then sd_description sd else svc | None \<Rightarrow> svc)"

text \<open>The loop over the names of one poll. An exception that is no \<open>EpxError\<close> leaves the thread.\<close>

fun discover :: "(string \<Rightarrow> unit ex) \<Rightarrow> string \<Rightarrow> string list \<Rightarrow> poly \<Rightarrow> os \<Rightarrow> unit ex \<times> poly \<times> os" where
  "discover subscribed my_service [] p s = (Ret (), p, s)"
| "discover subscribed my_service (svc # svcs) p s =
     (if \<not> prefix kPrefix svc \<or> svc = my_service then discover subscribed my_service svcs p s
      else if svc \<in> set (po_subs p) then discover subscribed my_service svcs p s
      else (case describe svc s of (d, s1) \<Rightarrow>
        let who = display_name svc d
        in case subscribed svc of
             Ret _ \<Rightarrow> discover subscribed my_service svcs
                        (p\<lparr>po_subs := po_subs p @ [svc], po_out := print_async (''* '' @ who @ '' joined'') (po_out p)\<rparr>) s1
           | Throw (EpxError c m) \<Rightarrow> discover subscribed my_service svcs p s1
           | Throw e \<Rightarrow> (Throw e, p, s1)))"

definition discovery_round :: "(string \<Rightarrow> unit ex) \<Rightarrow> string \<Rightarrow> poly \<Rightarrow> os \<Rightarrow> unit ex \<times> poly \<times> os" where
  "discovery_round subscribed my_service p s = (case list_services s of (names, s1) \<Rightarrow> discover subscribed my_service names p s1)"

definition feed_line :: "string \<Rightarrow> bytes \<Rightarrow> bool \<Rightarrow> string cres" where
  "feed_line who message is_closed =
     (if is_closed then Ok (printed (''* '' @ who @ '' left''))
      else rbind (decode_envelope message) (\<lambda>(sender, text). Ok (printed (sender @ '': '' @ text))))"

section \<open>The serverless chat in C\<close>

definition MAX_PEERS :: nat where "MAX_PEERS = 64"

text \<open>\<open>pc_followed\<close> is the used part of \<open>g_followed\<close>, so its length is \<open>g_followed_n\<close>.\<close>

record poly_c =
  pc_followed :: "string list"
  pc_out :: "string list"

definition already_followed :: "string \<Rightarrow> poly_c \<Rightarrow> bool" where
  "already_followed svc p = (svc \<in> set (pc_followed p))"

text \<open>\<open>snprintf\<close> into an array of \<open>n\<close> characters.\<close>

definition snprintf_s :: "nat \<Rightarrow> string \<Rightarrow> string" where
  "snprintf_s n s = take (n - 1) (printed s)"

definition peer_who :: "string \<Rightarrow> ServiceDescription option \<Rightarrow> string" where
  "peer_who svc d = snprintf_s 128 (case d of Some sd \<Rightarrow> if printed (sd_description sd) \<noteq> [] then sd_description sd else svc | None \<Rightarrow> svc)"

text \<open>A slot of the arrays beyond their end is undefined behaviour.\<close>

fun discover_c :: "(string \<Rightarrow> unit ex) \<Rightarrow> string \<Rightarrow> string list \<Rightarrow> poly_c \<Rightarrow> os \<Rightarrow> (poly_c \<times> os) cres" where
  "discover_c subscribed my_service [] p s = Ok (p, s)"
| "discover_c subscribed my_service (svc # svcs) p s =
     (if take (length kPrefix) svc \<noteq> kPrefix then discover_c subscribed my_service svcs p s
      else if svc = my_service then discover_c subscribed my_service svcs p s
      else if already_followed svc p \<or> MAX_PEERS \<le> length (pc_followed p) then discover_c subscribed my_service svcs p s
      else (case describe svc s of (d, s1) \<Rightarrow>
        let who = peer_who svc d
        in case subscribed svc of
             Ret _ \<Rightarrow>
               if length (pc_followed p) < MAX_PEERS
               then discover_c subscribed my_service svcs
                      (p\<lparr>pc_followed := pc_followed p @ [snprintf_s 256 svc], pc_out := pc_out p @ [''* '' @ who @ '' joined'']\<rparr>) s1
               else Oob
           | Throw e \<Rightarrow> discover_c subscribed my_service svcs p s1))"

text \<open>\<open>names\<close> are the C strings that \<open>epx_list_services\<close> returns.\<close>

definition discovery_round_c :: "(string \<Rightarrow> unit ex) \<Rightarrow> string \<Rightarrow> poly_c \<Rightarrow> os \<Rightarrow> (poly_c \<times> os) cres" where
  "discovery_round_c subscribed my_service p s = (case list_services s of (names, s1) \<Rightarrow> discover_c subscribed my_service (map printed names) p s1)"

definition prec :: "bytes \<Rightarrow> string" where
  "prec b = printed (string_of_bytes b)"

definition on_feed :: "string \<Rightarrow> bytes \<Rightarrow> bool \<Rightarrow> string option cres" where
  "on_feed who message is_closed =
     (if is_closed then Ok (Some (''* '' @ who @ '' left''))
      else if length message = 0 then Ok None
      else rbind (rd_u8 message 0) (\<lambda>name_len.
        if length message < 1 + unat name_len then Ok None
        else rbind (rd_block message 1 (unat name_len)) (\<lambda>sender.
             rbind (rd_block message (1 + unat name_len) (length message - 1 - unat name_len)) (\<lambda>text.
               Ok (Some (prec sender @ '': '' @ prec text))))))"

text \<open>The message that is put together in \<open>uint8_t buf[n]\<close>; \<open>name\<close> and \<open>line\<close> are C strings.\<close>

definition envelope_buf :: "nat \<Rightarrow> string \<Rightarrow> string \<Rightarrow> bytes cres" where
  "envelope_buf n name line =
     (let name_len = min (length name) 255
      in if 1 + name_len + length line \<le> n
         then Ok ([word_of_nat name_len] @ bytes_of_string (take name_len name) @ bytes_of_string line) else Oob)"

text \<open>What the input loops do with a line. The port in C reads it with \<open>fgets\<close>: \<open>raw\<close> may end in a newline and is taken up to a NUL.\<close>

datatype poly_cmd = PolyQuit | PolyNothing | PolyPublish bytes

definition poly_input :: "string \<Rightarrow> string \<Rightarrow> poly_cmd" where
  "poly_input name line =
     (if line = ''/quit'' then PolyQuit
      else if line = [] then PolyNothing
      else PolyPublish (encode_envelope name line))"

definition fgets_line :: "string \<Rightarrow> string" where
  "fgets_line raw = (let line = printed raw in if line \<noteq> [] \<and> last line = nl then butlast line else line)"

definition poly_input_c :: "string \<Rightarrow> string \<Rightarrow> poly_cmd cres" where
  "poly_input_c name raw =
     (let line = fgets_line raw
      in if line = ''/quit'' then Ok PolyQuit
         else if length line = 0 then Ok PolyNothing
         else rbind (envelope_buf 1200 name line) (\<lambda>buf. Ok (PolyPublish buf)))"

section \<open>The two-party chat\<close>

definition log_line :: "string \<Rightarrow> string list \<Rightarrow> string list" where
  "log_line line transcript = transcript @ [line]"

text \<open>The endpoint \<open>message\<close>: the new transcript, the line shown, the response.\<close>

definition message_handler :: "bytes \<Rightarrow> string list \<Rightarrow> (string list \<times> string \<times> AppResponse) cres" where
  "message_handler req transcript =
     rbind (decode_envelope req) (\<lambda>(sender, text).
       let line = sender @ '': '' @ text
       in Ok (log_line line transcript, printed line, \<lparr>resp_ok = True, resp_payload = [], resp_error = []\<rparr>))"

text \<open>The endpoint \<open>history\<close> ignores the results of its writes.\<close>

fun history_handler :: "string list \<Rightarrow> writer_prog" where
  "history_handler [] = WDone"
| "history_handler (line # snapshot) = WWrite (bytes_of_string line) (\<lambda>_. history_handler snapshot)"

definition history_chunk :: "bytes \<Rightarrow> bool \<Rightarrow> string option" where
  "history_chunk chunk is_last = (if \<not> is_last \<and> chunk \<noteq> [] then Some (''  '' @ printed (string_of_bytes chunk)) else None)"

text \<open>What the input loop does with a line.\<close>

datatype chat_cmd = CmdQuit | CmdHistory | CmdNothing | CmdSend string bytes

definition chat_input :: "string \<Rightarrow> string \<Rightarrow> chat_cmd" where
  "chat_input my_name line =
     (if line = ''/quit'' then CmdQuit
      else if line = ''/history'' then CmdHistory
      else if line = [] then CmdNothing
      else CmdSend (my_name @ '': '' @ line) (encode_envelope my_name line))"

text \<open>The port in C keeps 1024 lines and cuts a line to the array it is printed into.\<close>

definition log_line_c :: "string \<Rightarrow> string list \<Rightarrow> string list" where
  "log_line_c line transcript = (if length transcript < 1024 then transcript @ [line] else transcript)"

definition message_handler_c :: "bytes \<Rightarrow> string list \<Rightarrow> (string list \<times> string option) cres" where
  "message_handler_c req transcript =
     (if length req = 0 then Ok (transcript, None)
      else rbind (rd_u8 req 0) (\<lambda>name_len.
        if length req < 1 + unat name_len then Ok (transcript, None)
        else rbind (rd_block req 1 (unat name_len)) (\<lambda>sender.
             rbind (rd_block req (1 + unat name_len) (length req - 1 - unat name_len)) (\<lambda>text.
               let line = snprintf_s 1024 (prec sender @ '': '' @ prec text) in Ok (log_line_c line transcript, Some line)))))"

definition chat_input_c :: "string \<Rightarrow> string \<Rightarrow> chat_cmd cres" where
  "chat_input_c my_name raw =
     (let line = fgets_line raw
      in if line = ''/quit'' then Ok CmdQuit
         else if line = ''/history'' then Ok CmdHistory
         else if length line = 0 then Ok CmdNothing
         else let logged = snprintf_s 1024 (my_name @ '': '' @ line)
              in rbind (envelope_buf 1024 my_name line) (\<lambda>buf. Ok (CmdSend logged buf)))"

section \<open>Discovery\<close>

text \<open>The peers that a poll finds and has not seen before.\<close>

definition new_peers :: "string \<Rightarrow> string list \<Rightarrow> string list \<Rightarrow> string list" where
  "new_peers my_service followed names = filter (\<lambda>n. prefix kPrefix n \<and> n \<noteq> my_service \<and> n \<notin> set followed) names"

lemma new_peers_simps [simp]:
  "new_peers me followed [] = []"
  "new_peers me followed (n # ns) =
     (if prefix kPrefix n \<and> n \<noteq> me \<and> n \<notin> set followed then n # new_peers me followed ns else new_peers me followed ns)"
  by (simp_all add: new_peers_def)

lemma new_peers_skip: "n \<notin> set ns \<Longrightarrow> new_peers me (followed @ [n]) ns = new_peers me followed ns"
  by (induction ns) auto

lemma discover_live:
  assumes "distinct names" "\<forall>n \<in> set names. fst (describe n s) \<noteq> None" "\<forall>n. subscribed n = Ret ()"
  shows "discover subscribed me names p s = (Ret (), p\<lparr>po_subs := po_subs p @ new_peers me (po_subs p) names,
     po_out := po_out p @ map (\<lambda>n. printed (''* '' @ display_name n (fst (describe n s)) @ '' joined'')) (new_peers me (po_subs p) names)\<rparr>, s)"
  using assms(1,2)
proof (induction names arbitrary: p)
  case (Cons n ns)
  then obtain d where d: "describe n s = (Some d, s)" by (metis describe_keeps list.set_intros(1) option.exhaust prod.collapse)
  let ?p = "p\<lparr>po_subs := po_subs p @ [n], po_out := print_async (''* '' @ display_name n (Some d) @ '' joined'') (po_out p)\<rparr>"
  show ?case
  proof (cases "prefix kPrefix n \<and> n \<noteq> me \<and> n \<notin> set (po_subs p)")
    case True
    then have "discover subscribed me (n # ns) p s = discover subscribed me ns ?p s" using d assms(3) by simp
    with Cons.IH [of ?p] Cons.prems True new_peers_skip [of n ns me "po_subs p"] show ?thesis by (simp add: print_async_def d)
  next
    case False
    then have "discover subscribed me (n # ns) p s = discover subscribed me ns p s" by auto
    with Cons.IH [of p] Cons.prems False show ?thesis by simp
  qed
qed simp

lemma discover_c_live:
  assumes "distinct names" "\<forall>n \<in> set names. fst (describe n s) \<noteq> None \<and> printed n = n \<and> length n < 256" "\<forall>n. subscribed n = Ret ()"
    and "length (pc_followed p) + length (new_peers me (pc_followed p) names) \<le> MAX_PEERS"
  shows "discover_c subscribed me names p s = Ok (p\<lparr>pc_followed := pc_followed p @ new_peers me (pc_followed p) names,
     pc_out := pc_out p @ map (\<lambda>n. ''* '' @ peer_who n (fst (describe n s)) @ '' joined'') (new_peers me (pc_followed p) names)\<rparr>, s)"
  using assms(1,2,4)
proof (induction names arbitrary: p)
  case (Cons n ns)
  then obtain d where d: "describe n s = (Some d, s)" by (metis describe_keeps list.set_intros(1) option.exhaust prod.collapse)
  have n: "snprintf_s 256 n = n" using Cons.prems(2) by (simp add: snprintf_s_def)
  have pf: "take (length kPrefix) n = kPrefix \<longleftrightarrow> prefix kPrefix n" by (metis append_eq_conv_conj prefix_def take_is_prefix)
  let ?p = "p\<lparr>pc_followed := pc_followed p @ [n], pc_out := pc_out p @ [''* '' @ peer_who n (Some d) @ '' joined'']\<rparr>"
  show ?case
  proof (cases "prefix kPrefix n \<and> n \<noteq> me \<and> n \<notin> set (pc_followed p)")
    case True
    then have "discover_c subscribed me (n # ns) p s = discover_c subscribed me ns ?p s"
      using d n pf assms(3) Cons.prems(3) by (simp add: already_followed_def)
    with Cons.IH [of ?p] Cons.prems True new_peers_skip [of n ns me "pc_followed p"] show ?thesis by (simp add: d)
  next
    case False
    then have "discover_c subscribed me (n # ns) p s = discover_c subscribed me ns p s" using pf by (auto simp: already_followed_def)
    with Cons.IH [of p] Cons.prems False show ?thesis by simp
  qed
qed simp

text \<open>No poll writes beyond the arrays, whatever the registry holds.\<close>

lemma discover_c_bounded: "length (pc_followed p) \<le> MAX_PEERS \<Longrightarrow> \<exists>p' s'. discover_c subscribed me names p s = Ok (p', s') \<and> length (pc_followed p') \<le> MAX_PEERS"
proof (induction names arbitrary: p s)
  case (Cons n ns)
  then show ?case by (auto simp: Let_def split: prod.splits ex.splits)
qed simp

section \<open>Messages\<close>

lemma envelope_buf_eq:
  "length name \<le> 255 \<Longrightarrow> 1 + length name + length line \<le> n \<Longrightarrow> envelope_buf n name line = Ok (encode_envelope name line)"
  by (simp add: envelope_buf_def encode_envelope_def str8_len_byte Let_def min_def)

lemma printed_append: "printed a = a \<Longrightarrow> printed (a @ b) = a @ printed b"
  by (auto simp: printed_def takeWhile_eq_all_conv takeWhile_append)

lemma fgets_line_eq: "printed line = line \<Longrightarrow> fgets_line (line @ [nl]) = line"
  using printed_append [of line "[nl]"] by (simp add: fgets_line_def printed_def nl_def)

lemma on_feed_eq:
  assumes "length sender < 256" "printed sender = sender" "printed text = text"
  shows "on_feed who (encode_envelope sender text) False = Ok (Some (sender @ '': '' @ text))"
    and "feed_line who (encode_envelope sender text) False = Ok (sender @ '': '' @ text)"
proof -
  have "printed '': '' = '': ''" by (simp add: printed_def)
  then have "printed (sender @ '': '' @ text) = sender @ '': '' @ text" using assms(2,3) by (simp only: printed_append)
  then show "feed_line who (encode_envelope sender text) False = Ok (sender @ '': '' @ text)"
    using assms(1) by (simp add: feed_line_def envelope_roundtrip)
  show "on_feed who (encode_envelope sender text) False = Ok (Some (sender @ '': '' @ text))"
    using assms by (simp add: on_feed_def encode_envelope_def str8_len_byte rd_u8_def rd_block_def unat_len_u8 prec_def)
qed

lemma on_feed_total: "\<exists>l. on_feed who message is_closed = Ok l"
  by (auto simp: on_feed_def rd_u8_def rd_block_def)

text \<open>What a peer shows of a transcript that was streamed: its lines, in their order.\<close>

primrec chunks :: "writer_prog \<Rightarrow> (bytes \<times> bool) list" where
  "chunks WDone = [([], True)]"
| "chunks (WThrow e) = []"
| "chunks (WWrite chunk k) = (chunk, False) # (chunks \<circ> k) True"

lemma bytes_of_string_empty [simp]: "bytes_of_string s = [] \<longleftrightarrow> s = []"
  by (cases s) (simp_all add: bytes_of_string_def)

lemma history_shown:
  "\<forall>l \<in> set transcript. l \<noteq> [] \<and> printed l = l \<Longrightarrow>
   List.map_filter (\<lambda>(c, is_last). history_chunk c is_last) (chunks (history_handler transcript)) = map (\<lambda>l. ''  '' @ l) transcript"
  by (induction transcript) (auto simp: history_chunk_def map_filter_simps)

text \<open>The array of the two-party chat in C has room for the longest name and line only because a host whose name is longer cannot listen: its
  socket's path would not fit.\<close>

theorem chat_c_message_fits:
  assumes "listen (default_address_for_service name (net_os n)) n = (Ret l, n')" "length line \<le> 898" "printed name = name" "printed line = line"
  shows "chat_input_c name (line @ [nl]) = Ok (chat_input name line)"
proof -
  have "length (default_address_for_service name (net_os n)) < sun_path_size"
    using assms(1) by (auto simp: listen_def listen_bind_def split: option.splits prod.splits ex.splits if_splits)
  then have "length name < 108" by (simp add: default_address_for_service_def sun_path_size_def)
  moreover have "printed '': '' = '': ''" by (simp add: printed_def)
  then have "printed (name @ '': '' @ line) = name @ '': '' @ line" using assms(3,4) by (simp only: printed_append)
  ultimately show ?thesis using assms(2) envelope_buf_eq [of name line 1024] fgets_line_eq [OF assms(4)]
    by (simp add: chat_input_c_def chat_input_def snprintf_s_def Let_def)
qed

section \<open>Properties\<close>

text \<open>The serverless chat finds everyone. When the subscriptions succeed, one poll of the registry makes a participant follow, in
  order and once each, exactly the live services of the chat that it does not follow yet, itself excepted, and announces them by the name they
  published; a poll that finds nothing new says nothing.\<close>

theorem polychat_discovers:
  assumes u: "usable_dir (registry_dir s) s" and w: "paths_wf s" and ok: "\<forall>n. subscribed n = Ret ()"
  shows "\<exists>new p' s'. discovery_round subscribed me p s = (Ret (), p', s') \<and> sorted new \<and> distinct new
    \<and> set new = {n. prefix kPrefix n \<and> slash \<notin> set n \<and> fst (lookup n s) \<noteq> None \<and> n \<noteq> me \<and> n \<notin> set (po_subs p)}
    \<and> po_subs p' = po_subs p @ new
    \<and> po_out p' = po_out p @ map (\<lambda>n. printed (''* '' @ display_name n (fst (describe n s)) @ '' joined'')) new
    \<and> fst (snd (discovery_round subscribed me p' s)) = p'"
proof -
  obtain ns s1 where l: "list_services s = (ns, s1)" by fastforce
  note listed = listed_services [OF u w, unfolded l fst_conv] and same = listed_described [OF u w l]
  let ?new = "new_peers me (po_subs p) ns"
  have r: "discovery_round subscribed me q s = (Ret (), q\<lparr>po_subs := po_subs q @ new_peers me (po_subs q) ns,
      po_out := po_out q @ map (\<lambda>n. printed (''* '' @ display_name n (fst (describe n s)) @ '' joined'')) (new_peers me (po_subs q) ns)\<rparr>, s1)" for q
  proof -
    have "discover subscribed me ns q s1 = (Ret (), q\<lparr>po_subs := po_subs q @ new_peers me (po_subs q) ns,
      po_out := po_out q @ map (\<lambda>n. printed (''* '' @ display_name n (fst (describe n s1)) @ '' joined'')) (new_peers me (po_subs q) ns)\<rparr>, s1)"
      by (rule discover_live) (use listed same ok in auto)
    moreover have "map (\<lambda>n. printed (''* '' @ display_name n (fst (describe n s1)) @ '' joined'')) (new_peers me (po_subs q) ns)
        = map (\<lambda>n. printed (''* '' @ display_name n (fst (describe n s)) @ '' joined'')) (new_peers me (po_subs q) ns)"
      using same by (intro map_cong) (auto simp: new_peers_def)
    ultimately show ?thesis by (simp add: discovery_round_def l)
  qed
  have none_new: "new_peers me (po_subs p @ ?new) ns = []" by (auto simp: new_peers_def filter_empty_conv)
  have new: "sorted ?new" "distinct ?new" using listed by (simp_all add: new_peers_def sorted_wrt_filter)
  have "set ?new = {n. prefix kPrefix n \<and> slash \<notin> set n \<and> fst (lookup n s) \<noteq> None \<and> n \<noteq> me \<and> n \<notin> set (po_subs p)}"
  proof -
    have "prefix kPrefix n \<Longrightarrow> n \<noteq> []" for n by (auto simp: kPrefix_def)
    with listed show ?thesis by (simp add: new_peers_def) blast
  qed
  moreover have "discovery_round subscribed me q s = (Ret (), q, s1)" if "po_subs q = po_subs p @ ?new" for q
  proof -
    have "new_peers me (po_subs q) ns = []" unfolding that by (rule none_new)
    then show ?thesis using r [of q] by simp
  qed
  ultimately show ?thesis using new by (simp add: r [of p])
qed


section \<open>Instances\<close>

definition chat_entry :: Entry where
  "chat_entry = \<lparr>en_version = 1, en_service_name = ''epx.chat.bob.1'', en_address = ''/home/u/b'', en_identity_pubkey = replicate 32 7,
     en_pid = 42, en_endpoints = [''feed:topic''], en_description = ''bob''\<rparr>"

text \<open>A machine where Bob is registered.\<close>

definition chat_os :: os where
  "chat_os = demo_os\<lparr>os_nodes := os_nodes demo_os @ [([''home'', ''u'', ''epx''], Dir 1000 0x1C0), ([''home'', ''u'', ''epx'', ''registry''], Dir 1000 0x1C0),
     ([''home'', ''u'', ''epx'', ''registry'', ''epx.chat.bob.1.entry''], File 1000 0x1A4 (entry_text chat_entry))]\<rparr>"

lemma chat_os_wf: "registry_dir chat_os = ''/home/u/epx/registry''" "usable_dir (registry_dir chat_os) chat_os" "paths_wf chat_os"
proof -
  have "os_rest chat_os = os_rest demo_os" by (simp add: chat_os_def os_rest_def)
  then show d: "registry_dir chat_os = ''/home/u/epx/registry''" using registry_dir_rest demo_registry(1) by metis
  show "usable_dir (registry_dir chat_os) chat_os" unfolding d usable_dir_def demo_registry(2)
    by (auto simp: chat_os_def demo_os_def node_def is_dir_def is_file_def slash_def prefix_Cons node_owner_def)
  show "paths_wf chat_os" by (simp add: paths_wf_def chat_os_def demo_os_def slash_def)
qed

lemma chat_os_lookup: "fst (lookup n chat_os) = (if n = ''epx.chat.bob.1'' then Some chat_entry else None)" if "slash \<notin> set n"
proof -
  have "entry_lines (getlines nl (entry_text chat_entry)) (Entry_init\<lparr>en_service_name := ''epx.chat.bob.1''\<rparr>) = Some chat_entry"
    using entry_roundtrip [of chat_entry] by (simp add: chat_entry_def entry_ok_def nl_def slash_def)
  moreover have pid: "pid_t (en_pid chat_entry) = 42" "en_pid chat_entry = 42" by (simp_all add: chat_entry_def pid_t_def)
  ultimately show ?thesis unfolding lookup_view [OF chat_os_wf(2) that] unfolding chat_os_wf(1) dir_view_def demo_registry(2)
    by (auto simp: chat_os_def demo_os_def node_def pid_is_alive_def pid)
qed

lemma chat_os_list: "fst (list_services chat_os) = [''epx.chat.bob.1'']"
proof -
  let ?l = "fst (list_services chat_os)"
  from listed_services [OF chat_os_wf(2,3)] have l: "sorted ?l" "distinct ?l" "set ?l = {n. n \<noteq> [] \<and> slash \<notin> set n \<and> fst (lookup n chat_os) \<noteq> None}"
    by blast+
  have b: "set ?l = {''epx.chat.bob.1''}" unfolding l(3) using chat_os_lookup by (auto simp: slash_def split: if_splits)
  with l(2) have "length ?l = 1" by (metis distinct_card card_1_singleton_iff One_nat_def)
  then obtain x where "?l = [x]" by (cases ?l) auto
  with b show ?thesis by simp
qed

theorem polychat_discovers_witness:
  "\<exists>p' s'. discovery_round (\<lambda>_. Ret ()) ''epx.chat.alice.2'' \<lparr>po_subs = [], po_out = []\<rparr> chat_os = (Ret (), p', s') \<and> distinct (po_subs p')"
proof -
  from polychat_discovers [OF chat_os_wf(2,3), of "\<lambda>_. Ret ()" "''epx.chat.alice.2''" "\<lparr>po_subs = [], po_out = []\<rparr>"] show ?thesis by auto
qed

lemma chat_os_name: "fst (describe ''epx.chat.bob.1'' chat_os) = Some d \<Longrightarrow> sd_description d = ''bob''"
  using chat_os_lookup [of "''epx.chat.bob.1''"]
  by (auto simp: describe_def slash_def chat_entry_def split: prod.splits option.splits)


end
