(* ===== verification/Epx_Demo.thy ===== *)
theory Epx_Demo
  imports Epx_CApi "HOL-Library.Signed_Division"
begin

text \<open>
  The handlers of the demo service in C (\<^verbatim>\<open>examples/expose_demo_c.c\<close>): for each request the calls they make of the response writer, with
  undefined behaviour as \<open>Oob\<close>. \<open>long\<close> has 64 bits. \<open>sscanf\<close> with \<open>%ld\<close> reads as \<open>strtol\<close> does, which clamps what is out of range.
\<close>

section \<open>Reading numbers\<close>

definition LONG_MIN :: int where "LONG_MIN = - (2 ^ 63)"

definition LONG_MAX :: int where "LONG_MAX = 2 ^ 63 - 1"

text \<open>One conversion \<open>%ld\<close>: the value and the rest of the input.\<close>

definition scan_ld :: "string \<Rightarrow> (int \<times> string) option" where
  "scan_ld s =
     (let s1 = dropWhile is_space s;
          neg = (s1 \<noteq> [] \<and> hd s1 = CHR ''-'');
          s2 = (if s1 \<noteq> [] \<and> (hd s1 = CHR ''-'' \<or> hd s1 = CHR ''+'') then tl s1 else s1);
          ds = takeWhile is_digit s2;
          v = (if neg then - int (digits_value ds) else int (digits_value ds))
      in if ds = [] then None else Some (max LONG_MIN (min LONG_MAX v), dropWhile is_digit s2))"

text \<open>\<open>sscanf(in, "%ld %ld", &a, &b) == 2\<close>; the blank of the format takes any white space, also none.\<close>

definition sscanf_2 :: "string \<Rightarrow> (int \<times> int) option" where
  "sscanf_2 s =
     (case scan_ld s of
        None \<Rightarrow> None
      | Some (a, rest) \<Rightarrow> (case scan_ld (dropWhile is_space rest) of None \<Rightarrow> None | Some (b, _) \<Rightarrow> Some (a, b)))"

section \<open>The handlers\<close>

definition echo_handler :: "bytes option \<Rightarrow> nat \<Rightarrow> respond_call list" where
  "echo_handler req len = [RespondOk req len]"

text \<open>\<open>a / b\<close> is undefined for \<open>b = 0\<close> and where the quotient is no \<open>long\<close>.\<close>

definition long_div :: "int \<Rightarrow> int \<Rightarrow> int cres" where
  "long_div a b = (if b = 0 \<or> a = LONG_MIN \<and> b = -1 then Oob else Ok (a sdiv b))"

definition divide_handler :: "bytes option \<Rightarrow> nat \<Rightarrow> respond_call list cres" where
  "divide_handler req len =
     (let len1 = (if 64 \<le> len then 64 - 1 else len);
          in_s = cstr (string_of_bytes (to_cpp_bytes req len1))
      in case sscanf_2 in_s of
           None \<Rightarrow> Ok [RespondError (Some (''expected two numbers, e.g. '' @ [CHR 0x22] @ ''10 4'' @ [CHR 0x22]))]
         | Some (a, b) \<Rightarrow>
             if b = 0 then Ok [RespondError (Some ''division by zero'')]
             else rbind (long_div a b) (\<lambda>q.
               let out = take 63 (dec_int q) in Ok [RespondOk (Some (bytes_of_string out)) (length out)]))"

section \<open>Quotients\<close>

lemma length_dec: "0 < k \<Longrightarrow> n < 10 ^ k \<Longrightarrow> length (dec n) \<le> k"
proof (induction k arbitrary: n)
  case (Suc k)
  show ?case
  proof (cases "n < 10")
    case False
    with Suc.prems have "0 < k" by (cases k) auto
    moreover have "n div 10 < 10 ^ k" using Suc.prems by (simp add: less_mult_imp_div_less)
    ultimately have "length (dec (n div 10)) \<le> k" by (rule Suc.IH)
    then show ?thesis using False by (subst dec.simps) simp
  qed (subst dec.simps, simp)
qed simp

lemma length_dec_int:
  assumes "\<bar>i\<bar> \<le> 2 ^ 63"
  shows "length (dec_int i) \<le> 20"
proof -
  have "nat \<bar>i\<bar> < 10 ^ 19" using assms by simp
  then have "length (dec (nat \<bar>i\<bar>)) \<le> 19" by (rule length_dec [rotated]) simp
  then show ?thesis by (auto simp: dec_int_def abs_if split: if_splits)
qed

lemma long_bounds: "LONG_MIN \<le> i \<Longrightarrow> i \<le> LONG_MAX \<Longrightarrow> \<bar>i\<bar> \<le> 2 ^ 63"
  by (simp add: LONG_MIN_def LONG_MAX_def abs_le_iff)

lemma sdiv_bounds: "\<bar>a sdiv b\<bar> \<le> \<bar>a :: int\<bar>"
proof -
  have "\<bar>a\<bar> div \<bar>b\<bar> = int (nat \<bar>a\<bar> div nat \<bar>b\<bar>)" by (simp add: zdiv_int)
  moreover have "nat \<bar>a\<bar> div nat \<bar>b\<bar> \<le> nat \<bar>a\<bar>" by (rule div_le_dividend)
  ultimately have "0 \<le> \<bar>a\<bar> div \<bar>b\<bar>" "\<bar>a\<bar> div \<bar>b\<bar> \<le> \<bar>a\<bar>" by linarith+
  then show ?thesis by (auto simp: signed_divide_int_def abs_mult sgn_if)
qed

lemma scan_ld_blanks: "scan_ld (dropWhile is_space s) = scan_ld s"
proof -
  have "dropWhile is_space (dropWhile is_space s) = dropWhile is_space s" by (rule dropWhile_idem)
  then show ?thesis by (simp add: scan_ld_def)
qed

lemma scan_ld_dec_int:
  assumes "LONG_MIN \<le> i" "i \<le> LONG_MAX" "rest = [] \<or> \<not> is_digit (hd rest)"
  shows "scan_ld (dec_int i @ rest) = Some (i, rest)"
proof -
  have r: "takeWhile is_digit rest = []" "dropWhile is_digit rest = rest" using assms(3) by (cases rest; auto)+
  have d: "takeWhile is_digit (dec n @ rest) = dec n" "dropWhile is_digit (dec n @ rest) = rest" for n
    using dec_digits [of n] r by (simp_all add: takeWhile_append2 dropWhile_append2)
  obtain c cs where c: "dec (nat i) = c # cs" by (cases "dec (nat i)") auto
  then have "is_digit c" using dec_digits [of "nat i"] by auto
  with is_digit_not_sign have c': "\<not> is_space c" "c \<noteq> CHR ''-''" "c \<noteq> CHR ''+''" by blast+
  show ?thesis
  proof (cases "i < 0")
    case True
    then show ?thesis using assms(1,2) d [of "nat (- i)"] by (simp add: scan_ld_def dec_int_def is_space_def Let_def)
  next
    case False
    then show ?thesis using assms(1,2) d [of "nat i"] c' digits_value_dec [of "nat i"] unfolding c by (simp add: scan_ld_def dec_int_def c Let_def)
  qed
qed

lemma cstr_dec_int: "cstr (dec_int a @ '' '' @ dec_int b) = dec_int a @ '' '' @ dec_int b"
proof -
  have "CHR 0x00 \<notin> set (dec_int i)" for i by (rule dec_int_no_char) (simp_all add: is_digit_def)
  then show ?thesis by (auto simp: cstr_def takeWhile_eq_all_conv)
qed

text \<open>Every pair of numbers of the type is read back and divided towards zero, but for the one quotient that is no \<open>long\<close>.\<close>

theorem divide_answers:
  assumes "LONG_MIN \<le> a" "a \<le> LONG_MAX" "LONG_MIN \<le> b" "b \<le> LONG_MAX"
  defines "req \<equiv> bytes_of_string (dec_int a @ '' '' @ dec_int b)"
  shows "divide_handler (Some req) (length req) =
     (if b = 0 then Ok [RespondError (Some ''division by zero'')]
      else if a = LONG_MIN \<and> b = -1 then Oob
      else Ok [RespondOk (Some (bytes_of_string (dec_int (a sdiv b)))) (length (dec_int (a sdiv b)))])"
proof -
  have l: "length req < 64" using length_dec_int [OF long_bounds [OF assms(1,2)]] length_dec_int [OF long_bounds [OF assms(3,4)]] by (simp add: req_def)
  have "scan_ld (dec_int b) = Some (b, [])" using scan_ld_dec_int [OF assms(3,4), of "[]"] by simp
  then have "scan_ld ('' '' @ dec_int b) = Some (b, [])" using scan_ld_blanks [of "'' '' @ dec_int b"] scan_ld_blanks [of "dec_int b"] by (simp add: is_space_def)
  then have s: "sscanf_2 (dec_int a @ '' '' @ dec_int b) = Some (a, b)"
    using scan_ld_dec_int [OF assms(1,2), of "'' '' @ dec_int b"] by (simp add: sscanf_2_def scan_ld_blanks is_digit_def)
  have "length (dec_int (a sdiv b)) \<le> 63"
    using length_dec_int [of "a sdiv b"] sdiv_bounds [of a b] long_bounds [OF assms(1,2)] by linarith
  then show ?thesis using l s cstr_dec_int [of a b]
    by (auto simp: divide_handler_def long_div_def to_cpp_bytes_def req_def Let_def)
qed

text \<open>The quotient that is no \<open>long\<close> is undefined behaviour (on common processors the signal that ends the process), and any peer can ask for it.\<close>

theorem divide_overflow_undefined:
  defines "req \<equiv> bytes_of_string (dec_int LONG_MIN @ '' '' @ dec_int (-1))"
  shows "divide_handler (Some req) (length req) = Oob"
  using divide_answers [of LONG_MIN "-1"] by (simp add: req_def LONG_MIN_def LONG_MAX_def)

text \<open>The request of the client in C++ is refused: the two demo services do not take the same requests.\<close>

theorem divide_refuses_comma:
  "\<exists>m. divide_handler (Some (bytes_of_string ''10,4'')) 4 = Ok [RespondError (Some m)]"
proof -
  have "sscanf_2 (cstr (string_of_bytes (to_cpp_bytes (Some (bytes_of_string ''10,4'')) 4))) = None" by code_simp
  then show ?thesis by (simp add: divide_handler_def)
qed

end
