(* ===== verification/Spec2Isabelle.thy ===== *)
theory Spec2Isabelle
  imports Epx_System Epx_CHeap Epx_Win Epx_GroupChat Epx_Chats Epx_Demo
begin

text \<open>
  EPX (Encrypted Process eXchange): a verification library for the C++ implementation of an encrypted
  local IPC protocol. A host exposes named endpoints of a service on a Unix domain socket (a named pipe on Windows); a client
  finds the service in a registry directory, connects, runs a signed Diffie-Hellman handshake and
  then exchanges sealed frames: requests, responses, stream chunks, topic publications. Keys rotate
  within a session. Keys, pins, prompt decisions, credentials and registry entries are small files.

  \<^bold>\<open>Parts and theories\<close> (sources below \<^verbatim>\<open>src/\<close>).

  \<^item> \<open>Epx_Prelude\<close>: machine integers, byte and character strings, buffer reads that can fall outside the
    buffer, shared lemmas and the collections \<open>wire_simps\<close> and \<open>wf_intros\<close>.
  \<^item> \<open>Epx_Types\<close>: the public data types of \<^verbatim>\<open>include/epx/epx.hpp\<close>; an operation that may throw returns \<open>'a ex\<close>.
  \<^item> \<open>Epx_Wire\<close> (\<^verbatim>\<open>protocol.hpp\<close>, \<^verbatim>\<open>protocol.cpp\<close>): encoders and decoders of all payloads, signature transcripts, version
    negotiation. Decoders never read outside their input, encodings round-trip, transcripts are injective.
  \<^item> \<open>Epx_Transport\<close>, \<open>Epx_Listen\<close> (\<^verbatim>\<open>transport_posix.cpp\<close>): send and receive loops over a scripted kernel, listening
    sockets, connecting. The locale \<open>byte_stream\<close> is the contract of \<^verbatim>\<open>transport.hpp\<close>; the locale \<open>transfer_loops\<close> shows that
    a loop of partial transfers keeps it, and both are interpreted on the POSIX transport.
  \<^item> \<open>Epx_Win\<close> (\<^verbatim>\<open>transport_win.cpp\<close>, \<^verbatim>\<open>paths_win.cpp\<close>): named pipes with their 32-bit lengths, also an instance of both locales and
    equivalent to sockets below 4 GiB, the listener, the attempts of \<open>connect\<close>, and the directories, which are not made where the
    stores need them.
  \<^item> \<open>Epx_Framing\<close> (\<^verbatim>\<open>framing.cpp\<close>): frames over a transport.
  \<^item> \<open>Epx_Crypto\<close> (\<^verbatim>\<open>crypto.cpp\<close>): the wrapper over libsodium, which is the parameter \<open>S\<close>; its documented laws are
    the hypotheses \<open>sodium_sizes\<close>, \<open>sign_correct\<close>, \<open>kx_agrees\<close>, \<open>aead_correct\<close>, and \<open>toy_sodium\<close> is an instance. The
    locale \<open>sealed_channel\<close> is interpreted on \<open>seal\<close> and \<open>open\<close> of both protocol versions.
  \<^item> \<open>Epx_Handshake\<close> (\<^verbatim>\<open>handshake.cpp\<close>): agreement of honest parties, authenticity for each side, and what
    stripping the version extension does.
  \<^item> \<open>Epx_Session\<close>, \<open>Epx_Rotation\<close> (the session halves of \<^verbatim>\<open>host.cpp\<close> and \<^verbatim>\<open>client.cpp\<close>): counters, epochs and keys of both
    sides. No frame is accepted twice; the locale \<open>aead_sender\<close>, interpreted on both senders, shows that no
    nonce is used twice; a step relation over two peers and the bytes between them shows that a session
    is a pair of FIFO channels in every interleaving, rotations included.
  \<^item> \<open>Epx_Text\<close>, \<open>Epx_Files\<close> (\<^verbatim>\<open>paths_posix.cpp\<close>, \<open>write_private_file\<close>): text conversions; a file system of nodes with owners
    and modes whose calls may be refused. The locale \<open>named_store\<close> states what a store of named files
    promises.
  \<^item> \<open>Epx_Keystore\<close>, \<open>Epx_Registry\<close>, \<open>Epx_Credentials\<close> (\<^verbatim>\<open>keystore.cpp\<close>, \<^verbatim>\<open>registry.cpp\<close>, \<^verbatim>\<open>credentials.cpp\<close>): the stores,
    interpretations of \<open>named_store\<close>; they refine maps and sets under any sequence of updates.
  \<^item> \<open>Epx_Limits\<close>, \<open>Epx_Access\<close>, \<open>Epx_Topic\<close>, \<open>Epx_Host\<close>, \<open>Epx_Server\<close> (\<^verbatim>\<open>host.cpp\<close>): token buckets; the host's state and its
    access decisions against the specification \<open>permitted\<close>; topics over shared send states; a connection from
    admission to its last step; exposing, running, stopping, and a step relation that interleaves all
    threads of a host.
  \<^item> \<open>Epx_Client\<close> (\<^verbatim>\<open>client.cpp\<close>): connecting under the trust policies, the reader thread, calls, streams and
    subscriptions.
  \<^item> \<open>Epx_Calls\<close> (\<^verbatim>\<open>client.cpp\<close>): runs that interleave the operations of a client. The locale \<open>call_tables\<close> passes once over all of them
    for a relation between the states of a connection; its interpretations show that answers come from responses with the call's id and that
    ids are not shared. Readers end, and release whoever waits.
  \<^item> \<open>Epx_CApi\<close> (\<^verbatim>\<open>c_api.cpp\<close>, \<^verbatim>\<open>epx_c.h\<close>): the C entry points over host and client: NULL checks, conversions, status
    codes, wrappers of C callbacks. Status codes and buffers carry the C++ results faithfully, and an
    endpoint served by a C function answers what the function's last respond call says.
  \<^item> \<open>Epx_CHeap\<close> (\<^verbatim>\<open>c_api.cpp\<close>): the blocks that C results are allocated in, over a heap with NULL, indeterminate elements and failing
    allocations. What the caller reads refines the results of \<open>Epx_CApi\<close>, and the release functions free each block once.
  \<^item> \<open>Epx_Cli\<close> (\<^verbatim>\<open>tools/epx_cli.cpp\<close>): \<open>epx list\<close> and \<open>epx describe\<close>; the output names exactly the live services and reads back as what
    was published.
  \<^item> \<open>Epx_Events\<close>, \<open>Epx_GroupChat\<close> (\<^verbatim>\<open>examples/groupchat*\<close>): the codec of the group chat, its room and its participants with their threads.
    In every interleaving the chat settles, and then all who joined follow each other; the two ways in which its comments promise more
    are shown by runs.
  \<^item> \<open>Epx_Chats\<close> (\<^verbatim>\<open>examples/polychat*\<close>, \<^verbatim>\<open>examples/chat*\<close>): discovery through the registry, messages, transcripts and input loops, in C++
    and in C with its arrays; the two ports do the same where the arrays are large enough, and never leave them.
  \<^item> \<open>Epx_Demo\<close> (\<^verbatim>\<open>examples/expose_demo_c.c\<close>): the handlers of the demo service in C; the one division that is undefined.
  \<^item> \<open>Epx_System\<close>: a client and a host with the bytes between them. Dialling, from the registry lookup over the handshake to the
    connection's thread, establishes a session whose ends are in step; from there every call returns what the host's configuration says
    of it (\<open>call_outcome\<close>), with the ends in step again. Both compose the client, the framing, the sealed session with key
    rotation, the codecs, the host's loop, the access decision and the dispatch.

  \<^bold>\<open>State and operations.\<close> A C++ object with state is a record and a method a function on it; objects
  shared between threads (send states, topics, connections) live in stores under a number. A section
  under a mutex, and one turn of a thread's loop, is one step. A host's world is the record \<open>world\<close>, a
  client's \<open>cworld\<close>; the locals of \<open>handle_connection\<close> that live across turns are the record \<open>conn_thread\<close>.
  Calls into the application are function values in the host (they may throw, and a streaming handler is
  a tree of writes) and are logged; in the client they are logged and assumed to return.

  \<^bold>\<open>Bounds and abstractions.\<close> Integers have their width (\<open>u8\<close> to \<open>u64\<close>); clocks are nanoseconds and inputs, as
  are random bytes, results of \<open>setsockopt\<close> and the bytes that arrive. System calls follow scripts over which
  the theorems quantify. Loops that end are functions with a measure; \<open>connection_loop\<close>, \<open>heartbeat_loop\<close>,
  \<open>reader_loop\<close> and \<open>stream_wait\<close> take one list element per turn, and \<open>connection_terminates\<close> and \<open>reader_terminates\<close> say how many turns are
  enough. The \<open>double\<close> fields of a token bucket are exact rationals. The file system has no symbolic links
  and an unordered map is an association list. In \<open>stop\<close> the connection threads finish one after the other.

  In \<open>call_is_answered\<close> two turns on each side are enough: a request is at most two frames (a rotation that is due goes first) and so is its
  answer.

  \<^bold>\<open>Not modelled.\<close> Tests and build files; of the examples the set-up of the programs, which only calls the library, the demo service in C++,
  which computes with floating point numbers, and the FlatBuffers example, whose library is not in the repository; memory wiping and the deletion of handles without a
  destructor; the Windows branches of \<^verbatim>\<open>keystore.cpp\<close> and \<^verbatim>\<open>registry.cpp\<close>, which leave out permissions and the liveness check; the memory model
  below mutexes and atomics; the cryptographic strength of libsodium.
\<close>

end
